(* ===== verification/Prelude.thy ===== *)
theory Prelude
  imports Main "HOL-Library.Word"
begin

text \<open>
  Shared vocabulary of the development: the machine integers of the Rust code, the ways a
  call can fail, the result monad every fallible operation is written in, and the few facts
  about finite maps that stand for \<open>std::collections::HashMap\<close>.

  Integers keep their Rust width as words, so \<open>+\<close> and \<open>-\<close> wrap as they do in the release
  build (\<open>Cargo.toml\<close> leaves \<open>overflow-checks\<close> off there).  \<open>usize\<close> values are lengths and
  configuration counts and are natural numbers.
\<close>

section \<open>Machine integers and byte strings\<close>

type_synonym u8 = "8 word"
type_synonym u16 = "16 word"
type_synonym u32 = "32 word"
type_synonym usize = nat
type_synonym bytes = "8 word list"

section \<open>Failures and results\<close>

text \<open>
  Every panic of the code is a value: \<open>todo!()\<close>, \<open>unwrap\<close> on \<open>None\<close> or \<open>Err\<close>, \<open>assert!\<close>,
  \<open>unreachable!()\<close>, \<open>panic!()\<close>, an index out of bounds and a remainder by zero.  \<open>Diverges\<close> is not a
  panic: it is the value of a call that never returns.
\<close>

datatype failure =
    Todo
  | Unwrap_None
  | Unwrap_Err
  | Assert_Failed
  | Unreachable
  | Panicked
  | Index_Out_Of_Bounds
  | Div_By_Zero
  | Diverges

type_synonym 'a res = "failure + 'a"

definition bind_res :: "'a res \<Rightarrow> ('a \<Rightarrow> 'b res) \<Rightarrow> 'b res" where
  "bind_res r f = (case r of Inl e \<Rightarrow> Inl e | Inr a \<Rightarrow> f a)"

lemma bind_res_simps [simp]:
  "bind_res (Inl e) f = Inl e"
  "bind_res (Inr a) f = f a"
  by (simp_all add: bind_res_def)

lemma bind_res_eq_Inr [simp]:
  "bind_res r f = Inr b \<longleftrightarrow> (\<exists>a. r = Inr a \<and> f a = Inr b)"
  by (cases r) simp_all

lemma bind_res_eq_Inl:
  "bind_res r f = Inl e \<longleftrightarrow> r = Inl e \<or> (\<exists>a. r = Inr a \<and> f a = Inl e)"
  by (cases r) simp_all

definition unwrap :: "'a option \<Rightarrow> 'a res" where
  "unwrap x = (case x of None \<Rightarrow> Inl Unwrap_None | Some a \<Rightarrow> Inr a)"

definition unwrap_ok :: "'a option \<Rightarrow> 'a res" where
  "unwrap_ok x = (case x of None \<Rightarrow> Inl Unwrap_Err | Some a \<Rightarrow> Inr a)"

definition index :: "'a list \<Rightarrow> usize \<Rightarrow> 'a res" where
  "index xs i = (if i < length xs then Inr (xs ! i) else Inl Index_Out_Of_Bounds)"

definition rem_usize :: "usize \<Rightarrow> usize \<Rightarrow> usize res" where
  "rem_usize a b = (if b = 0 then Inl Div_By_Zero else Inr (a mod b))"

definition rem_u8 :: "u8 \<Rightarrow> u8 \<Rightarrow> u8 res" where
  "rem_u8 a b = (if b = 0 then Inl Div_By_Zero else Inr (a mod b))"

named_theorems res_defs \<open>the primitive fallible operations\<close>

declare unwrap_def [res_defs] unwrap_ok_def [res_defs] index_def [res_defs]
  rem_usize_def [res_defs] rem_u8_def [res_defs]

lemma unwrap_eq_Inr [simp]: "unwrap x = Inr a \<longleftrightarrow> x = Some a"
  by (simp add: unwrap_def split: option.split)

lemma unwrap_ok_eq_Inr [simp]: "unwrap_ok x = Inr a \<longleftrightarrow> x = Some a"
  by (simp add: unwrap_ok_def split: option.split)

lemma unwrap_Some [simp]: "unwrap (Some a) = Inr a" "unwrap_ok (Some a) = Inr a"
  by (simp_all add: res_defs)

lemma unwrap_None [simp]: "unwrap None = Inl Unwrap_None" "unwrap_ok None = Inl Unwrap_Err"
  by (simp_all add: res_defs)

lemma index_eq_Inr [simp]: "index xs i = Inr x \<longleftrightarrow> i < length xs \<and> x = xs ! i"
  by (auto simp: index_def)

lemma index_ok: "i < length xs \<Longrightarrow> index xs i = Inr (xs ! i)"
  by simp

section \<open>Channels as seen by a receiver\<close>

text \<open>
  The outcome of \<open>Receiver::try_recv\<close> of crossbeam-channel: a message, \<open>TryRecvError::Empty\<close>
  or \<open>TryRecvError::Disconnected\<close>.  A thread of the model gets this outcome as an argument
  and returns the messages it sends.  Where several threads are put together, the content
  of an unbounded channel is the list of messages sent and not yet received.
\<close>

datatype 'a try_recv = Msg 'a | Empty | Disconnected

definition chan_recv :: "'a list \<Rightarrow> 'a try_recv \<times> 'a list" where
  "chan_recv q = (case q of [] \<Rightarrow> (Empty, []) | m # q' \<Rightarrow> (Msg m, q'))"

lemma chan_recv_simps [simp]:
  "chan_recv [] = (Empty, [])"
  "chan_recv (m # q) = (Msg m, q)"
  by (simp_all add: chan_recv_def)

text \<open>
  \<open>send(..).unwrap()\<close> on an unbounded channel: it fails when no receiver of the channel is left,
  which \<open>alive\<close> tells.
\<close>

definition chan_send :: "bool \<Rightarrow> 'a list \<Rightarrow> 'a list res" where
  "chan_send alive ms = (if alive \<or> ms = [] then Inr ms else Inl Unwrap_Err)"

lemma chan_send_simps [simp]:
  "chan_send True ms = Inr ms"
  "chan_send alive [] = Inr []"
  "chan_send False (m # ms) = Inl Unwrap_Err"
  "chan_send alive ms = Inr ms' \<longleftrightarrow> ms' = ms \<and> (alive \<or> ms = [])"
  "chan_send alive ms = Inl e \<longleftrightarrow> \<not> alive \<and> ms \<noteq> [] \<and> e = Unwrap_Err"
  by (auto simp: chan_send_def)

section \<open>Hash maps with byte keys\<close>

text \<open>\<open>HashMap::len\<close> of a map keyed by \<open>u8\<close>.\<close>

definition hm_len :: "(u8 \<rightharpoonup> 'v) \<Rightarrow> usize" where
  "hm_len m = card (dom m)"

lemma hm_len_code [code]:
  "hm_len m = length (filter (\<lambda>k. m k \<noteq> None) (map of_nat [0..<256]))"
proof -
  have d: "distinct (map (of_nat :: nat \<Rightarrow> u8) [0..<256])"
    by (auto simp: distinct_map inj_on_def unsigned_of_nat take_bit_nat_def
        dest!: arg_cong [where f = unat])
  have "k \<in> set (map of_nat [0..<256])" for k :: u8
    using unsigned_less [of k] by (auto simp: image_iff intro!: bexI [of _ "unat k"])
  then have "dom m = set (filter (\<lambda>k. m k \<noteq> None) (map of_nat [0..<256]))"
    by (auto simp: dom_def)
  with distinct_filter [OF d] show ?thesis
    by (metis distinct_card hm_len_def)
qed

lemma hm_len_empty [simp]: "hm_len Map.empty = 0"
  by (simp add: hm_len_def)

lemma hm_len_upd [simp]:
  "hm_len (m(k \<mapsto> v)) = (if m k = None then Suc (hm_len m) else hm_len m)"
  by (simp add: hm_len_def card_insert_if domIff)

lemma hm_len_mono: "dom m \<subseteq> dom m' \<Longrightarrow> hm_len m \<le> hm_len m'"
  by (simp add: hm_len_def card_mono)

lemma hm_len_pos_iff: "0 < hm_len m \<longleftrightarrow> m \<noteq> Map.empty"
  by (auto simp: hm_len_def card_gt_0_iff)

section \<open>The last element with a property\<close>

lemma find_SomeD: "find P xs = Some y \<Longrightarrow> P y \<and> y \<in> set xs"
  by (induction xs) (auto split: if_splits)

lemma find_rev_sorted:
  assumes "sorted_wrt P xs" and "find Q (rev xs) = Some y" and "x \<in> set xs" and "Q x"
  shows "x = y \<or> P x y"
  using assms
  by (induction xs rule: rev_induct) (auto simp: sorted_wrt_append split: if_splits)

section \<open>Words as counters\<close>

lemma unat_Suc_u32: "unat (w :: u32) < 2 ^ 32 - 1 \<Longrightarrow> unat (w + 1) = Suc (unat w)"
  by (simp add: unat_word_ariths)

lemma unat_of_nat_u32: "n < 2 ^ 32 \<Longrightarrow> unat (of_nat n :: u32) = n"
  by (simp add: unsigned_of_nat take_bit_nat_def)

lemma of_nat_u32_eq_iff:
  "m < 2 ^ 32 \<Longrightarrow> n < 2 ^ 32 \<Longrightarrow> (of_nat m :: u32) = of_nat n \<longleftrightarrow> m = n"
  by (metis unat_of_nat_u32)

section \<open>Polling until there is nothing left to do\<close>

text \<open>
  The loop \<open>while state.poll() {}\<close>.  The value \<open>None\<close> is a loop that never ends.
\<close>

partial_function (option) poll_loop :: "('s \<Rightarrow> (bool \<times> 's) res) \<Rightarrow> 's \<Rightarrow> 's res option" where
  "poll_loop poll s =
     (case poll s of
        Inl e \<Rightarrow> Some (Inl e)
      | Inr r \<Rightarrow> if fst r then poll_loop poll (snd r) else Some (Inr (snd r)))"

lemma poll_loop_simps:
  "poll s = Inl e \<Longrightarrow> poll_loop poll s = Some (Inl e)"
  "poll s = Inr (True, s') \<Longrightarrow> poll_loop poll s = poll_loop poll s'"
  "poll s = Inr (False, s') \<Longrightarrow> poll_loop poll s = Some (Inr s')"
  by (subst poll_loop.simps; simp)+

text \<open>A call of the loop inside a larger operation.\<close>

definition poll_all :: "('s \<Rightarrow> (bool \<times> 's) res) \<Rightarrow> 's \<Rightarrow> 's res" where
  "poll_all poll s = (case poll_loop poll s of None \<Rightarrow> Inl Diverges | Some r \<Rightarrow> r)"

lemma poll_all_simps:
  "poll s = Inl e \<Longrightarrow> poll_all poll s = Inl e"
  "poll s = Inr (True, s') \<Longrightarrow> poll_all poll s = poll_all poll s'"
  "poll s = Inr (False, s') \<Longrightarrow> poll_all poll s = Inr s'"
  by (simp_all add: poll_all_def poll_loop_simps)

text \<open>
  What every poll keeps holds after the loop, when the loop ends; it ends when every poll that asks for
  another one uses something up; and it does not end when every poll asks for another one.
\<close>

lemma poll_loop_rule:
  assumes "poll_loop poll s = Some r" and "r = Inr s'" and "I s"
    and "\<And>s s'. I s \<Longrightarrow> poll s = Inr (True, s') \<Longrightarrow> I s'"
    and "\<And>s s'. I s \<Longrightarrow> poll s = Inr (False, s') \<Longrightarrow> Q s'"
  shows "Q s'"
proof -
  let ?P = "\<lambda>f s r. f = poll \<longrightarrow> I s \<longrightarrow> (\<forall>s'. r = Inr s' \<longrightarrow> Q s')"
  have "?P poll s r"
  proof (rule poll_loop.raw_induct [where P = ?P, OF _ assms(1)])
    fix loop f s r
    assume IH: "\<And>f s r. loop f s = Some r \<Longrightarrow> ?P f s r"
      and eq: "(case f s of Inl e \<Rightarrow> Some (Inl e)
        | Inr r \<Rightarrow> if fst r then loop f (snd r) else Some (Inr (snd r))) = Some r"
    show "?P f s r"
    proof (intro impI allI)
      fix s'
      assume f: "f = poll" and i: "I s" and r: "r = Inr s'"
      show "Q s'"
      proof (cases "poll s")
        case (Inr q)
        obtain again t where q: "q = (again, t)" by (cases q)
        with Inr eq IH [of poll t r] f i r assms(4,5) show ?thesis by (cases again) auto
      qed (use eq f r in simp)
    qed
  qed
  with assms(2,3) show ?thesis by blast
qed

lemma poll_all_rule:
  assumes "poll_all poll s = Inr s'" and "I s"
    and "\<And>s s'. I s \<Longrightarrow> poll s = Inr (True, s') \<Longrightarrow> I s'"
    and "\<And>s s'. I s \<Longrightarrow> poll s = Inr (False, s') \<Longrightarrow> Q s'"
  shows "Q s'"
proof -
  from assms(1) have "poll_loop poll s = Some (Inr s')" by (simp add: poll_all_def split: option.splits)
  from poll_loop_rule [where I = I and Q = Q, OF this refl assms(2-4)] show ?thesis .
qed

lemma poll_loop_diverges:
  assumes "I s" and "\<And>s. I s \<Longrightarrow> \<exists>s'. poll s = Inr (True, s') \<and> I s'"
  shows "poll_loop poll s = None"
proof (rule ccontr)
  assume "poll_loop poll s \<noteq> None"
  then obtain r where r: "poll_loop poll s = Some r" by blast
  let ?P = "\<lambda>f s (r :: 'a res). f = poll \<longrightarrow> \<not> I s"
  have "?P poll s r"
  proof (rule poll_loop.raw_induct [where P = ?P, OF _ r])
    fix loop f s r
    assume IH: "\<And>f s r. loop f s = Some r \<Longrightarrow> ?P f s r"
      and eq: "(case f s of Inl e \<Rightarrow> Some (Inl e)
        | Inr r \<Rightarrow> if fst r then loop f (snd r) else Some (Inr (snd r))) = Some r"
    show "?P f s r"
    proof (intro impI notI)
      assume f: "f = poll" and i: "I s"
      from assms(2) [OF i] obtain t where "poll s = Inr (True, t)" "I t" by blast
      with eq f IH [of poll t r] show False by simp
    qed
  qed
  with assms(1) show False by blast
qed

lemma poll_all_diverges:
  assumes "I s" and "\<And>s. I s \<Longrightarrow> \<exists>s'. poll s = Inr (True, s') \<and> I s'"
  shows "poll_all poll s = Inl Diverges"
  using poll_loop_diverges [where I = I, OF assms] by (simp add: poll_all_def)

lemma poll_all_ok:
  assumes "\<And>s s'. I s \<Longrightarrow> poll s = Inr (True, s') \<Longrightarrow> m s' < (m s :: nat)" and "I s"
    and "\<And>s. I s \<Longrightarrow> \<exists>again s'. poll s = Inr (again, s') \<and> I s'"
  shows "\<exists>s'. poll_all poll s = Inr s' \<and> I s'"
  using assms(2)
proof (induction "m s" arbitrary: s rule: less_induct)
  case less
  obtain again s1 where p: "poll s = Inr (again, s1)" and i: "I s1" using assms(3) [OF less.prems] by blast
  show ?case
  proof (cases again)
    case True
    with p have t: "poll s = Inr (True, s1)" by simp
    show ?thesis using less.hyps [OF assms(1) [OF less.prems t] i] by (simp add: poll_all_simps(2) [where poll = poll, OF t])
  next
    case False
    with p i show ?thesis by (simp add: poll_all_simps(3) [where poll = poll])
  qed
qed

section \<open>Loops over a range\<close>

text \<open>The loop \<open>for x in xs { f(x) }\<close> over a state.\<close>

fun for_each :: "('a \<Rightarrow> 's \<Rightarrow> 's res) \<Rightarrow> 'a list \<Rightarrow> 's \<Rightarrow> 's res" where
  "for_each f [] s = Inr s"
| "for_each f (x # xs) s = bind_res (f x s) (for_each f xs)"

lemma for_each_rule:
  assumes "for_each f xs s = Inr s'" and "I s"
    and "\<And>x s s'. x \<in> set xs \<Longrightarrow> I s \<Longrightarrow> f x s = Inr s' \<Longrightarrow> I s'"
  shows "I s'"
  using assms by (induction xs arbitrary: s) (simp_all, blast)

lemma for_each_ok:
  assumes "I s" and "\<And>x s. x \<in> set xs \<Longrightarrow> I s \<Longrightarrow> \<exists>s'. f x s = Inr s' \<and> I s'"
  shows "\<exists>s'. for_each f xs s = Inr s' \<and> I s'"
  using assms
proof (induction xs arbitrary: s)
  case (Cons x xs)
  then obtain s1 where "f x s = Inr s1" "I s1" by (meson list.set_intros(1))
  with Cons.IH [of s1] Cons.prems(2) show ?case by simp
qed simp

end
