(* ===== verification/Messages.thy ===== *)
theory Messages
  imports Prelude
begin

text \<open>
  The wire types of the package \<open>src/message\<close>: requests, replies, signed messages, the
  transport configuration, the deployment commands (\<open>src/message/src/lib.rs\<close>) and the three
  phases of the agreement protocol (\<open>src/message/src/pbft.rs\<close>).  Each struct is a record with
  the fields of the source in their order, prefixed by the initials of the struct.
\<close>

section \<open>Addresses, digests, keys\<close>

text \<open>\<open>std::net\<close> addresses: an IP address and a port.\<close>

datatype ip_addr = V4 u8 u8 u8 u8 | V6 "128 word"

datatype socket_addr = SocketAddr ip_addr u16

text \<open>
  A digest is a \<open>[u8; 32]\<close>.  Signatures and keys belong to the crate secp256k1 and are kept
  as the byte strings they are sent as.
\<close>

type_synonym digest = bytes
type_synonym signature = bytes
type_synonym public_key = bytes
type_synonym secret_key = bytes

definition default_digest :: digest where
  "default_digest = replicate 32 0"

section \<open>Requests and replies\<close>

record request =
  rq_client_id :: u16
  rq_request_number :: u32
  rq_op :: bytes
  rq_addr :: socket_addr

record reply =
  rp_request_number :: u32
  rp_result :: bytes
  rp_replica_id :: u8
  rp_view_number :: u8

text \<open>The derived \<open>Default\<close> of \<open>Reply\<close>.\<close>

definition reply_default :: reply where
  "reply_default =
     \<lparr>rp_request_number = 0, rp_result = [], rp_replica_id = 0, rp_view_number = 0\<rparr>"

record 'm signed =
  sg_inner :: 'm
  sg_signature :: signature

section \<open>Configuration and commands\<close>

record transport_config =
  tc_n :: usize
  tc_f :: usize
  tc_replica :: "socket_addr list"
  tc_public_keys :: "public_key list"
  tc_secret_keys :: "secret_key list"

datatype app_mode = AppMode_Null

datatype protocol_mode = Protocol_Unreplicated | Protocol_Pbft

record replica_command =
  rc_id :: usize
  rc_n_thread :: usize

record client_command =
  lc_n_client :: usize
  lc_n_thread :: usize
  lc_ip :: ip_addr
  lc_n_report :: usize

record command =
  cd_config :: transport_config
  cd_app :: app_mode
  cd_protocol :: protocol_mode
  cd_replica :: "replica_command option"
  cd_client :: "client_command option"

section \<open>The messages of the agreement protocol\<close>

record pre_prepare =
  pp_view_number :: u8
  pp_op_number :: u32
  pp_request_digest :: digest

record prepare =
  pr_view_number :: u8
  pr_op_number :: u32
  pr_request_digest :: digest
  pr_replica_id :: u8

record commit =
  ct_view_number :: u8
  ct_op_number :: u32
  ct_request_digest :: digest
  ct_replica_id :: u8

datatype to_replica =
    Request request
  | PrePrepare "pre_prepare signed" "request list"
  | Prepare "prepare signed"
  | Commit "commit signed"

end
