(* ===== verification/Externals.thy ===== *)
theory Externals
  imports Messages
begin

text \<open>
  The code the repository calls and does not contain, as one record of parameters that is an
  argument of every definition that uses it: the encoder and decoder of bincode at each type
  the code encodes, the hash, signing and verification of secp256k1, the answer of the
  operating system to a UDP send, and the iteration order of a hash map.  What the
  development relies on is stated as named predicates over this record.
\<close>

section \<open>The parameters\<close>

text \<open>
  \<open>bc_ser_x v\<close> is \<open>bincode::options().serialize(&v).ok()\<close>; \<open>bc_de_x b\<close> is
  \<open>bincode::options().allow_trailing_bytes().deserialize(b).ok()\<close>.  \<open>sc_hash b\<close> is the 32 bytes
  of \<open>secp256k1::Message::from_hashed_data::<sha256::Hash>(b)\<close>.  \<open>os_send_ok dest b\<close> says that
  \<open>UdpSocket::send_to\<close> succeeds.  \<open>hm_first m\<close> is the key that an iteration of the non-empty
  hash map \<open>m\<close> yields first.
\<close>

record externals =
  bc_ser_request :: "request \<Rightarrow> bytes option"
  bc_de_request :: "bytes \<Rightarrow> request option"
  bc_ser_reply :: "reply \<Rightarrow> bytes option"
  bc_de_reply :: "bytes \<Rightarrow> reply option"
  bc_ser_to_replica :: "to_replica \<Rightarrow> bytes option"
  bc_de_to_replica :: "bytes \<Rightarrow> to_replica option"
  bc_ser_requests :: "request list \<Rightarrow> bytes option"
  bc_ser_pre_prepare :: "pre_prepare \<Rightarrow> bytes option"
  bc_ser_prepare :: "prepare \<Rightarrow> bytes option"
  bc_ser_commit :: "commit \<Rightarrow> bytes option"
  sc_hash :: "bytes \<Rightarrow> digest"
  sc_sign :: "digest \<Rightarrow> secret_key \<Rightarrow> signature"
  sc_verify :: "digest \<Rightarrow> signature \<Rightarrow> public_key \<Rightarrow> bool"
  sc_public_key :: "secret_key \<Rightarrow> public_key"
  os_send_ok :: "socket_addr \<Rightarrow> bytes \<Rightarrow> bool"
  hm_first :: "(u8 \<rightharpoonup> bytes) \<Rightarrow> u8"

section \<open>What the code relies on\<close>

text \<open>A decoder reads back what the encoder wrote, whatever bytes follow.\<close>

definition codec_ok :: "('m \<Rightarrow> bytes option) \<Rightarrow> (bytes \<Rightarrow> 'm option) \<Rightarrow> bool" where
  "codec_ok ser de \<longleftrightarrow> (\<forall>m. \<exists>b. ser m = Some b \<and> (\<forall>rest. de (b @ rest) = Some m))"

lemma codec_okD:
  assumes "codec_ok ser de"
  obtains b where "ser m = Some b" "\<And>rest. de (b @ rest) = Some m" "de b = Some m"
proof -
  from assms obtain b where "ser m = Some b" "\<forall>rest. de (b @ rest) = Some m"
    unfolding codec_ok_def by blast
  with that [of b] show ?thesis by (metis append_Nil2)
qed

text \<open>Encoding these types into memory does not fail.\<close>

definition ser_total :: "('m \<Rightarrow> bytes option) \<Rightarrow> bool" where
  "ser_total ser \<longleftrightarrow> (\<forall>m. ser m \<noteq> None)"

lemma ser_totalD: "ser_total ser \<Longrightarrow> \<exists>b. ser m = Some b"
  by (auto simp: ser_total_def)

text \<open>A signature made with a secret key verifies under its public key.\<close>

definition sign_ok :: "externals \<Rightarrow> bool" where
  "sign_ok X \<longleftrightarrow> (\<forall>h sk. sc_verify X h (sc_sign X h sk) (sc_public_key X sk))"

text \<open>The first key an iteration yields is a key of the map.\<close>

definition hm_first_ok :: "externals \<Rightarrow> bool" where
  "hm_first_ok X \<longleftrightarrow> (\<forall>m. m \<noteq> Map.empty \<longrightarrow> m (hm_first X m) \<noteq> None)"

lemma hm_first_okD: "hm_first_ok X \<Longrightarrow> m \<noteq> Map.empty \<Longrightarrow> \<exists>v. m (hm_first X m) = Some v"
  by (auto simp: hm_first_ok_def)

text \<open>The predicates of the parts of the program that use them.\<close>

definition unreplicated_ext_ok :: "externals \<Rightarrow> bool" where
  "unreplicated_ext_ok X \<longleftrightarrow>
     codec_ok (bc_ser_request X) (bc_de_request X) \<and> codec_ok (bc_ser_reply X) (bc_de_reply X)"

definition pbft_ext_ok :: "externals \<Rightarrow> bool" where
  "pbft_ext_ok X \<longleftrightarrow>
     codec_ok (bc_ser_to_replica X) (bc_de_to_replica X) \<and>
     codec_ok (bc_ser_reply X) (bc_de_reply X) \<and>
     ser_total (bc_ser_requests X) \<and> ser_total (bc_ser_pre_prepare X) \<and>
     ser_total (bc_ser_prepare X) \<and> ser_total (bc_ser_commit X) \<and>
     sign_ok X \<and> hm_first_ok X"

end
