(* ===== verification/App.thy ===== *)
theory App
  imports Prelude
begin

text \<open>
  The replicated application of \<open>src/app.rs\<close>.  The enum has one variant; \<open>execute\<close> is given the
  operation number and the operation and returns the new state and the result.
\<close>

datatype app = Null

fun app_execute :: "app \<Rightarrow> u32 \<Rightarrow> bytes \<Rightarrow> app \<times> bytes" where
  "app_execute Null op_number op = (Null, [])"

end
