(* ===== verification/Core.thy ===== *)
theory Core
  imports Externals App "HOL-Library.Option_ord" "HOL-Library.Extended_Nat" "HOL-Library.Stream"
begin

text \<open>
  \<open>src/core.rs\<close>: optional instants and their order, the clock, the sending and receiving ends
  of the network, and what a replica and a client are built from.
\<close>

section \<open>Instants\<close>

text \<open>
  \<open>Instant\<close> and \<open>Duration\<close> count nanoseconds.  \<open>std::cmp::Reverse\<close> turns an order around, so
  in \<open>OptionInstant = Reverse<Option<Reverse<Instant>>>\<close> instants keep their order and the
  default value, \<open>Reverse(None)\<close>, is above all of them.
\<close>

type_synonym instant = nat
type_synonym duration = nat

definition from_millis :: "nat \<Rightarrow> duration" where
  "from_millis n = n * 1000000"

definition from_secs :: "nat \<Rightarrow> duration" where
  "from_secs n = n * 1000000000"

datatype 'a reverse = Reverse (un_reverse: 'a)

instantiation reverse :: (linorder) linorder
begin

definition less_eq_reverse :: "'a reverse \<Rightarrow> 'a reverse \<Rightarrow> bool" where
  "less_eq_reverse a b \<longleftrightarrow> un_reverse b \<le> un_reverse a"

definition less_reverse :: "'a reverse \<Rightarrow> 'a reverse \<Rightarrow> bool" where
  "less_reverse a b \<longleftrightarrow> un_reverse b < un_reverse a"

instance
  by standard (auto simp: less_eq_reverse_def less_reverse_def intro: reverse.expand)

end

type_synonym option_instant = "instant reverse option reverse"

abbreviation at_instant :: "instant \<Rightarrow> option_instant" where
  "at_instant t \<equiv> Reverse (Some (Reverse t))"

definition default_instant :: option_instant where
  "default_instant = Reverse None"

lemma reverse_order [simp]:
  "Reverse a \<le> Reverse b \<longleftrightarrow> b \<le> a"
  "Reverse a < Reverse b \<longleftrightarrow> b < a"
  by (simp_all add: less_eq_reverse_def less_reverse_def)

lemma option_instant_order [simp]:
  "at_instant a \<le> at_instant b \<longleftrightarrow> a \<le> b"
  "at_instant a < at_instant b \<longleftrightarrow> a < b"
  "at_instant a < default_instant"
  "\<not> default_instant \<le> at_instant a"
  "x \<le> default_instant"
  "at_instant a \<noteq> default_instant"
  by (cases x; simp add: default_instant_def)+

lemma less_default_instant_iff: "x < default_instant \<longleftrightarrow> (\<exists>t. x = at_instant t)"
  by (cases x; cases "un_reverse x"; cases "the (un_reverse x)") (auto simp: default_instant_def)

lemma due_not_default: "x \<le> at_instant t \<Longrightarrow> x < default_instant"
  using le_less_trans [of x "at_instant t"] by simp

lemma option_instant_cases:
  obtains (Never) "x = default_instant" | (At) t where "x = at_instant t"
  using that less_default_instant_iff [of x] order.not_eq_order_implies_strict
    option_instant_order(5) by blast

text \<open>The abstract reading of an optional instant: a time, infinite for the default value.\<close>

fun due_time :: "option_instant \<Rightarrow> enat" where
  "due_time (Reverse None) = \<infinity>"
| "due_time (Reverse (Some (Reverse t))) = enat t"

lemma due_time_simps [simp]: "due_time default_instant = \<infinity>"
  by (simp add: default_instant_def)

section \<open>The clock\<close>

text \<open>
  A reading of the time: what \<open>Instant::now()\<close> returns, and the content of the
  \<open>Mutex<Duration>\<close> that a simulated network shares with the clocks it hands out.
\<close>

record time_env =
  te_now :: instant
  te_elapsed :: duration

datatype clock = Clock_Real | Clock_Simulated instant

fun clock_now :: "time_env \<Rightarrow> clock \<Rightarrow> option_instant" where
  "clock_now t Clock_Real = Reverse (Some (Reverse (te_now t)))"
| "clock_now t (Clock_Simulated i) = Reverse (Some (Reverse (i + te_elapsed t)))"

definition clock_after :: "time_env \<Rightarrow> clock \<Rightarrow> duration \<Rightarrow> option_instant res" where
  "clock_after t c d =
     (case clock_now t c of
        Reverse (Some (Reverse now)) \<Rightarrow> Inr (Reverse (Some (Reverse (now + d))))
      | Reverse None \<Rightarrow> Inl Unreachable)"

text \<open>The time a clock shows.\<close>

fun clock_time :: "time_env \<Rightarrow> clock \<Rightarrow> instant" where
  "clock_time t Clock_Real = te_now t"
| "clock_time t (Clock_Simulated i) = i + te_elapsed t"

lemma clock_now_eq [simp]: "clock_now t c = at_instant (clock_time t c)"
  by (cases c) simp_all

lemma clock_after_eq [simp]: "clock_after t c d = Inr (at_instant (clock_time t c + d))"
  by (simp add: clock_after_def del: clock_now.simps)

section \<open>Sending\<close>

text \<open>
  What a call of \<open>send_to\<close> leaves behind: a datagram handed to the socket, or a triple of
  source, destination and payload put into the channel of the simulated network.
\<close>

datatype sent = Udp_Sent socket_addr bytes | Sim_Sent socket_addr socket_addr bytes

fun sent_dest :: "sent \<Rightarrow> socket_addr" where
  "sent_dest (Udp_Sent d b) = d"
| "sent_dest (Sim_Sent s d b) = d"

fun sent_payload :: "sent \<Rightarrow> bytes" where
  "sent_payload (Udp_Sent d b) = b"
| "sent_payload (Sim_Sent s d b) = b"

datatype tx_channel = Tx_Udp | Tx_Simulated socket_addr

fun send_to :: "externals \<Rightarrow> tx_channel \<Rightarrow> bytes \<Rightarrow> socket_addr \<Rightarrow> (usize \<times> sent) res" where
  "send_to X Tx_Udp payload dest =
     (if os_send_ok X dest payload then Inr (length payload, Udp_Sent dest payload)
      else Inl Unwrap_Err)"
| "send_to X (Tx_Simulated addr) payload dest =
     Inr (length payload, Sim_Sent addr dest payload)"

text \<open>The operating system takes what this end sends.\<close>

definition tx_ok :: "externals \<Rightarrow> tx_channel \<Rightarrow> bool" where
  "tx_ok X tx \<longleftrightarrow> (tx = Tx_Udp \<longrightarrow> (\<forall>d b. os_send_ok X d b))"

definition sent_by :: "tx_channel \<Rightarrow> bytes \<Rightarrow> socket_addr \<Rightarrow> sent" where
  "sent_by tx b d = (case tx of Tx_Udp \<Rightarrow> Udp_Sent d b | Tx_Simulated a \<Rightarrow> Sim_Sent a d b)"

lemma sent_by_simps [simp]: "sent_dest (sent_by tx b d) = d" "sent_payload (sent_by tx b d) = b"
  by (simp_all add: sent_by_def split: tx_channel.split)

lemma send_to_eq_Inr [simp]:
  "send_to X tx b d = Inr r \<longleftrightarrow>
     (tx = Tx_Udp \<longrightarrow> os_send_ok X d b) \<and> r = (length b, sent_by tx b d)"
  by (cases tx) (auto simp: sent_by_def)

lemma send_to_ok: "tx_ok X tx \<Longrightarrow> send_to X tx b d = Inr (length b, sent_by tx b d)"
  by (simp add: tx_ok_def)

section \<open>Receiving\<close>

text \<open>
  A non-blocking UDP socket is the infinite sequence of what its calls of \<open>recv_from\<close> return: a
  datagram and its source, \<open>WouldBlock\<close>, or another error.  Nothing is assumed about the sequence;
  in particular datagrams may never stop.  A simulated channel is its pending datagrams and whether a
  sender is left.  The buffer is overwritten in place: a UDP datagram is cut to its length, a
  simulated one that is longer makes the slice index panic.
\<close>

datatype udp_recv = Udp_Packet bytes socket_addr | Udp_Would_Block | Udp_Error

datatype rx_channel =
    Rx_Udp "udp_recv stream"
  | Rx_Simulated "(socket_addr \<times> bytes) list" bool

fun receive_from ::
  "rx_channel \<Rightarrow> bytes \<Rightarrow> ((usize \<times> socket_addr) option \<times> rx_channel \<times> bytes) res" where
  "receive_from (Rx_Udp rs) buf =
     (case shd rs of
        Udp_Packet p a \<Rightarrow>
          (let n = min (length p) (length buf)
           in Inr (Some (n, a), Rx_Udp (stl rs), take n p @ drop n buf))
      | Udp_Would_Block \<Rightarrow> Inr (None, Rx_Udp (stl rs), buf)
      | Udp_Error \<Rightarrow> Inl Assert_Failed)"
| "receive_from (Rx_Simulated [] alive) buf =
     (if alive then Inr (None, Rx_Simulated [] alive, buf) else Inl Assert_Failed)"
| "receive_from (Rx_Simulated ((a, p) # q) alive) buf =
     (if length p \<le> length buf
      then Inr (Some (length p, a), Rx_Simulated q alive, p @ drop (length p) buf)
      else Inl Index_Out_Of_Bounds)"

text \<open>A socket on which the given outcomes come first, and nothing arrives after them.\<close>

definition then_silent :: "udp_recv list \<Rightarrow> udp_recv stream" where
  "then_silent rs = rs @- sconst Udp_Would_Block"

lemma then_silent_simps [simp]:
  "shd (then_silent []) = Udp_Would_Block" "stl (then_silent []) = then_silent []"
  "shd (then_silent (r # rs)) = r" "stl (then_silent (r # rs)) = then_silent rs"
  "sset (then_silent rs) = insert Udp_Would_Block (set rs)"
proof -
  show "sset (then_silent rs) = insert Udp_Would_Block (set rs)"
    unfolding then_silent_def sset_shift sset_sconst by simp
qed (simp_all add: then_silent_def)

text \<open>
  The abstract view of a receiving end: how many datagrams can be read before there is none, which
  may be infinitely many; and the datagrams still to be read.
\<close>

fun is_packet :: "udp_recv \<Rightarrow> bool" where
  "is_packet (Udp_Packet p a) \<longleftrightarrow> True"
| "is_packet _ \<longleftrightarrow> False"

fun rx_pending :: "rx_channel \<Rightarrow> enat" where
  "rx_pending (Rx_Udp rs) =
     (if \<exists>n. \<not> is_packet (rs !! n) then enat (LEAST n. \<not> is_packet (rs !! n)) else \<infinity>)"
| "rx_pending (Rx_Simulated q alive) = enat (length q)"

fun rx_payloads :: "rx_channel \<Rightarrow> bytes set" where
  "rx_payloads (Rx_Udp rs) = {p. \<exists>a. Udp_Packet p a \<in> sset rs}"
| "rx_payloads (Rx_Simulated q alive) = snd ` set q"

text \<open>
  With a buffer of \<open>n\<close> bytes receiving does not fail.  A quiet end has nothing to read
  again and again: no burst of datagrams is infinite.
\<close>

fun rx_ok :: "usize \<Rightarrow> rx_channel \<Rightarrow> bool" where
  "rx_ok n (Rx_Udp rs) \<longleftrightarrow> Udp_Error \<notin> sset rs"
| "rx_ok n (Rx_Simulated q alive) \<longleftrightarrow> alive \<and> (\<forall>(a, p) \<in> set q. length p \<le> n)"

fun rx_quiet :: "rx_channel \<Rightarrow> bool" where
  "rx_quiet (Rx_Udp rs) \<longleftrightarrow> (\<forall>n. \<exists>m \<ge> n. \<not> is_packet (rs !! m))"
| "rx_quiet (Rx_Simulated q alive) \<longleftrightarrow> True"

text \<open>An end on which datagrams never stop, all of them in \<open>P\<close>.\<close>

fun rx_flooded :: "(bytes \<Rightarrow> bool) \<Rightarrow> rx_channel \<Rightarrow> bool" where
  "rx_flooded P (Rx_Udp rs) \<longleftrightarrow> (\<forall>n. \<exists>p a. rs !! n = Udp_Packet p a \<and> P p)"
| "rx_flooded P (Rx_Simulated q alive) \<longleftrightarrow> False"

lemma sset_stl: "sset rs = insert (shd rs) (sset (stl rs))"
  by (cases rs) simp

lemma rx_pending_packet:
  "is_packet (shd rs) \<Longrightarrow> rx_pending (Rx_Udp rs) = eSuc (rx_pending (Rx_Udp (stl rs)))"
proof -
  assume p: "is_packet (shd rs)"
  have ex: "(\<exists>n. \<not> is_packet (rs !! n)) \<longleftrightarrow> (\<exists>n. \<not> is_packet (stl rs !! n))"
    using p by (metis not0_implies_Suc snth.simps)
  show ?thesis
  proof (cases "\<exists>n. \<not> is_packet (rs !! n)")
    case True
    then obtain n where "\<not> is_packet (rs !! n)" by blast
    then have "(LEAST n. \<not> is_packet (rs !! n)) = Suc (LEAST n. \<not> is_packet (rs !! Suc n))"
      using p by (intro Least_Suc) auto
    with True ex show ?thesis by (simp add: eSuc_enat)
  qed (use ex in simp)
qed

lemma rx_quiet_finite: "rx_quiet rx \<Longrightarrow> rx_pending rx \<noteq> \<infinity>"
  by (cases rx) auto

lemma rx_quiet_stl: "rx_quiet (Rx_Udp rs) \<Longrightarrow> rx_quiet (Rx_Udp (stl rs))"
  by (simp, metis Suc_le_D Suc_le_mono snth.simps(2))

lemma rx_quiet_then_silent [simp]: "rx_quiet (Rx_Udp (then_silent rs))"
proof -
  have "then_silent rs !! n = Udp_Would_Block" if "length rs \<le> n" for n
    using that by (simp add: then_silent_def)
  then have "\<not> is_packet (then_silent rs !! max n (length rs))" for n by simp
  then show ?thesis by (metis max.cobounded1 rx_quiet.simps(1))
qed

lemma receive_from_None:
  "receive_from rx buf = Inr (None, rx', buf') \<Longrightarrow>
     buf' = buf \<and> rx_payloads rx' = rx_payloads rx \<and> rx_pending rx = 0"
proof (cases "(rx, buf)" rule: receive_from.cases)
  case (1 rs buf0)
  assume r: "receive_from rx buf = Inr (None, rx', buf')"
  with 1 have b: "shd rs = Udp_Would_Block" "rx' = Rx_Udp (stl rs)" "buf' = buf"
    by (auto simp: Let_def split: udp_recv.splits)
  have n: "\<not> is_packet (rs !! 0)" using b by simp
  then have "(LEAST n. \<not> is_packet (rs !! n)) = 0" by (simp add: Least_equality)
  moreover have "\<exists>n. \<not> is_packet (rs !! n)" using n by blast
  ultimately have "rx_pending (Rx_Udp rs) = 0" by (simp add: zero_enat_def)
  moreover have "rx_payloads (Rx_Udp (stl rs)) = rx_payloads (Rx_Udp rs)"
    by (simp add: sset_stl [of rs] b(1) del: stream.set)
  ultimately show ?thesis using b 1 by simp
qed (auto simp: Let_def zero_enat_def split: if_splits)

lemma receive_from_Some:
  assumes "receive_from rx buf = Inr (Some (len, a), rx', buf')"
  obtains p where "p \<in> rx_payloads rx" and "len = min (length p) (length buf)"
    and "take len buf' = take len p" and "length buf' = length buf"
    and "rx_pending rx = eSuc (rx_pending rx')" and "rx_payloads rx' \<subseteq> rx_payloads rx"
proof (cases "(rx, buf)" rule: receive_from.cases)
  case (1 rs buf0)
  with assms obtain p where p: "shd rs = Udp_Packet p a" "rx' = Rx_Udp (stl rs)"
    "len = min (length p) (length buf)" "buf' = take len p @ drop len buf"
    by (auto simp: Let_def split: udp_recv.splits)
  moreover have "p \<in> rx_payloads (Rx_Udp rs)" "rx_payloads (Rx_Udp (stl rs)) \<subseteq> rx_payloads (Rx_Udp rs)"
    using p(1) shd_sset [of rs] stl_sset [of _ rs] by auto
  ultimately show ?thesis using 1 rx_pending_packet [of rs]
    by (intro that [of p]) auto
next
  case (3 a' p q alive buf0)
  with assms show ?thesis
    by (intro that [of p]) (auto simp: eSuc_enat split: if_splits)
qed (use assms in \<open>simp_all split: if_splits\<close>)

lemma receive_from_ok:
  "rx_ok (length buf) rx \<Longrightarrow>
     \<exists>r rx' buf'. receive_from rx buf = Inr (r, rx', buf') \<and> rx_ok (length buf) rx' \<and>
       length buf' = length buf"
proof (cases "(rx, buf)" rule: receive_from.cases)
  case (1 rs buf0)
  assume "rx_ok (length buf) rx"
  with 1 have "Udp_Error \<notin> sset rs" by simp
  then have "shd rs \<noteq> Udp_Error" "rx_ok (length buf) (Rx_Udp (stl rs))"
    unfolding sset_stl [of rs] by auto
  with 1 show ?thesis by (auto simp: Let_def simp del: rx_ok.simps(1) split: udp_recv.splits)
qed (auto simp: Let_def)

lemma receive_from_quiet:
  "receive_from rx buf = Inr (r, rx', buf') \<Longrightarrow> rx_quiet rx \<Longrightarrow> rx_quiet rx'"
  using rx_quiet_stl
  by (cases "(rx, buf)" rule: receive_from.cases)
     (auto simp: Let_def simp del: rx_quiet.simps(1) split: udp_recv.splits if_splits)

lemma receive_from_flooded:
  assumes "rx_flooded P rx"
  shows "\<exists>p a rx' buf'. receive_from rx buf = Inr (Some (min (length p) (length buf), a), rx', buf') \<and>
    P p \<and> take (min (length p) (length buf)) buf' = take (length buf) p \<and> length buf' = length buf \<and>
    rx_flooded P rx'"
proof -
  from assms obtain rs where rs: "rx = Rx_Udp rs" "\<And>n. \<exists>p a. rs !! n = Udp_Packet p a \<and> P p"
    by (cases rx) auto
  from rs(2) [of 0] obtain p a where "shd rs = Udp_Packet p a" "P p" by auto
  moreover have "rx_flooded P (Rx_Udp (stl rs))" using rs(2) [of "Suc _"] by simp
  ultimately show ?thesis using rs(1)
    by (intro exI [of _ p] exI [of _ a]) (auto simp: Let_def min_def)
qed

declare rx_quiet.simps(1) [simp del]

text \<open>The datagram that the next call returns, on either kind of channel.\<close>

fun arrives_next :: "rx_channel \<Rightarrow> bytes \<Rightarrow> bool" where
  "arrives_next (Rx_Udp rs) p \<longleftrightarrow> (\<exists>a. shd rs = Udp_Packet p a)"
| "arrives_next (Rx_Simulated q alive) p \<longleftrightarrow> (\<exists>a rest. q = (a, p) # rest)"

lemma receive_arrives_next:
  "arrives_next rx p \<Longrightarrow> length p \<le> length buf \<Longrightarrow>
     \<exists>a rx' buf'. receive_from rx buf = Inr (Some (length p, a), rx', buf') \<and> take (length p) buf' = p"
  by (cases "(rx, buf)" rule: receive_from.cases) (auto simp: Let_def)

text \<open>When nothing is pending, a call returns nothing.\<close>

lemma receive_from_idle:
  assumes "receive_from rx buf = Inr (r, rx', buf')" and "rx_pending rx = 0"
  shows "r = None"
proof (rule ccontr)
  assume "r \<noteq> None"
  then obtain n a where "r = Some (n, a)" by auto
  with assms show False by (auto elim!: receive_from_Some [of rx buf n a rx' buf'])
qed

section \<open>What replicas and clients are built from\<close>

record replica_common =
  rc_common_id :: usize
  rc_config :: transport_config
  rc_app :: app
  rc_tx :: tx_channel
  rc_rx :: rx_channel
  rc_clock :: clock

record client_common =
  cc_id :: u16
  cc_config :: transport_config
  cc_tx :: tx_channel
  cc_rx :: rx_channel
  cc_rx_addr :: socket_addr
  cc_clock :: clock

end
