(* ===== verification/Client_Interface.thy ===== *)
theory Client_Interface
  imports Core
begin

text \<open>
  The trait \<open>ClientState\<close> of \<open>src/core.rs\<close> (with its supertrait \<open>State\<close>) as a locale.  The
  operations are the methods of the trait.  The laws are what the benchmark driver relies
  on and what both clients of the repository provide: a timer is armed exactly while an
  operation is in flight, a result is there only when none is, and every \<open>poll\<close> that asks to
  be called again has used up a datagram.  \<open>pending\<close> is the number of datagrams that can be read
  before there is none, which is infinite when they never stop.
\<close>

locale client_state =
  fixes invoke :: "time_env \<Rightarrow> bytes \<Rightarrow> 'c \<Rightarrow> ('c \<times> sent list) res"
    and take_result :: "'c \<Rightarrow> bytes option \<times> 'c"
    and poll_at :: "'c \<Rightarrow> option_instant"
    and poll :: "time_env \<Rightarrow> time_env \<Rightarrow> 'c \<Rightarrow> (bool \<times> 'c \<times> sent list) res"
    and inv :: "'c \<Rightarrow> bool"
    and idle :: "'c \<Rightarrow> bool"
    and pending :: "'c \<Rightarrow> enat"
  assumes invoke_busy: "\<not> idle c \<Longrightarrow> invoke t op c = Inl Assert_Failed"
    and invoke_inv: "inv c \<Longrightarrow> invoke t op c = Inr (c', out) \<Longrightarrow> inv c'"
    and invoke_not_idle: "invoke t op c = Inr (c', out) \<Longrightarrow> idle c \<and> \<not> idle c'"
    and invoke_pending: "invoke t op c = Inr (c', out) \<Longrightarrow> pending c' = pending c"
    and invoke_no_result: "invoke t op c = Inr (c', out) \<Longrightarrow> fst (take_result c') = None"
    and take_result_inv: "inv c \<Longrightarrow> inv (snd (take_result c))"
    and take_result_idle: "idle (snd (take_result c)) = idle c"
    and take_result_pending: "pending (snd (take_result c)) = pending c"
    and take_result_once: "fst (take_result (snd (take_result c))) = None"
    and result_idle: "inv c \<Longrightarrow> fst (take_result c) \<noteq> None \<Longrightarrow> idle c"
    and poll_inv: "inv c \<Longrightarrow> poll t t' c = Inr (again, c', out) \<Longrightarrow> inv c'"
    and poll_again: "poll t t' c = Inr (True, c', out) \<Longrightarrow> pending c = eSuc (pending c')"
    and poll_done: "poll t t' c = Inr (False, c', out) \<Longrightarrow> pending c = 0 \<and>
          idle c' = idle c \<and> fst (take_result c') = fst (take_result c)"
    and armed_iff: "inv c \<Longrightarrow> poll_at c < default_instant \<longleftrightarrow> \<not> idle c"
    and poll_completes: "poll t t' c = Inr (again, c', out) \<Longrightarrow> \<not> idle c \<Longrightarrow> idle c' \<Longrightarrow>
          fst (take_result c') \<noteq> None"
begin

text \<open>What the driver does with a client whose poll produced a result does not trip an assertion.\<close>

lemma reinvoke_after_result:
  assumes "inv c" and "take_result c = (Some r, c')"
  shows "inv c' \<and> idle c'"
  using assms take_result_inv [of c] take_result_idle [of c] result_idle [of c] by simp

lemma idle_never_due: "inv c \<Longrightarrow> idle c \<Longrightarrow> poll_at c = default_instant"
  using armed_iff [of c] by (cases rule: option_instant_cases [of "poll_at c"]) simp_all

lemma busy_due_at:
  assumes "inv c" and "\<not> idle c"
  obtains s where "poll_at c = at_instant s"
  using assms armed_iff [of c] less_default_instant_iff by blast

lemma poll_idle_pending: "poll t t' c = Inr (again, c', out) \<Longrightarrow> pending c = 0 \<Longrightarrow> \<not> again"
  using poll_again [of t t' c c' out] by (cases again) auto

end

end
