(* ===== verification/Service.thy ===== *)
theory Service
  imports Messages App
begin

text \<open>
  The abstract service both protocols implement: a history of executed requests with their
  results.  A request is executed when its number is above every number the same client has
  had executed, so each request number of a client is executed at most once.  The locale
  \<open>at_most_once\<close> is the contract of an implementation that keeps, instead of the history, a
  table with the last reply of each client.
\<close>

section \<open>The specification\<close>

record svc =
  svc_app :: app
  svc_done :: "(request \<times> bytes) list"

definition svc_init :: "app \<Rightarrow> svc" where
  "svc_init a = \<lparr>svc_app = a, svc_done = []\<rparr>"

text \<open>The last executed request of a client, with its result.\<close>

definition svc_last :: "svc \<Rightarrow> u16 \<Rightarrow> (request \<times> bytes) option" where
  "svc_last v c = find (\<lambda>(r, _). rq_client_id r = c) (rev (svc_done v))"

definition svc_fresh :: "request \<Rightarrow> svc \<Rightarrow> bool" where
  "svc_fresh m v = (case svc_last v (rq_client_id m) of
     None \<Rightarrow> True | Some (r, _) \<Rightarrow> rq_request_number r < rq_request_number m)"

definition svc_execute :: "u32 \<Rightarrow> request \<Rightarrow> svc \<Rightarrow> svc" where
  "svc_execute n m v =
     (let (a, result) = app_execute (svc_app v) n (rq_op m)
      in \<lparr>svc_app = a, svc_done = svc_done v @ [(m, result)]\<rparr>)"

definition svc_submit :: "u32 \<Rightarrow> request \<Rightarrow> svc \<Rightarrow> svc" where
  "svc_submit n m v = (if svc_fresh m v then svc_execute n m v else v)"

text \<open>The request numbers of each client increase along the history.\<close>

definition svc_ok :: "svc \<Rightarrow> bool" where
  "svc_ok v \<longleftrightarrow> sorted_wrt (\<lambda>(r, _) (r', _). rq_client_id r = rq_client_id r' \<longrightarrow>
       rq_request_number r < rq_request_number r') (svc_done v)"

lemma svc_ok_init [simp]: "svc_ok (svc_init a)"
  by (simp add: svc_ok_def svc_init_def)

lemma svc_last_execute [simp]:
  "svc_last (svc_execute n m v) c =
     (if rq_client_id m = c then Some (m, snd (app_execute (svc_app v) n (rq_op m)))
      else svc_last v c)"
  by (auto simp: svc_last_def svc_execute_def split: prod.split)

lemma svc_last_init [simp]: "svc_last (svc_init a) c = None"
  by (simp add: svc_last_def svc_init_def)

lemma svc_last_NoneD:
  "svc_last v c = None \<Longrightarrow> (r, res) \<in> set (svc_done v) \<Longrightarrow> rq_client_id r \<noteq> c"
  by (auto simp: svc_last_def find_None_iff)

lemma svc_last_max:
  assumes "svc_ok v" and "(r, res) \<in> set (svc_done v)"
  shows "\<exists>r' res'. svc_last v (rq_client_id r) = Some (r', res') \<and>
    rq_client_id r' = rq_client_id r \<and> rq_request_number r \<le> rq_request_number r'"
proof -
  from assms(2) obtain r' res' where l: "svc_last v (rq_client_id r) = Some (r', res')"
    by (cases "svc_last v (rq_client_id r)") (auto dest: svc_last_NoneD)
  then have c: "rq_client_id r' = rq_client_id r"
    using find_SomeD [OF l [unfolded svc_last_def]] by simp
  with find_rev_sorted [OF assms(1) [unfolded svc_ok_def] l [unfolded svc_last_def] assms(2)]
  have "rq_request_number r \<le> rq_request_number r'" by auto
  with l c show ?thesis by blast
qed

lemma svc_submit_ok [simp]:
  assumes "svc_ok v"
  shows "svc_ok (svc_submit n m v)"
proof (cases "svc_fresh m v")
  case True
  have "rq_request_number r < rq_request_number m"
    if "(r, res) \<in> set (svc_done v)" "rq_client_id r = rq_client_id m" for r res
    using svc_last_max [OF assms that(1)] that(2) True
    by (auto simp: svc_fresh_def intro: order.strict_trans1)
  with assms True show ?thesis
    by (auto simp: svc_submit_def svc_execute_def svc_ok_def sorted_wrt_append split: prod.split)
qed (simp add: svc_submit_def assms)

text \<open>A list of submissions, each with the operation number the application sees.\<close>

definition svc_run :: "(u32 \<times> request) list \<Rightarrow> svc \<Rightarrow> svc" where
  "svc_run nms v = fold (\<lambda>(n, m). svc_submit n m) nms v"

lemma svc_run_ok: "svc_ok v \<Longrightarrow> svc_ok (svc_run nms v)"
  by (induction nms arbitrary: v) (auto simp: svc_run_def)

lemma svc_run_append: "svc_run (xs @ ys) v = svc_run ys (svc_run xs v)"
  by (simp add: svc_run_def)

text \<open>No request number of a client is executed twice.\<close>

lemma svc_ok_distinct:
  "svc_ok v \<Longrightarrow> distinct (map (\<lambda>(r, _). (rq_client_id r, rq_request_number r)) (svc_done v))"
proof -
  have "distinct (map (\<lambda>(r, _). (rq_client_id r, rq_request_number r)) d)"
    if "sorted_wrt (\<lambda>(r, _) (r', _). rq_client_id r = rq_client_id r' \<longrightarrow>
          rq_request_number r < rq_request_number r') d" for d :: "(request \<times> bytes) list"
    using that by (induction d) force+
  then show "svc_ok v \<Longrightarrow> ?thesis" by (simp add: svc_ok_def)
qed

text \<open>After a submission the client has a request executed with a number at least as high.\<close>

lemma svc_submit_served:
  "\<exists>r res. svc_last (svc_submit n m v) (rq_client_id m) = Some (r, res) \<and>
     rq_request_number m \<le> rq_request_number r"
  by (auto simp: svc_submit_def svc_fresh_def split: option.splits)

lemma svc_submit_stale: "\<not> svc_fresh m v \<Longrightarrow> svc_submit n m v = v"
  by (simp add: svc_submit_def)

section \<open>The contract of an implementation\<close>

text \<open>
  \<open>handle m s\<close> processes one request; \<open>table\<close> is the reply table, \<open>state\<close> the application and
  \<open>op_no\<close> the operation number it passes to the application.
\<close>

definition table_sim :: "app \<Rightarrow> (u16 \<rightharpoonup> reply) \<Rightarrow> svc \<Rightarrow> bool" where
  "table_sim a tbl v \<longleftrightarrow> svc_app v = a \<and>
     (\<forall>c. map_option (\<lambda>rep. (rp_request_number rep, rp_result rep)) (tbl c) =
          map_option (\<lambda>(r, res). (rq_request_number r, res)) (svc_last v c))"

lemma table_sim_init [simp]: "table_sim a Map.empty (svc_init a)"
  by (simp add: table_sim_def svc_init_def svc_last_def)

lemma table_sim_fresh:
  assumes "table_sim a tbl v"
  shows "svc_fresh m v \<longleftrightarrow>
    (\<forall>rep. tbl (rq_client_id m) = Some rep \<longrightarrow> rp_request_number rep < rq_request_number m)"
  using assms unfolding table_sim_def svc_fresh_def
  by (auto split: option.splits dest!: spec [of _ "rq_client_id m"])

text \<open>The operation numbers an implementation uses while it handles a list of requests.\<close>

fun op_trace :: "(request \<Rightarrow> 's \<Rightarrow> 's) \<Rightarrow> ('s \<Rightarrow> u32) \<Rightarrow> request list \<Rightarrow> 's \<Rightarrow> u32 list" where
  "op_trace handle op_no [] s = []"
| "op_trace handle op_no (m # ms) s = op_no s # op_trace handle op_no ms (handle m s)"

lemma length_op_trace [simp]: "length (op_trace handle op_no ms s) = length ms"
  by (induction ms arbitrary: s) simp_all

locale at_most_once =
  fixes handle :: "request \<Rightarrow> 's \<Rightarrow> 's"
    and table :: "'s \<Rightarrow> u16 \<rightharpoonup> reply"
    and state :: "'s \<Rightarrow> app"
    and op_no :: "'s \<Rightarrow> u32"
  assumes handle_new: "\<forall>rep. table s (rq_client_id m) = Some rep \<longrightarrow>
        rp_request_number rep < rq_request_number m \<Longrightarrow>
      state (handle m s) = fst (app_execute (state s) (op_no s) (rq_op m)) \<and>
      (\<exists>rep. table (handle m s) = (table s)(rq_client_id m \<mapsto> rep) \<and>
         rp_request_number rep = rq_request_number m \<and>
         rp_result rep = snd (app_execute (state s) (op_no s) (rq_op m)))"
    and handle_old: "table s (rq_client_id m) = Some rep \<Longrightarrow>
      rq_request_number m \<le> rp_request_number rep \<Longrightarrow>
      table (handle m s) = table s \<and> state (handle m s) = state s"
begin

text \<open>One request: the table after it is the table of the history after it.\<close>

lemma handle_sim:
  assumes "table_sim (state s) (table s) v"
  shows "table_sim (state (handle m s)) (table (handle m s)) (svc_submit (op_no s) m v)"
proof (cases "svc_fresh m v")
  case True
  with assms have "\<forall>rep. table s (rq_client_id m) = Some rep \<longrightarrow>
      rp_request_number rep < rq_request_number m"
    by (simp add: table_sim_fresh)
  from handle_new [OF this] assms True show ?thesis
    by (auto simp: table_sim_def svc_submit_def) (simp add: svc_execute_def split: prod.split)
next
  case False
  with assms obtain rep where "table s (rq_client_id m) = Some rep"
      "rq_request_number m \<le> rp_request_number rep"
    by (auto simp: table_sim_fresh not_less)
  from handle_old [OF this] assms False show ?thesis
    by (simp add: svc_submit_stale)
qed

text \<open>A list of requests: the table is the table of the history of the submissions.\<close>

lemma handles_sim:
  "table_sim (state s) (table s) v \<Longrightarrow>
     table_sim (state (fold handle ms s)) (table (fold handle ms s))
       (svc_run (zip (op_trace handle op_no ms s) ms) v)"
  by (induction ms arbitrary: s v) (auto simp: svc_run_def intro: handle_sim)

end

end
