(* ===== verification/Unreplicated.thy ===== *)
theory Unreplicated
  imports Client_Interface Service
begin

text \<open>
  The unreplicated service of \<open>src/unreplicated.rs\<close>: the client, the three threads of the
  replica and the replica polled as one actor.
\<close>

section \<open>The client\<close>

record uclient =
  uc_common :: client_common
  uc_request_number :: u32
  uc_op :: "bytes option"
  uc_result :: "bytes option"
  uc_resend_instant :: option_instant
  uc_buffer :: bytes

definition uclient_new :: "client_common \<Rightarrow> uclient" where
  "uclient_new common =
     \<lparr>uc_common = common, uc_request_number = 0, uc_op = None, uc_result = None,
      uc_resend_instant = default_instant, uc_buffer = replicate 1500 0\<rparr>"

definition uclient_do_send ::
  "externals \<Rightarrow> time_env \<Rightarrow> uclient \<Rightarrow> (uclient \<times> sent list) res" where
  "uclient_do_send X t c =
     bind_res (unwrap (uc_op c)) (\<lambda>op.
     let request = \<lparr>rq_client_id = cc_id (uc_common c),
                    rq_request_number = uc_request_number c,
                    rq_op = op,
                    rq_addr = cc_rx_addr (uc_common c)\<rparr> in
     bind_res (unwrap_ok (bc_ser_request X request)) (\<lambda>payload.
     bind_res (index (tc_replica (cc_config (uc_common c))) 0) (\<lambda>dest.
     bind_res (send_to X (cc_tx (uc_common c)) payload dest) (\<lambda>(_, s).
     bind_res (clock_after t (cc_clock (uc_common c)) (from_millis 10)) (\<lambda>due.
     Inr (c\<lparr>uc_resend_instant := due\<rparr>, [s]))))))"

definition uclient_invoke ::
  "externals \<Rightarrow> time_env \<Rightarrow> bytes \<Rightarrow> uclient \<Rightarrow> (uclient \<times> sent list) res" where
  "uclient_invoke X t op c =
     (if uc_op c \<noteq> None then Inl Assert_Failed
      else uclient_do_send X t
             (c\<lparr>uc_request_number := uc_request_number c + 1, uc_op := Some op,
                uc_result := None\<rparr>))"

definition uclient_take_result :: "uclient \<Rightarrow> bytes option \<times> uclient" where
  "uclient_take_result c = (uc_result c, c\<lparr>uc_result := None\<rparr>)"

definition uclient_poll_at :: "uclient \<Rightarrow> option_instant" where
  "uclient_poll_at c = uc_resend_instant c"

text \<open>The body of the block \<open>'rx\<close>: a datagram of \<open>len\<close> bytes is in the buffer.\<close>

definition uclient_on_packet :: "externals \<Rightarrow> usize \<Rightarrow> uclient \<Rightarrow> uclient res" where
  "uclient_on_packet X len c =
     (if uc_op c = None then Inr c
      else bind_res (unwrap_ok (bc_de_reply X (take len (uc_buffer c)))) (\<lambda>message.
        if rp_request_number message \<noteq> uc_request_number c then Inr c
        else Inr (c\<lparr>uc_op := None, uc_result := Some (rp_result message),
                    uc_resend_instant := default_instant\<rparr>)))"

text \<open>The clock is read at \<open>t\<close> for the comparison and at \<open>t'\<close> in \<open>do_send\<close>.\<close>

definition uclient_poll ::
  "externals \<Rightarrow> time_env \<Rightarrow> time_env \<Rightarrow> uclient \<Rightarrow> (bool \<times> uclient \<times> sent list) res" where
  "uclient_poll X t t' c =
     bind_res (if uc_resend_instant c \<le> clock_now t (cc_clock (uc_common c))
               then uclient_do_send X t' c else Inr (c, [])) (\<lambda>(c, out).
     bind_res (receive_from (cc_rx (uc_common c)) (uc_buffer c)) (\<lambda>(r, rx, buffer).
     let c = c\<lparr>uc_common := (uc_common c)\<lparr>cc_rx := rx\<rparr>, uc_buffer := buffer\<rparr> in
     case r of
       None \<Rightarrow> Inr (False, c, out)
     | Some (len, _) \<Rightarrow> bind_res (uclient_on_packet X len c) (\<lambda>c. Inr (True, c, out))))"

section \<open>The threads of the replica\<close>

record umain =
  um_app :: app
  um_client_table :: "u16 \<rightharpoonup> reply"
  um_op_number :: u32
  um_log :: "request list"

text \<open>\<open>ul_to_main\<close> tells whether the receiver of the main thread is still there.\<close>

record ulisten =
  ul_rx :: rx_channel
  ul_buffer :: bytes
  ul_to_main :: bool

record ueffect =
  ue_tx :: tx_channel

type_synonym to_effect = "socket_addr \<times> reply"

definition umain_handle_request :: "request \<Rightarrow> umain \<Rightarrow> umain \<times> to_effect list" where
  "umain_handle_request message s =
     (let fresh =
        (let s = s\<lparr>um_log := um_log s @ [message], um_op_number := um_op_number s + 1\<rparr>;
             (app, result) = app_execute (um_app s) (um_op_number s) (rq_op message);
             reply = reply_default\<lparr>rp_request_number := rq_request_number message,
                                   rp_result := result\<rparr>
         in (s\<lparr>um_app := app,
               um_client_table := (um_client_table s)(rq_client_id message \<mapsto> reply)\<rparr>,
             [(rq_addr message, reply)]))
      in case um_client_table s (rq_client_id message) of
           Some reply \<Rightarrow>
             if rp_request_number reply > rq_request_number message then (s, [])
             else if rp_request_number reply = rq_request_number message
                  then (s, [(rq_addr message, reply)])
             else fresh
         | None \<Rightarrow> fresh)"

fun umain_poll :: "request try_recv \<Rightarrow> umain \<Rightarrow> bool \<times> umain \<times> to_effect list" where
  "umain_poll (Msg message) s = (True, umain_handle_request message s)"
| "umain_poll _ s = (False, s, [])"

definition ulisten_poll ::
  "externals \<Rightarrow> ulisten \<Rightarrow> (bool \<times> ulisten \<times> request list) res" where
  "ulisten_poll X l =
     bind_res (receive_from (ul_rx l) (ul_buffer l)) (\<lambda>(r, rx, buffer).
     let l = l\<lparr>ul_rx := rx, ul_buffer := buffer\<rparr> in
     case r of
       None \<Rightarrow> Inr (False, l, [])
     | Some (len, _) \<Rightarrow>
         bind_res (unwrap_ok (bc_de_request X (take len (ul_buffer l)))) (\<lambda>request.
         bind_res (chan_send (ul_to_main l) [request]) (\<lambda>requests. Inr (True, l, requests))))"

fun ueffect_shared_poll ::
  "externals \<Rightarrow> to_effect try_recv \<Rightarrow> ueffect \<Rightarrow> (bool \<times> sent list) res" where
  "ueffect_shared_poll X (Msg (dest, message)) e =
     bind_res (unwrap_ok (bc_ser_reply X message)) (\<lambda>payload.
     bind_res (send_to X (ue_tx e) payload dest) (\<lambda>(_, s). Inr (True, [s])))"
| "ueffect_shared_poll X _ e = Inr (False, [])"

section \<open>The replica as one actor\<close>

text \<open>
  The two channels between the threads are fields: the requests on the way to the main
  thread and the replies on the way to the effect thread.
\<close>

record ureplica =
  ur_main :: umain
  ur_listen :: ulisten
  ur_effect :: ueffect
  ur_message_channel :: "request list"
  ur_effect_channel :: "to_effect list"

definition ureplica_new :: "replica_common \<Rightarrow> ureplica" where
  "ureplica_new common =
     \<lparr>ur_main = \<lparr>um_app = rc_app common, um_client_table = Map.empty, um_op_number = 0,
                um_log = []\<rparr>,
      ur_listen = \<lparr>ul_rx = rc_rx common, ul_buffer = replicate 1500 0, ul_to_main = True\<rparr>,
      ur_effect = \<lparr>ue_tx = rc_tx common\<rparr>,
      ur_message_channel = [], ur_effect_channel = []\<rparr>"

definition ureplica_poll ::
  "externals \<Rightarrow> ureplica \<Rightarrow> (bool \<times> ureplica \<times> sent list) res" where
  "ureplica_poll X r =
     bind_res (ulisten_poll X (ur_listen r)) (\<lambda>(b1, listen, requests).
     let (message, message_channel) = chan_recv (ur_message_channel r @ requests);
         (b2, main, replies) = umain_poll message (ur_main r);
         (effect, effect_channel) = chan_recv (ur_effect_channel r @ replies) in
     bind_res (ueffect_shared_poll X effect (ur_effect r)) (\<lambda>(b3, out).
     Inr (b1 \<or> b2 \<or> b3,
          r\<lparr>ur_main := main, ur_listen := listen, ur_message_channel := message_channel,
            ur_effect_channel := effect_channel\<rparr>, out)))"

end
