(* ===== verification/Unreplicated_Correct.thy ===== *)
theory Unreplicated_Correct
  imports Unreplicated
begin

text \<open>
  Correctness of the unreplicated service: the client keeps its timer, its operation in
  flight and its result in step and so provides the contract of \<open>ClientState\<close>; the main
  thread refines the at-most-once service; the replica turns a request datagram into the
  right reply datagram.
\<close>

section \<open>The client\<close>

definition uclient_inv :: "uclient \<Rightarrow> bool" where
  "uclient_inv c \<longleftrightarrow>
     (uc_resend_instant c < default_instant \<longleftrightarrow> uc_op c \<noteq> None) \<and>
     (uc_result c \<noteq> None \<longrightarrow> uc_op c = None) \<and>
     length (uc_buffer c) = 1500"

definition uclient_idle :: "uclient \<Rightarrow> bool" where
  "uclient_idle c \<longleftrightarrow> uc_op c = None"

definition uclient_pending :: "uclient \<Rightarrow> enat" where
  "uclient_pending c = rx_pending (cc_rx (uc_common c))"

text \<open>The request a client sends for its operation in flight.\<close>

definition uclient_request :: "uclient \<Rightarrow> bytes \<Rightarrow> request" where
  "uclient_request c op =
     \<lparr>rq_client_id = cc_id (uc_common c), rq_request_number = uc_request_number c, rq_op = op,
      rq_addr = cc_rx_addr (uc_common c)\<rparr>"

lemma uclient_inv_new: "uclient_inv (uclient_new common)"
  by (simp add: uclient_inv_def uclient_new_def)

lemma uclient_do_send_Inr:
  assumes "uclient_do_send X t c = Inr (c', out)"
  shows "\<exists>op payload. uc_op c = Some op \<and>
    bc_ser_request X (uclient_request c op) = Some payload \<and>
    tc_replica (cc_config (uc_common c)) \<noteq> [] \<and>
    out = [sent_by (cc_tx (uc_common c)) payload (tc_replica (cc_config (uc_common c)) ! 0)] \<and>
    c' = c\<lparr>uc_resend_instant :=
           at_instant (clock_time t (cc_clock (uc_common c)) + from_millis 10)\<rparr>"
  using assms by (auto simp: uclient_do_send_def uclient_request_def Let_def)

lemma uclient_do_send_ok:
  assumes "uc_op c = Some op" and "bc_ser_request X (uclient_request c op) = Some payload"
    and "tc_replica (cc_config (uc_common c)) \<noteq> []" and "tx_ok X (cc_tx (uc_common c))"
  shows "uclient_do_send X t c =
    Inr (c\<lparr>uc_resend_instant :=
             at_instant (clock_time t (cc_clock (uc_common c)) + from_millis 10)\<rparr>,
         [sent_by (cc_tx (uc_common c)) payload (tc_replica (cc_config (uc_common c)) ! 0)])"
  using assms by (simp add: uclient_do_send_def uclient_request_def Let_def index_ok send_to_ok)

lemma uclient_on_packet_Inr:
  "uclient_on_packet X len c = Inr c' \<Longrightarrow>
     c' = c \<or>
     (\<exists>message. bc_de_reply X (take len (uc_buffer c)) = Some message \<and>
        rp_request_number message = uc_request_number c \<and> uc_op c \<noteq> None \<and>
        c' = c\<lparr>uc_op := None, uc_result := Some (rp_result message),
               uc_resend_instant := default_instant\<rparr>)"
  by (auto simp: uclient_on_packet_def split: if_splits)

text \<open>
  The two halves of a poll: the resend that may come first, and the datagram that may
  follow.  \<open>uclient_resend\<close> and \<open>uclient_receive\<close> name them.
\<close>

definition uclient_resend ::
  "externals \<Rightarrow> time_env \<Rightarrow> time_env \<Rightarrow> uclient \<Rightarrow> (uclient \<times> sent list) res" where
  "uclient_resend X t t' c =
     (if uc_resend_instant c \<le> clock_now t (cc_clock (uc_common c))
      then uclient_do_send X t' c else Inr (c, []))"

definition uclient_receive :: "externals \<Rightarrow> uclient \<Rightarrow> (bool \<times> uclient) res" where
  "uclient_receive X c =
     bind_res (receive_from (cc_rx (uc_common c)) (uc_buffer c)) (\<lambda>(r, rx, buffer).
     let c = c\<lparr>uc_common := (uc_common c)\<lparr>cc_rx := rx\<rparr>, uc_buffer := buffer\<rparr> in
     case r of
       None \<Rightarrow> Inr (False, c)
     | Some (len, _) \<Rightarrow> bind_res (uclient_on_packet X len c) (\<lambda>c. Inr (True, c)))"

lemma uclient_poll_split:
  "uclient_poll X t t' c =
     bind_res (uclient_resend X t t' c) (\<lambda>(c, out).
     bind_res (uclient_receive X c) (\<lambda>(again, c). Inr (again, c, out)))"
  by (auto simp: uclient_poll_def uclient_resend_def uclient_receive_def bind_res_def Let_def
      split: sum.splits option.splits prod.splits if_splits)

lemma uclient_resend_Inr:
  assumes "uclient_resend X t t' c = Inr (c', out)"
  shows "uc_op c' = uc_op c" "uc_result c' = uc_result c" "uc_common c' = uc_common c"
    "uc_buffer c' = uc_buffer c" "uc_request_number c' = uc_request_number c"
    "uclient_inv c \<Longrightarrow> uclient_inv c'"
  using assms
  by (auto simp: uclient_resend_def uclient_inv_def split: if_splits dest!: uclient_do_send_Inr)

lemma uclient_receive_Inr:
  assumes "uclient_receive X c = Inr (again, c')"
  shows "uclient_inv c \<Longrightarrow> uclient_inv c'"
    and "again \<Longrightarrow> uclient_pending c = eSuc (uclient_pending c')"
    and "\<not> again \<Longrightarrow> uclient_pending c = 0 \<and> uc_op c' = uc_op c \<and>
           uc_result c' = uc_result c \<and> uc_resend_instant c' = uc_resend_instant c"
proof -
  let ?upd = "\<lambda>rx buf. c\<lparr>uc_common := (uc_common c)\<lparr>cc_rx := rx\<rparr>, uc_buffer := buf\<rparr>"
  from assms obtain r rx buf where
    r: "receive_from (cc_rx (uc_common c)) (uc_buffer c) = Inr (r, rx, buf)"
    and rest: "(case r of None \<Rightarrow> Inr (False, ?upd rx buf)
      | Some (len, _) \<Rightarrow> bind_res (uclient_on_packet X len (?upd rx buf)) (\<lambda>c. Inr (True, c)))
      = Inr (again, c')"
    by (auto simp: uclient_receive_def Let_def)
  show "uclient_inv c \<Longrightarrow> uclient_inv c'"
    and "again \<Longrightarrow> uclient_pending c = eSuc (uclient_pending c')"
    and "\<not> again \<Longrightarrow> uclient_pending c = 0 \<and> uc_op c' = uc_op c \<and>
           uc_result c' = uc_result c \<and> uc_resend_instant c' = uc_resend_instant c"
  proof (atomize (full), cases r)
    case None
    with rest receive_from_None [OF r [unfolded None]]
    show "(uclient_inv c \<longrightarrow> uclient_inv c') \<and>
      (again \<longrightarrow> uclient_pending c = eSuc (uclient_pending c')) \<and>
      (\<not> again \<longrightarrow> uclient_pending c = 0 \<and> uc_op c' = uc_op c \<and>
         uc_result c' = uc_result c \<and> uc_resend_instant c' = uc_resend_instant c)"
      by (auto simp: uclient_inv_def uclient_pending_def)
  next
    case (Some la)
    obtain len a where la: "la = (len, a)" by (cases la)
    from receive_from_Some [OF r [unfolded Some la]]
    have len: "length buf = length (uc_buffer c)"
      and pend: "rx_pending (cc_rx (uc_common c)) = eSuc (rx_pending rx)" by blast+
    from rest Some la have "again" and "uclient_on_packet X len (?upd rx buf) = Inr c'"
      by auto
    with uclient_on_packet_Inr [OF this(2)] len pend
    show "(uclient_inv c \<longrightarrow> uclient_inv c') \<and>
      (again \<longrightarrow> uclient_pending c = eSuc (uclient_pending c')) \<and>
      (\<not> again \<longrightarrow> uclient_pending c = 0 \<and> uc_op c' = uc_op c \<and>
         uc_result c' = uc_result c \<and> uc_resend_instant c' = uc_resend_instant c)"
      by (auto simp: uclient_inv_def uclient_pending_def)
  qed
qed

lemma uclient_receive_completes:
  "uclient_receive X c = Inr (again, c') \<Longrightarrow> uc_op c \<noteq> None \<Longrightarrow> uc_op c' = None \<Longrightarrow> uc_result c' \<noteq> None"
  by (auto simp: uclient_receive_def Let_def split: option.splits dest!: uclient_on_packet_Inr)

lemma uclient_poll_Inr:
  assumes "uclient_poll X t t' c = Inr (again, c', out)"
  obtains c1 where "uclient_resend X t t' c = Inr (c1, out)"
    and "uclient_receive X c1 = Inr (again, c')"
  using assms by (auto simp: uclient_poll_split)

interpretation uc: client_state "uclient_invoke X" uclient_take_result uclient_poll_at
  "uclient_poll X" uclient_inv uclient_idle uclient_pending for X
proof (unfold_locales, goal_cases)
  case (2 c t op c' out)
  then show ?case
    by (auto simp: uclient_invoke_def uclient_inv_def split: if_splits dest!: uclient_do_send_Inr)
next
  case (11 c t t' again c' out)
  then show ?case
    by (auto elim!: uclient_poll_Inr dest!: uclient_resend_Inr(6) uclient_receive_Inr(1))
next
  case (12 t t' c c' out)
  then obtain c1 where "uclient_resend X t t' c = Inr (c1, out)"
    "uclient_receive X c1 = Inr (True, c')" by (rule uclient_poll_Inr)
  with uclient_resend_Inr(3) [OF this(1)] uclient_receive_Inr(2) [OF this(2)]
  show ?case by (simp add: uclient_pending_def)
next
  case (13 t t' c c' out)
  then obtain c1 where "uclient_resend X t t' c = Inr (c1, out)"
    "uclient_receive X c1 = Inr (False, c')" by (rule uclient_poll_Inr)
  with uclient_resend_Inr(1,2,3) [OF this(1)] uclient_receive_Inr(3) [OF this(2)]
  show ?case by (simp add: uclient_pending_def uclient_idle_def uclient_take_result_def)
next
  case (15 t t' c again c' out)
  then obtain c1 where "uclient_resend X t t' c = Inr (c1, out)"
    "uclient_receive X c1 = Inr (again, c')" by - (rule uclient_poll_Inr)
  with 15(2,3) uclient_resend_Inr(1) [OF this(1)] uclient_receive_completes [OF this(2)]
  show ?case by (simp add: uclient_idle_def uclient_take_result_def)
qed (auto simp: uclient_invoke_def uclient_idle_def uclient_take_result_def uclient_inv_def
    uclient_poll_at_def uclient_pending_def split: if_splits dest!: uclient_do_send_Inr)

section \<open>The main thread\<close>

lemma umain_handle_request_simps:
  "um_client_table s (rq_client_id m) = Some rep \<Longrightarrow>
     rp_request_number rep > rq_request_number m \<Longrightarrow> umain_handle_request m s = (s, [])"
  "um_client_table s (rq_client_id m) = Some rep \<Longrightarrow>
     rp_request_number rep = rq_request_number m \<Longrightarrow>
     umain_handle_request m s = (s, [(rq_addr m, rep)])"
  "\<forall>rep. um_client_table s (rq_client_id m) = Some rep \<longrightarrow>
       rp_request_number rep < rq_request_number m \<Longrightarrow>
     umain_handle_request m s =
       (let (app, result) = app_execute (um_app s) (um_op_number s + 1) (rq_op m);
            reply = reply_default\<lparr>rp_request_number := rq_request_number m, rp_result := result\<rparr>
        in (s\<lparr>um_app := app, um_client_table := (um_client_table s)(rq_client_id m \<mapsto> reply),
              um_op_number := um_op_number s + 1, um_log := um_log s @ [m]\<rparr>,
            [(rq_addr m, reply)]))"
  by (auto simp: umain_handle_request_def Let_def split: option.split prod.split)

interpretation um: at_most_once "\<lambda>m s. fst (umain_handle_request m s)" um_client_table um_app
  "\<lambda>s. um_op_number s + 1"
proof (unfold_locales, goal_cases)
  case (1 s m)
  then show ?case
    by (auto simp: umain_handle_request_simps(3) Let_def split: prod.split)
next
  case (2 s m rep)
  then show ?case
    by (cases "rp_request_number rep = rq_request_number m")
       (auto simp: umain_handle_request_simps(1,2) order.order_iff_strict)
qed

text \<open>The state of the main thread against the history of the service.\<close>

definition umain_rel :: "umain \<Rightarrow> svc \<Rightarrow> bool" where
  "umain_rel s v \<longleftrightarrow>
     table_sim (um_app s) (um_client_table s) v \<and>
     um_log s = map fst (svc_done v) \<and>
     um_op_number s = of_nat (length (um_log s)) \<and>
     (\<forall>c rep. um_client_table s c = Some rep \<longrightarrow> rp_replica_id rep = 0 \<and> rp_view_number rep = 0)"

definition umain_run :: "request list \<Rightarrow> umain \<Rightarrow> umain" where
  "umain_run ms s = fold (\<lambda>m s. fst (umain_handle_request m s)) ms s"

lemma umain_rel_new: "umain_rel (ur_main (ureplica_new common)) (svc_init (rc_app common))"
  by (simp add: umain_rel_def ureplica_new_def svc_init_def table_sim_def svc_last_def)

lemma umain_rel_step:
  assumes "umain_rel s v"
  shows "umain_rel (fst (umain_handle_request m s)) (svc_submit (um_op_number s + 1) m v)"
proof -
  have sim: "table_sim (um_app s) (um_client_table s) v"
    using assms by (simp add: umain_rel_def)
  note sim' = um.handle_sim [OF sim, of m]
  show ?thesis
  proof (cases "svc_fresh m v")
    case True
    with sim have "\<forall>rep. um_client_table s (rq_client_id m) = Some rep \<longrightarrow>
        rp_request_number rep < rq_request_number m"
      by (simp add: table_sim_fresh)
    with sim' assms True show ?thesis
      by (auto simp: umain_rel_def umain_handle_request_simps(3) Let_def svc_submit_def
          svc_execute_def reply_default_def split: prod.splits)
  next
    case False
    with sim obtain rep where "um_client_table s (rq_client_id m) = Some rep"
        "rq_request_number m \<le> rp_request_number rep"
      by (auto simp: table_sim_fresh not_less)
    then have "fst (umain_handle_request m s) = s"
      by (cases "rp_request_number rep = rq_request_number m")
         (auto simp: umain_handle_request_simps(1,2) order.order_iff_strict)
    with assms False show ?thesis by (simp add: svc_submit_stale)
  qed
qed

lemma umain_rel_run:
  "umain_rel s v \<Longrightarrow>
     umain_rel (umain_run ms s)
       (svc_run (zip (op_trace (\<lambda>m s. fst (umain_handle_request m s))
                               (\<lambda>s. um_op_number s + 1) ms s) ms) v)"
  by (induction ms arbitrary: s v) (auto simp: umain_run_def svc_run_def intro: umain_rel_step)

lemma umain_replies:
  assumes "umain_rel s v"
  shows "snd (umain_handle_request m s) =
    (case svc_last (svc_submit (um_op_number s + 1) m v) (rq_client_id m) of
       None \<Rightarrow> []
     | Some (r, res) \<Rightarrow>
         if rq_request_number r = rq_request_number m
         then [(rq_addr m, reply_default\<lparr>rp_request_number := rq_request_number m,
                                         rp_result := res\<rparr>)]
         else [])"
proof -
  have sim: "table_sim (um_app s) (um_client_table s) v"
    using assms by (simp add: umain_rel_def)
  show ?thesis
  proof (cases "svc_fresh m v")
    case True
    with sim have "\<forall>rep. um_client_table s (rq_client_id m) = Some rep \<longrightarrow>
        rp_request_number rep < rq_request_number m"
      by (simp add: table_sim_fresh)
    with sim True show ?thesis
      by (auto simp: umain_handle_request_simps(3) svc_submit_def table_sim_def Let_def
          split: prod.split)
  next
    case False
    then obtain r res where l: "svc_last v (rq_client_id m) = Some (r, res)"
        "rq_request_number m \<le> rq_request_number r"
      by (auto simp: svc_fresh_def not_less split: option.splits)
    from sim l(1) obtain rep where rep: "um_client_table s (rq_client_id m) = Some rep"
        "rp_request_number rep = rq_request_number r" "rp_result rep = res"
      unfolding table_sim_def by (auto dest!: spec [of _ "rq_client_id m"])
    with assms have "rep = reply_default\<lparr>rp_request_number := rq_request_number r, rp_result := res\<rparr>"
      by (auto simp: umain_rel_def reply_default_def intro!: reply.equality)
    with l rep False show ?thesis
      by (cases "rq_request_number r = rq_request_number m")
         (auto simp: umain_handle_request_simps(1,2) svc_submit_stale order.order_iff_strict)
  qed
qed

end
