(* ===== verification/Pbft_Main.thy ===== *)
theory Pbft_Main
  imports Core
begin

text \<open>
  The main thread of a replica of \<open>src/pbft.rs\<close>: its state, its handlers and its poll.  A
  handler returns the new state and the messages it sent to the crypto thread, in order.
\<close>

section \<open>Channel messages\<close>

datatype to_crypto =
    Verify to_replica
  | SendReply socket_addr reply
  | SendPrePrepare pre_prepare "request list"
  | SendPrepare prepare
  | SendCommit commit

datatype to_main = Verified to_replica | Signed to_replica

section \<open>State\<close>

record log_entry =
  le_pre_prepare :: "pre_prepare signed"
  le_requests :: "request list"

type_synonym quorums = "u32 \<times> digest \<rightharpoonup> u8 \<rightharpoonup> signature"

record pmain =
  pm_id :: u8
  pm_config :: transport_config
  pm_app :: app
  pm_client_table :: "u16 \<rightharpoonup> reply"
  pm_view_number :: u8
  pm_op_number :: u32
  pm_execute_number :: u32
  pm_log :: "log_entry list"
  pm_prepare_quorums :: quorums
  pm_commit_quorums :: quorums
  pm_requests :: "request list"
  pm_reorder_pre_prepare :: "u32 \<rightharpoonup> pre_prepare signed \<times> request list"

type_synonym main_io = "pmain \<times> to_crypto list"

section \<open>Queries\<close>

definition next_entry_number :: "pmain \<Rightarrow> u32" where
  "next_entry_number s = of_nat (length (pm_log s) + 1)"

text \<open>\<open>log.get((op_number - 1) as usize)\<close>, where the subtraction wraps at zero.\<close>

definition log_entry_at :: "log_entry list \<Rightarrow> u32 \<Rightarrow> log_entry option" where
  "log_entry_at entries op_number =
     (let i = unat (op_number - 1)
      in if i < length entries then Some (entries ! i) else None)"

text \<open>\<open>quorums.get(&key).map(HashMap::len).unwrap_or_default()\<close>.\<close>

definition quorum_len :: "quorums \<Rightarrow> u32 \<times> digest \<Rightarrow> usize" where
  "quorum_len quorums key = (case quorums key of None \<Rightarrow> 0 | Some entry \<Rightarrow> hm_len entry)"

definition is_prepared :: "pmain \<Rightarrow> u32 \<Rightarrow> digest \<Rightarrow> bool" where
  "is_prepared s op_number request_digest \<longleftrightarrow>
     log_entry_at (pm_log s) op_number \<noteq> None \<and>
     quorum_len (pm_prepare_quorums s) (op_number, request_digest) \<ge> 2 * tc_f (pm_config s)"

definition is_committed :: "pmain \<Rightarrow> u32 \<Rightarrow> digest \<Rightarrow> bool" where
  "is_committed s op_number request_digest \<longleftrightarrow>
     is_prepared s op_number request_digest \<and>
     quorum_len (pm_commit_quorums s) (op_number, request_digest) > 2 * tc_f (pm_config s)"

text \<open>\<open>self.id == self.view_number % self.config.n as u8\<close>.\<close>

definition is_primary :: "pmain \<Rightarrow> bool res" where
  "is_primary s =
     bind_res (rem_u8 (pm_view_number s) (of_nat (tc_n (pm_config s)))) (\<lambda>p.
     Inr (pm_id s = p))"

text \<open>\<open>quorums.entry(key).or_default().insert(replica_id, signature)\<close>.\<close>

definition quorum_insert :: "u32 \<times> digest \<Rightarrow> u8 \<Rightarrow> signature \<Rightarrow> quorums \<Rightarrow> quorums" where
  "quorum_insert key replica_id sig quorums =
     (let entry = (case quorums key of None \<Rightarrow> Map.empty | Some entry \<Rightarrow> entry)
      in quorums(key \<mapsto> entry(replica_id \<mapsto> sig)))"

section \<open>Handlers\<close>

definition do_close_batch :: "pmain \<Rightarrow> main_io" where
  "do_close_batch s =
     (let op_number = pm_op_number s + 1;
          pre_prepare = \<lparr>pp_view_number = pm_view_number s, pp_op_number = op_number,
                         pp_request_digest = default_digest\<rparr>
      in (s\<lparr>pm_op_number := op_number, pm_requests := []\<rparr>,
          [SendPrePrepare pre_prepare (pm_requests s)]))"

definition handle_request :: "request \<Rightarrow> pmain \<Rightarrow> main_io res" where
  "handle_request message s =
     (let fresh =
        bind_res (is_primary s) (\<lambda>primary.
        if \<not> primary then Inl Todo
        else
          let s = s\<lparr>pm_requests := pm_requests s @ [message]\<rparr> in
          if pm_op_number s < pm_execute_number s + 6 then Inr (do_close_batch s)
          else Inr (s, []))
      in case pm_client_table s (rq_client_id message) of
           Some reply \<Rightarrow>
             if rp_request_number reply > rq_request_number message then Inr (s, [])
             else if rp_request_number reply = rq_request_number message
                  then Inr (s, [SendReply (rq_addr message) reply])
             else fresh
         | None \<Rightarrow> fresh)"

definition handle_pre_prepare ::
  "pre_prepare signed \<Rightarrow> request list \<Rightarrow> pmain \<Rightarrow> main_io res" where
  "handle_pre_prepare message requests s =
     (if pp_view_number (sg_inner message) \<noteq> pm_view_number s then Inr (s, [])
      else if pp_op_number (sg_inner message) \<noteq> next_entry_number s then Inl Assert_Failed
      else
        let op_number = pp_op_number (sg_inner message);
            request_digest = pp_request_digest (sg_inner message);
            s = s\<lparr>pm_log := pm_log s @
                    [\<lparr>le_pre_prepare = message, le_requests = requests\<rparr>]\<rparr> in
        bind_res (is_primary s) (\<lambda>primary.
        if \<not> primary
        then Inr (s, [SendPrepare \<lparr>pr_view_number = pm_view_number s, pr_op_number = op_number,
                                   pr_request_digest = request_digest,
                                   pr_replica_id = pm_id s\<rparr>])
        else Inr (s, [])))"

definition handle_prepare :: "prepare signed \<Rightarrow> pmain \<Rightarrow> main_io" where
  "handle_prepare message s =
     (let op_number = pr_op_number (sg_inner message);
          request_digest = pr_request_digest (sg_inner message) in
      if pr_view_number (sg_inner message) \<noteq> pm_view_number s then (s, [])
      else if is_prepared s op_number request_digest then (s, [])
      else
        let s = s\<lparr>pm_prepare_quorums :=
                    quorum_insert (op_number, request_digest) (pr_replica_id (sg_inner message))
                      (sg_signature message) (pm_prepare_quorums s)\<rparr> in
        if is_prepared s op_number request_digest
        then (s, [SendCommit \<lparr>ct_view_number = pm_view_number s, ct_op_number = op_number,
                              ct_request_digest = request_digest, ct_replica_id = pm_id s\<rparr>])
        else (s, []))"

text \<open>The body of the loop over the requests of a batch.\<close>

definition execute_request :: "request \<Rightarrow> main_io \<Rightarrow> main_io" where
  "execute_request request io =
     (let (s, out) = io;
          run = (let (app, result) = app_execute (pm_app s) (pm_execute_number s) (rq_op request);
                     reply = \<lparr>rp_request_number = rq_request_number request, rp_result = result,
                              rp_replica_id = pm_id s, rp_view_number = pm_view_number s\<rparr>
                 in (s\<lparr>pm_app := app,
                       pm_client_table := (pm_client_table s)(rq_client_id request \<mapsto> reply)\<rparr>,
                     out @ [SendReply (rq_addr request) reply]))
      in case pm_client_table s (rq_client_id request) of
           Some reply \<Rightarrow>
             if rp_request_number reply \<ge> rq_request_number request then (s, out) else run
         | None \<Rightarrow> run)"

definition execute_batch :: "request list \<Rightarrow> main_io \<Rightarrow> main_io" where
  "execute_batch requests io = fold execute_request requests io"

text \<open>
  \<open>execute\<close> calls itself after each batch.  The value \<open>None\<close> is a recursion that never ends.
\<close>

partial_function (option) execute :: "pmain \<Rightarrow> to_crypto list \<Rightarrow> main_io option" where
  "execute s out =
     (case log_entry_at (pm_log s) (pm_execute_number s + 1) of
        None \<Rightarrow> Some (s, out)
      | Some entry \<Rightarrow>
          if is_committed s (pm_execute_number s + 1)
               (pp_request_digest (sg_inner (le_pre_prepare entry)))
          then execute
                 (fst (execute_batch (le_requests entry)
                        (s\<lparr>pm_execute_number := pm_execute_number s + 1\<rparr>, out)))
                 (snd (execute_batch (le_requests entry)
                        (s\<lparr>pm_execute_number := pm_execute_number s + 1\<rparr>, out)))
          else Some (s, out))"

definition handle_commit :: "commit signed \<Rightarrow> pmain \<Rightarrow> main_io res" where
  "handle_commit message s =
     (let op_number = ct_op_number (sg_inner message);
          request_digest = ct_request_digest (sg_inner message) in
      if ct_view_number (sg_inner message) \<noteq> pm_view_number s then Inr (s, [])
      else if is_committed s op_number request_digest then Inr (s, [])
      else
        let s = s\<lparr>pm_commit_quorums :=
                    quorum_insert (op_number, request_digest) (ct_replica_id (sg_inner message))
                      (sg_signature message) (pm_commit_quorums s)\<rparr> in
        if is_committed s op_number request_digest
        then (case execute s [] of
                None \<Rightarrow> Inl Diverges
              | Some (s, out) \<Rightarrow>
                  bind_res (is_primary s) (\<lambda>primary.
                  if primary \<and> pm_requests s \<noteq> []
                  then (let (s, out') = do_close_batch s in Inr (s, out @ out'))
                  else Inr (s, out)))
        else Inr (s, []))"

section \<open>Poll\<close>

text \<open>
  The loop that takes the following proposals out of the reorder buffer.  Each turn removes
  one entry, so it ends.
\<close>

lemma handle_pre_prepare_reorder:
  "handle_pre_prepare message requests s = Inr (s', out) \<Longrightarrow>
     pm_reorder_pre_prepare s' = pm_reorder_pre_prepare s"
  by (auto simp: handle_pre_prepare_def Let_def split: if_splits)

function drain_reorder :: "pmain \<Rightarrow> to_crypto list \<Rightarrow> main_io res" where
  "drain_reorder s out =
     (case pm_reorder_pre_prepare s (next_entry_number s) of
        None \<Rightarrow> Inr (s, out)
      | Some (message, requests) \<Rightarrow>
          (case handle_pre_prepare message requests
                  (s\<lparr>pm_reorder_pre_prepare :=
                       (pm_reorder_pre_prepare s)(next_entry_number s := None)\<rparr>) of
             Inl e \<Rightarrow> Inl e
           | Inr (s', out') \<Rightarrow> drain_reorder s' (out @ out')))"
  by pat_completeness auto
termination
  by (relation "measure (\<lambda>(s, out). card (dom (pm_reorder_pre_prepare s)))")
     (auto dest!: handle_pre_prepare_reorder simp: card_gt_0_iff domI intro!: diff_less)

declare drain_reorder.simps [simp del]

definition receive_pre_prepare ::
  "pre_prepare signed \<Rightarrow> request list \<Rightarrow> pmain \<Rightarrow> main_io res" where
  "receive_pre_prepare message requests s =
     (if pp_op_number (sg_inner message) \<noteq> next_entry_number s
      then Inr (s\<lparr>pm_reorder_pre_prepare :=
                    (pm_reorder_pre_prepare s)
                      (pp_op_number (sg_inner message) \<mapsto> (message, requests))\<rparr>, [])
      else bind_res (handle_pre_prepare message requests s) (\<lambda>(s, out). drain_reorder s out))"

fun main_handle :: "to_main \<Rightarrow> pmain \<Rightarrow> main_io res" where
  "main_handle (Verified (Request message)) s = handle_request message s"
| "main_handle (Verified (PrePrepare message requests)) s = receive_pre_prepare message requests s"
| "main_handle (Signed (PrePrepare message requests)) s = receive_pre_prepare message requests s"
| "main_handle (Verified (Prepare message)) s = Inr (handle_prepare message s)"
| "main_handle (Signed (Prepare message)) s = Inr (handle_prepare message s)"
| "main_handle (Verified (Commit message)) s = handle_commit message s"
| "main_handle (Signed (Commit message)) s = handle_commit message s"
| "main_handle (Signed (Request message)) s = Inl Todo"

fun main_poll :: "to_main try_recv \<Rightarrow> pmain \<Rightarrow> (bool \<times> main_io) res" where
  "main_poll Empty s = Inr (False, s, [])"
| "main_poll Disconnected s = Inl Unreachable"
| "main_poll (Msg message) s = bind_res (main_handle message s) (\<lambda>(s, out). Inr (True, s, out))"

section \<open>Drop\<close>

text \<open>
  What \<open>drop\<close> prints on replica 0 is the quotient of these two numbers as \<open>f32\<close>: the requests in the
  log and its length.
\<close>

definition drop_statistics :: "pmain \<Rightarrow> (usize \<times> usize) option" where
  "drop_statistics s =
     (if pm_id s = 0
      then Some (sum_list (map (\<lambda>entry. length (le_requests entry)) (pm_log s)), length (pm_log s))
      else None)"

end
