(* ===== verification/Pbft_Replica.thy ===== *)
theory Pbft_Replica
  imports Pbft_Main
begin

text \<open>
  The listening and the crypto thread of a replica of \<open>src/pbft.rs\<close>, and the replica built
  from its configuration and polled as one actor.
\<close>

section \<open>The listening thread\<close>

text \<open>
  \<open>pl_to_main\<close> and \<open>pl_to_crypto\<close> tell whether the receiver of the channel is still there.  That of
  the main thread is dropped with the main thread's state when its thread ends.
\<close>

record plisten =
  pl_rx :: rx_channel
  pl_buffer :: bytes
  pl_to_main :: bool
  pl_to_crypto :: bool

text \<open>
  What happens to a decoded datagram: a request is sent to the main thread, a protocol message
  to the crypto thread, anything else is dropped.
\<close>

fun listen_dispatch :: "to_replica option \<Rightarrow> to_main list \<times> to_crypto list" where
  "listen_dispatch (Some (Request message)) = ([Verified (Request message)], [])"
| "listen_dispatch (Some (PrePrepare message requests)) = ([], [Verify (PrePrepare message requests)])"
| "listen_dispatch (Some (Prepare message)) = ([], [Verify (Prepare message)])"
| "listen_dispatch (Some (Commit message)) = ([], [Verify (Commit message)])"
| "listen_dispatch None = ([], [])"

definition plisten_poll ::
  "externals \<Rightarrow> plisten \<Rightarrow> (bool \<times> plisten \<times> to_main list \<times> to_crypto list) res" where
  "plisten_poll X l =
     bind_res (receive_from (pl_rx l) (pl_buffer l)) (\<lambda>(r, rx, buffer).
     let l = l\<lparr>pl_rx := rx, pl_buffer := buffer\<rparr> in
     case r of
       None \<Rightarrow> Inr (False, l, [], [])
     | Some (len, _) \<Rightarrow>
         (let (ms, cs) = listen_dispatch (bc_de_to_replica X (take len (pl_buffer l))) in
          bind_res (chan_send (pl_to_main l) ms) (\<lambda>ms.
          bind_res (chan_send (pl_to_crypto l) cs) (\<lambda>cs. Inr (True, l, ms, cs)))))"

section \<open>The crypto thread\<close>

text \<open>\<open>py_to_main\<close> tells whether the receiver of the main thread is still there.\<close>

record pcrypto =
  py_public_keys :: "public_key list"
  py_secret_key :: secret_key
  py_tx :: tx_channel
  py_broadcast_addresses :: "socket_addr list"
  py_to_main :: bool

text \<open>
  What a call of \<open>shared_poll\<close> does besides its result: messages to the main thread and
  datagrams.
\<close>

type_synonym crypto_io = "to_main list \<times> sent list"

fun broadcast :: "externals \<Rightarrow> tx_channel \<Rightarrow> bytes \<Rightarrow> socket_addr list \<Rightarrow> sent list res" where
  "broadcast X tx message [] = Inr []"
| "broadcast X tx message (dest # dests) =
     bind_res (send_to X tx message dest) (\<lambda>(_, s).
     bind_res (broadcast X tx message dests) (\<lambda>ss. Inr (s # ss)))"

text \<open>\<open>self.tx.send_to\<close> to every broadcast address, then \<open>to_main.send(Signed(message))\<close>.\<close>

definition broadcast_signed :: "externals \<Rightarrow> pcrypto \<Rightarrow> to_replica \<Rightarrow> crypto_io res" where
  "broadcast_signed X y message =
     bind_res (unwrap_ok (bc_ser_to_replica X message)) (\<lambda>payload.
     bind_res (broadcast X (py_tx y) payload (py_broadcast_addresses y)) (\<lambda>out.
     bind_res (chan_send (py_to_main y) [Signed message]) (\<lambda>ms. Inr (ms, out))))"

definition verify_pre_prepare ::
  "externals \<Rightarrow> pcrypto \<Rightarrow> pre_prepare signed \<Rightarrow> request list \<Rightarrow> crypto_io res" where
  "verify_pre_prepare X y message requests =
     bind_res (unwrap_ok (bc_ser_requests X requests)) (\<lambda>rb.
     if sc_hash X rb \<noteq> pp_request_digest (sg_inner message) then Inr ([], [])
     else
       bind_res (rem_usize (unat (pp_view_number (sg_inner message))) (length (py_public_keys y))) (\<lambda>i.
       bind_res (index (py_public_keys y) i) (\<lambda>public_key.
       bind_res (unwrap_ok (bc_ser_pre_prepare X (sg_inner message))) (\<lambda>mb.
       if sc_verify X (sc_hash X mb) (sg_signature message) public_key
       then bind_res (chan_send (py_to_main y) [Verified (PrePrepare message requests)]) (\<lambda>ms. Inr (ms, []))
       else Inr ([], [])))))"

definition verify_prepare :: "externals \<Rightarrow> pcrypto \<Rightarrow> prepare signed \<Rightarrow> crypto_io res" where
  "verify_prepare X y message =
     bind_res (index (py_public_keys y) (unat (pr_replica_id (sg_inner message)))) (\<lambda>public_key.
     bind_res (unwrap_ok (bc_ser_prepare X (sg_inner message))) (\<lambda>mb.
     if sc_verify X (sc_hash X mb) (sg_signature message) public_key
     then bind_res (chan_send (py_to_main y) [Verified (Prepare message)]) (\<lambda>ms. Inr (ms, []))
     else Inr ([], [])))"

definition verify_commit :: "externals \<Rightarrow> pcrypto \<Rightarrow> commit signed \<Rightarrow> crypto_io res" where
  "verify_commit X y message =
     bind_res (index (py_public_keys y) (unat (ct_replica_id (sg_inner message)))) (\<lambda>public_key.
     bind_res (unwrap_ok (bc_ser_commit X (sg_inner message))) (\<lambda>mb.
     if sc_verify X (sc_hash X mb) (sg_signature message) public_key
     then bind_res (chan_send (py_to_main y) [Verified (Commit message)]) (\<lambda>ms. Inr (ms, []))
     else Inr ([], [])))"

definition send_reply :: "externals \<Rightarrow> pcrypto \<Rightarrow> socket_addr \<Rightarrow> reply \<Rightarrow> crypto_io res" where
  "send_reply X y dest message =
     bind_res (unwrap_ok (bc_ser_reply X message)) (\<lambda>payload.
     bind_res (send_to X (py_tx y) payload dest) (\<lambda>(_, s). Inr ([], [s])))"

definition send_pre_prepare ::
  "externals \<Rightarrow> pcrypto \<Rightarrow> pre_prepare \<Rightarrow> request list \<Rightarrow> crypto_io res" where
  "send_pre_prepare X y message requests =
     bind_res (unwrap_ok (bc_ser_requests X requests)) (\<lambda>rb.
     let message = message\<lparr>pp_request_digest := sc_hash X rb\<rparr> in
     bind_res (unwrap_ok (bc_ser_pre_prepare X message)) (\<lambda>mb.
     let signature = sc_sign X (sc_hash X mb) (py_secret_key y) in
     broadcast_signed X y
       (PrePrepare \<lparr>sg_inner = message, sg_signature = signature\<rparr> requests)))"

definition send_prepare :: "externals \<Rightarrow> pcrypto \<Rightarrow> prepare \<Rightarrow> crypto_io res" where
  "send_prepare X y message =
     bind_res (unwrap_ok (bc_ser_prepare X message)) (\<lambda>mb.
     let signature = sc_sign X (sc_hash X mb) (py_secret_key y) in
     broadcast_signed X y (Prepare \<lparr>sg_inner = message, sg_signature = signature\<rparr>))"

definition send_commit :: "externals \<Rightarrow> pcrypto \<Rightarrow> commit \<Rightarrow> crypto_io res" where
  "send_commit X y message =
     bind_res (unwrap_ok (bc_ser_commit X message)) (\<lambda>mb.
     let signature = sc_sign X (sc_hash X mb) (py_secret_key y) in
     broadcast_signed X y (Commit \<lparr>sg_inner = message, sg_signature = signature\<rparr>))"

fun crypto_handle :: "externals \<Rightarrow> pcrypto \<Rightarrow> to_crypto \<Rightarrow> crypto_io res" where
  "crypto_handle X y (Verify (Request _)) = Inl Unreachable"
| "crypto_handle X y (Verify (PrePrepare message requests)) = verify_pre_prepare X y message requests"
| "crypto_handle X y (Verify (Prepare message)) = verify_prepare X y message"
| "crypto_handle X y (Verify (Commit message)) = verify_commit X y message"
| "crypto_handle X y (SendReply dest message) = send_reply X y dest message"
| "crypto_handle X y (SendPrePrepare message requests) = send_pre_prepare X y message requests"
| "crypto_handle X y (SendPrepare message) = send_prepare X y message"
| "crypto_handle X y (SendCommit message) = send_commit X y message"

fun crypto_shared_poll ::
  "externals \<Rightarrow> to_crypto try_recv \<Rightarrow> pcrypto \<Rightarrow> (bool \<times> crypto_io) res" where
  "crypto_shared_poll X Empty y = Inr (False, [], [])"
| "crypto_shared_poll X Disconnected y = Inl Unreachable"
| "crypto_shared_poll X (Msg message) y =
     bind_res (crypto_handle X y message) (\<lambda>io. Inr (True, io))"

section \<open>The replica\<close>

record preplica =
  pr_main :: pmain
  pr_listen :: plisten
  pr_crypto :: pcrypto
  pr_to_main :: "to_main list"
  pr_to_crypto :: "to_crypto list"

text \<open>The addresses of \<open>replica\<close> other than the one at index \<open>id\<close>.\<close>

definition broadcast_addresses_of :: "usize \<Rightarrow> socket_addr list \<Rightarrow> socket_addr list" where
  "broadcast_addresses_of i replica =
     map snd (filter (\<lambda>(j, _). j \<noteq> i) (List.enumerate 0 replica))"

definition pmain_new :: "replica_common \<Rightarrow> pmain" where
  "pmain_new common =
     \<lparr>pm_id = of_nat (rc_common_id common), pm_config = rc_config common,
      pm_app = rc_app common, pm_client_table = Map.empty, pm_view_number = 0,
      pm_op_number = 0, pm_execute_number = 0, pm_log = [],
      pm_prepare_quorums = Map.empty, pm_commit_quorums = Map.empty, pm_requests = [],
      pm_reorder_pre_prepare = Map.empty\<rparr>"

definition preplica_new :: "replica_common \<Rightarrow> preplica res" where
  "preplica_new common =
     bind_res (index (tc_secret_keys (rc_config common)) (rc_common_id common)) (\<lambda>secret_key.
     Inr \<lparr>pr_main = pmain_new common,
          pr_listen = \<lparr>pl_rx = rc_rx common, pl_buffer = replicate 65000 0,
                       pl_to_main = True, pl_to_crypto = True\<rparr>,
          pr_crypto = \<lparr>py_public_keys = tc_public_keys (rc_config common),
                       py_secret_key = secret_key, py_tx = rc_tx common,
                       py_broadcast_addresses =
                         broadcast_addresses_of (rc_common_id common)
                           (tc_replica (rc_config common)),
                       py_to_main = True\<rparr>,
          pr_to_main = [], pr_to_crypto = []\<rparr>)"

definition preplica_poll ::
  "externals \<Rightarrow> preplica \<Rightarrow> (bool \<times> preplica \<times> sent list) res" where
  "preplica_poll X r =
     bind_res (plisten_poll X (pr_listen r)) (\<lambda>(b1, listen, ms1, cs1).
     let (c, to_crypto) = chan_recv (pr_to_crypto r @ cs1) in
     bind_res (crypto_shared_poll X c (pr_crypto r)) (\<lambda>(b2, ms2, out).
     let (m, to_main) = chan_recv (pr_to_main r @ ms1 @ ms2) in
     bind_res (main_poll m (pr_main r)) (\<lambda>(b3, main, cs2).
     Inr (b1 \<or> b2 \<or> b3,
          r\<lparr>pr_main := main, pr_listen := listen, pr_to_main := to_main,
            pr_to_crypto := to_crypto @ cs2\<rparr>, out))))"

end
