(* ===== verification/Samples.thy ===== *)
theory Samples
  imports Pbft_Replica "HOL-Library.Countable"
begin

text \<open>
  Concrete parameters: externals that satisfy every assumption the development makes about
  them, and the four-replica configuration of \<open>src/run/examples/localhost.rs\<close>.  The theorems
  with hypotheses are instantiated with them.
\<close>

section \<open>A self-delimiting code for countable types\<close>

instance ip_addr :: countable
  by countable_datatype

instance socket_addr :: countable
  by countable_datatype

instance reply_ext :: (countable) countable
  by (rule countable_classI [of "\<lambda>r. to_nat
        (rp_request_number r, rp_result r, rp_replica_id r, rp_view_number r, reply.more r)"]) simp

instance request_ext :: (countable) countable
  by (rule countable_classI [of "\<lambda>r. to_nat
        (rq_client_id r, rq_request_number r, rq_op r, rq_addr r, request.more r)"]) simp

instance pre_prepare_ext :: (countable) countable
  by (rule countable_classI [of "\<lambda>r. to_nat
        (pp_view_number r, pp_op_number r, pp_request_digest r, pre_prepare.more r)"]) simp

instance prepare_ext :: (countable) countable
  by (rule countable_classI [of "\<lambda>r. to_nat
        (pr_view_number r, pr_op_number r, pr_request_digest r, pr_replica_id r, prepare.more r)"]) simp

instance commit_ext :: (countable) countable
  by (rule countable_classI [of "\<lambda>r. to_nat
        (ct_view_number r, ct_op_number r, ct_request_digest r, ct_replica_id r, commit.more r)"]) simp

instance signed_ext :: (countable, countable) countable
  by (rule countable_classI [of "\<lambda>r. to_nat (sg_inner r, sg_signature r, signed.more r)"]) simp

instance to_replica :: countable
  by countable_datatype

definition unary :: "nat \<Rightarrow> bytes" where
  "unary n = replicate n 1 @ [0]"

definition un_unary :: "bytes \<Rightarrow> nat option" where
  "un_unary b = (if 0 \<in> set b then Some (length (takeWhile (\<lambda>x. x \<noteq> 0) b)) else None)"

lemma un_unary_unary [simp]: "un_unary (unary n @ rest) = Some n"
  by (induction n) (simp_all add: un_unary_def unary_def split: if_splits)

lemma unary_inj [simp]: "unary m = unary n \<longleftrightarrow> m = n"
  by (metis append_Nil2 option.inject un_unary_unary)

text \<open>
  An encoder that writes the values of a given list as one byte, its index, and everything else
  as the byte 255 and a unary number.
\<close>

definition tagged :: "'a :: countable list \<Rightarrow> 'a \<Rightarrow> bytes" where
  "tagged ms m = (case map_of (zip ms (map of_nat [0..<length ms])) m of
     Some i \<Rightarrow> [i] | None \<Rightarrow> 255 # unary (to_nat m))"

definition untagged :: "'a :: countable list \<Rightarrow> bytes \<Rightarrow> 'a option" where
  "untagged ms b = (case b of
     [] \<Rightarrow> None
   | i # rest \<Rightarrow>
       if i = 255 then map_option from_nat (un_unary rest)
       else if unat i < length ms then Some (ms ! unat i) else None)"

lemma untagged_tagged:
  assumes "length ms \<le> 255"
  shows "untagged ms (tagged ms m @ rest) = Some m"
proof (cases "map_of (zip ms (map of_nat [0..<length ms])) m :: u8 option")
  case None
  show ?thesis unfolding tagged_def None by (simp add: untagged_def)
next
  case (Some i)
  from map_of_SomeD [OF this] obtain k where k: "k < length ms" "m = ms ! k" "i = of_nat k"
    by (auto simp: in_set_zip)
  then have "unat i = k" using assms by (simp add: unsigned_of_nat take_bit_nat_def)
  with k(1) assms have "i \<noteq> 255" by (auto dest: arg_cong [where f = unat])
  with k \<open>unat i = k\<close> Some show ?thesis by (simp add: tagged_def untagged_def)
qed

lemma codec_ok_tagged:
  "length ms \<le> 255 \<Longrightarrow> codec_ok (\<lambda>m. Some (tagged ms m)) (untagged ms)"
  by (simp add: codec_ok_def untagged_tagged)

section \<open>Externals\<close>

text \<open>The first key in increasing order.\<close>

definition least_key :: "(u8 \<rightharpoonup> bytes) \<Rightarrow> u8" where
  "least_key m = hd (filter (\<lambda>k. m k \<noteq> None) (map of_nat [0..<256]))"

lemma least_key_in:
  assumes "m \<noteq> Map.empty"
  shows "m (least_key m) \<noteq> None"
proof -
  have "filter (\<lambda>k. m k \<noteq> None) (map (of_nat :: nat \<Rightarrow> u8) [0..<256]) \<noteq> []"
    using assms hm_len_pos_iff [of m] unfolding hm_len_code by (metis length_greater_0_conv)
  then have "least_key m \<in> set (filter (\<lambda>k. m k \<noteq> None) (map (of_nat :: nat \<Rightarrow> u8) [0..<256]))"
    unfolding least_key_def by (rule hd_in_set)
  then show ?thesis by simp
qed

text \<open>
  As in bincode, a struct is encoded as its fields in order, so a \<open>Prepare\<close> and a \<open>Commit\<close> with
  the same fields have the same encoding.  The hash keeps its input, a signature is the key
  followed by the hash.
\<close>

definition sample_ext :: "request list \<Rightarrow> reply list \<Rightarrow> to_replica list \<Rightarrow> externals" where
  "sample_ext rqs rps ms =
     \<lparr>bc_ser_request = (\<lambda>m. Some (tagged rqs m)), bc_de_request = untagged rqs,
      bc_ser_reply = (\<lambda>m. Some (tagged rps m)), bc_de_reply = untagged rps,
      bc_ser_to_replica = (\<lambda>m. Some (tagged ms m)), bc_de_to_replica = untagged ms,
      bc_ser_requests = (\<lambda>m. Some (unary (to_nat m))),
      bc_ser_pre_prepare = (\<lambda>m. Some (0 # unary (to_nat m))),
      bc_ser_prepare = (\<lambda>m. Some (1 # unary (to_nat
        (pr_view_number m, pr_op_number m, pr_request_digest m, pr_replica_id m)))),
      bc_ser_commit = (\<lambda>m. Some (1 # unary (to_nat
        (ct_view_number m, ct_op_number m, ct_request_digest m, ct_replica_id m)))),
      sc_hash = (\<lambda>b. b), sc_sign = (\<lambda>h sk. sk @ h),
      sc_verify = (\<lambda>h s pk. s = pk @ h), sc_public_key = (\<lambda>sk. sk),
      os_send_ok = (\<lambda>d b. True), hm_first = least_key\<rparr>"

lemma sample_unreplicated_ext_ok:
  "length rqs \<le> 255 \<Longrightarrow> length rps \<le> 255 \<Longrightarrow> unreplicated_ext_ok (sample_ext rqs rps ms)"
  by (simp add: unreplicated_ext_ok_def sample_ext_def codec_ok_tagged)

lemma sample_pbft_ext_ok:
  "length rps \<le> 255 \<Longrightarrow> length ms \<le> 255 \<Longrightarrow> pbft_ext_ok (sample_ext rqs rps ms)"
  using least_key_in
  by (simp add: pbft_ext_ok_def sample_ext_def codec_ok_tagged ser_total_def sign_ok_def
      hm_first_ok_def)

lemma sample_tx_ok: "tx_ok (sample_ext rqs rps ms) tx"
  by (simp add: tx_ok_def sample_ext_def)

section \<open>A deployment\<close>

definition sample_addr :: "u8 \<Rightarrow> socket_addr" where
  "sample_addr i = SocketAddr (V4 127 0 0 i) 7001"

definition sample_config :: transport_config where
  "sample_config =
     \<lparr>tc_n = 4, tc_f = 1, tc_replica = map sample_addr [1, 2, 3, 4],
      tc_public_keys = [[10], [11], [12], [13]], tc_secret_keys = [[10], [11], [12], [13]]\<rparr>"

definition sample_common :: "usize \<Rightarrow> replica_common" where
  "sample_common i =
     \<lparr>rc_common_id = i, rc_config = sample_config, rc_app = Null,
      rc_tx = Tx_Simulated (sample_addr (of_nat i + 1)), rc_rx = Rx_Simulated [] True,
      rc_clock = Clock_Simulated 0\<rparr>"

definition sample_client_addr :: socket_addr where
  "sample_client_addr = SocketAddr (V4 127 0 0 101) 1"

definition sample_client_common :: client_common where
  "sample_client_common =
     \<lparr>cc_id = 1, cc_config = sample_config, cc_tx = Tx_Simulated sample_client_addr,
      cc_rx = Rx_Simulated [] True, cc_rx_addr = sample_client_addr, cc_clock = Clock_Simulated 0\<rparr>"

definition sample_request :: "u32 \<Rightarrow> request" where
  "sample_request k =
     \<lparr>rq_client_id = 1, rq_request_number = k, rq_op = [7], rq_addr = sample_client_addr\<rparr>"

definition sample_pre_prepare :: "u32 \<Rightarrow> digest \<Rightarrow> pre_prepare signed" where
  "sample_pre_prepare k d =
     \<lparr>sg_inner = \<lparr>pp_view_number = 0, pp_op_number = k, pp_request_digest = d\<rparr>, sg_signature = []\<rparr>"

definition sample_prepare :: "u32 \<Rightarrow> digest \<Rightarrow> u8 \<Rightarrow> prepare signed" where
  "sample_prepare k d i =
     \<lparr>sg_inner = \<lparr>pr_view_number = 0, pr_op_number = k, pr_request_digest = d,
                  pr_replica_id = i\<rparr>, sg_signature = []\<rparr>"

definition sample_commit :: "u32 \<Rightarrow> digest \<Rightarrow> u8 \<Rightarrow> commit signed" where
  "sample_commit k d i =
     \<lparr>sg_inner = \<lparr>ct_view_number = 0, ct_op_number = k, ct_request_digest = d,
                  ct_replica_id = i\<rparr>, sg_signature = []\<rparr>"

lemmas sample_defs = sample_addr_def sample_config_def sample_common_def sample_client_addr_def
  sample_client_common_def sample_request_def sample_pre_prepare_def sample_prepare_def
  sample_commit_def

end
