(* ===== verification/Unreplicated_Properties.thy ===== *)
theory Unreplicated_Properties
  imports Unreplicated_Correct Samples
begin

text \<open>
  The properties of the unreplicated service: refinement of the abstract service, the round
  trip of a request, and the behaviour of client and replica on other datagrams.
\<close>

section \<open>The main thread\<close>

definition umain_new :: "replica_common \<Rightarrow> umain" where
  "umain_new common = ur_main (ureplica_new common)"

definition umain_history :: "request list \<Rightarrow> replica_common \<Rightarrow> svc" where
  "umain_history ms common = svc_run
     (zip (op_trace (\<lambda>m s. fst (umain_handle_request m s)) (\<lambda>s. um_op_number s + 1) ms
             (umain_new common)) ms) (svc_init (rc_app common))"

text \<open>
  C31. The unreplicated replica refines the abstract service: after any requests its reply
  table and application are those of the service given the same requests, its log is the list of
  the requests the service executed, in order, its operation number counts them, and no request
  number of a client was executed twice.
\<close>
theorem unreplicated_refines_service:
  "table_sim (um_app (umain_run ms (umain_new common)))
      (um_client_table (umain_run ms (umain_new common))) (umain_history ms common) \<and>
   um_log (umain_run ms (umain_new common)) = map fst (svc_done (umain_history ms common)) \<and>
   um_op_number (umain_run ms (umain_new common)) =
     of_nat (length (svc_done (umain_history ms common))) \<and>
   distinct (map (\<lambda>(r, _). (rq_client_id r, rq_request_number r)) (svc_done (umain_history ms common)))"
proof -
  have "umain_rel (umain_run ms (umain_new common)) (umain_history ms common)"
    using umain_rel_run [OF umain_rel_new] by (simp add: umain_history_def umain_new_def)
  moreover have "svc_ok (umain_history ms common)"
    unfolding umain_history_def by (rule svc_run_ok) simp
  ultimately show ?thesis by (simp add: umain_rel_def svc_ok_distinct)
qed

text \<open>
  C32. The reply to a request is the one of the service: when the client's last executed request,
  after this one has been submitted, has the number of this request, its result is sent to the
  address in the request, executed just now or not; otherwise the request is outdated and nothing
  is sent.
\<close>
theorem unreplicated_replies_of_service:
  "let s = umain_run ms (umain_new common);
       v = svc_submit (um_op_number s + 1) m (umain_history ms common)
   in snd (umain_handle_request m s) =
     (case svc_last v (rq_client_id m) of
        None \<Rightarrow> []
      | Some (r, res) \<Rightarrow>
          if rq_request_number r = rq_request_number m
          then [(rq_addr m, reply_default\<lparr>rp_request_number := rq_request_number m, rp_result := res\<rparr>)]
          else [])"
proof -
  have "umain_rel (umain_run ms (umain_new common)) (umain_history ms common)"
    using umain_rel_run [OF umain_rel_new] by (simp add: umain_history_def umain_new_def)
  from umain_replies [OF this, of m] show ?thesis unfolding Let_def .
qed

section \<open>The round trip of a request\<close>

definition ureplica_given :: "ureplica \<Rightarrow> socket_addr \<Rightarrow> bytes \<Rightarrow> ureplica" where
  "ureplica_given r src payload =
     r\<lparr>ur_listen := (ur_listen r)\<lparr>ul_rx := Rx_Simulated [(src, payload)] True\<rparr>\<rparr>"

definition uclient_given :: "uclient \<Rightarrow> socket_addr \<Rightarrow> bytes \<Rightarrow> uclient" where
  "uclient_given c src payload =
     c\<lparr>uc_common := (uc_common c)\<lparr>cc_rx := Rx_Simulated [(src, payload)] True\<rparr>\<rparr>"

text \<open>A replica with nothing on the way between its threads.\<close>

definition ureplica_quiet :: "externals \<Rightarrow> ureplica \<Rightarrow> bool" where
  "ureplica_quiet X r \<longleftrightarrow> ur_message_channel r = [] \<and> ur_effect_channel r = [] \<and>
     length (ul_buffer (ur_listen r)) = 1500 \<and> ul_to_main (ur_listen r) \<and> tx_ok X (ue_tx (ur_effect r))"

text \<open>One poll handles a request datagram and sends the reply.\<close>

lemma ureplica_poll_request:
  assumes "unreplicated_ext_ok X" and "ureplica_quiet X r" and "bc_ser_request X m = Some payload"
    and "length payload \<le> 1500" and "umain_handle_request m (ur_main r) = (s', [(dest, rep)])"
  shows "\<exists>r' b. ureplica_poll X (ureplica_given r src payload) = Inr (True, r', [sent_by (ue_tx (ur_effect r)) b dest]) \<and>
    bc_ser_reply X rep = Some b \<and> ur_main r' = s'"
proof -
  from assms(1,3) have "bc_de_request X payload = Some m"
    by (auto simp: unreplicated_ext_ok_def elim!: codec_okD [of _ _ m])
  moreover obtain b where "bc_ser_reply X rep = Some b"
    using assms(1) by (auto simp: unreplicated_ext_ok_def elim!: codec_okD [of _ _ rep])
  ultimately show ?thesis
    using assms(2,4,5)
    by (simp add: ureplica_poll_def ulisten_poll_def ureplica_given_def ureplica_quiet_def
        send_to_ok Let_def)
qed

lemma uclient_poll_reply:
  assumes "unreplicated_ext_ok X" and "uclient_inv c" and "uc_op c \<noteq> None"
    and "bc_ser_reply X rep = Some b" and "length b \<le> 1500"
    and "rp_request_number rep = uc_request_number c"
    and "\<not> uc_resend_instant c \<le> clock_now t (cc_clock (uc_common c))"
  shows "\<exists>c'. uclient_poll X t t' (uclient_given c src b) = Inr (True, c', []) \<and>
    uc_result c' = Some (rp_result rep) \<and> uc_op c' = None"
proof -
  from assms(1,4) have "bc_de_reply X b = Some rep"
    by (auto simp: unreplicated_ext_ok_def elim!: codec_okD [of _ _ rep])
  with assms(2-3,5-7) show ?thesis
    by (auto simp: uclient_poll_def uclient_given_def uclient_on_packet_def uclient_inv_def)
qed

text \<open>
  C30. The round trip of a request: a client invokes an operation; its datagram reaches a quiet
  replica that has executed nothing newer of this client; one poll of the replica executes the
  operation once and answers to the address of the client; when that datagram reaches the client
  before its resend time, its next poll has the result the application computed.
\<close>
theorem request_round_trip:
  assumes "unreplicated_ext_ok X" and "uclient_inv c" and "ureplica_quiet X r"
    and "uclient_invoke X t op c = Inr (c1, [s])" and "length (sent_payload s) \<le> 1500"
    and "\<forall>rep. um_client_table (ur_main r) (cc_id (uc_common c)) = Some rep \<longrightarrow>
      rp_request_number rep < uc_request_number c + 1"
    and "clock_time t' (cc_clock (uc_common c)) < clock_time t (cc_clock (uc_common c)) + from_millis 10"
    and "length (the (bc_ser_reply X (reply_default\<lparr>rp_request_number := uc_request_number c + 1,
      rp_result := snd (app_execute (um_app (ur_main r)) (um_op_number (ur_main r) + 1) op)\<rparr>))) \<le> 1500"
  shows "\<exists>r1 s1 c2. ureplica_poll X (ureplica_given r src (sent_payload s)) = Inr (True, r1, [s1]) \<and>
    sent_dest s1 = cc_rx_addr (uc_common c) \<and>
    um_op_number (ur_main r1) = um_op_number (ur_main r) + 1 \<and>
    uclient_poll X t' t'' (uclient_given c1 src' (sent_payload s1)) = Inr (True, c2, []) \<and>
    fst (uclient_take_result c2) =
      Some (snd (app_execute (um_app (ur_main r)) (um_op_number (ur_main r) + 1) op))"
proof -
  let ?c = "c\<lparr>uc_request_number := uc_request_number c + 1, uc_op := Some op, uc_result := None\<rparr>"
  let ?m = "uclient_request ?c op"
  let ?res = "snd (app_execute (um_app (ur_main r)) (um_op_number (ur_main r) + 1) op)"
  let ?rep = "reply_default\<lparr>rp_request_number := uc_request_number c + 1, rp_result := ?res\<rparr>"
  from assms(4) have "uclient_do_send X t ?c = Inr (c1, [s])"
    by (simp add: uclient_invoke_def split: if_splits)
  from uclient_do_send_Inr [OF this] obtain payload where p: "bc_ser_request X ?m = Some payload"
    and s: "sent_payload s = payload"
    and c1: "c1 = ?c\<lparr>uc_resend_instant :=
           at_instant (clock_time t (cc_clock (uc_common c)) + from_millis 10)\<rparr>" by auto
  have new: "\<forall>rep. um_client_table (ur_main r) (rq_client_id ?m) = Some rep \<longrightarrow>
      rp_request_number rep < rq_request_number ?m"
    using assms(6) by (simp add: uclient_request_def)
  obtain s' where h: "umain_handle_request ?m (ur_main r) = (s', [(cc_rx_addr (uc_common c), ?rep)])"
    and n: "um_op_number s' = um_op_number (ur_main r) + 1"
    using umain_handle_request_simps(3) [OF new]
    by (cases "app_execute (um_app (ur_main r)) (um_op_number (ur_main r) + 1) op")
       (auto simp: Let_def uclient_request_def)
  from ureplica_poll_request [OF assms(1,3) p _ h, of src] assms(5) s
  obtain r1 b where r1: "ureplica_poll X (ureplica_given r src payload) =
      Inr (True, r1, [sent_by (ue_tx (ur_effect r)) b (cc_rx_addr (uc_common c))])"
    and b: "bc_ser_reply X ?rep = Some b" and "ur_main r1 = s'" by auto
  have len: "length b \<le> 1500" using assms(8) b by simp
  have "uclient_inv c1" using assms(2) by (simp add: c1 uclient_inv_def)
  from uclient_poll_reply [OF assms(1) this _ b len, of t' t'' src'] assms(7)
  obtain c2 where "uclient_poll X t' t'' (uclient_given c1 src' b) = Inr (True, c2, [])"
    "uc_result c2 = Some ?res" by (auto simp: c1)
  with r1 n \<open>ur_main r1 = s'\<close> show ?thesis
    by (simp add: s uclient_take_result_def)
qed

text \<open>The first request of a client and its reply, each with an encoding of one byte.\<close>

definition trip_reply :: reply where
  "trip_reply = reply_default\<lparr>rp_request_number := 1\<rparr>"

definition trip_ext :: externals where
  "trip_ext = sample_ext [sample_request 1] [trip_reply] []"

definition trip_time :: "nat \<Rightarrow> time_env" where
  "trip_time n = \<lparr>te_now = 0, te_elapsed = from_millis n\<rparr>"

definition trip_client :: uclient where
  "trip_client = (uclient_new sample_client_common)
     \<lparr>uc_request_number := 1, uc_op := Some [7], uc_resend_instant := at_instant (from_millis 10)\<rparr>"

lemma trip_ext_ok: "unreplicated_ext_ok trip_ext"
  unfolding trip_ext_def by (rule sample_unreplicated_ext_ok) simp_all

lemma trip_encode:
  "bc_ser_request trip_ext (sample_request 1) = Some [0]"
  "bc_ser_reply trip_ext trip_reply = Some [0]"
  by (simp_all add: trip_ext_def sample_ext_def tagged_def)

lemma trip_invoke:
  "uclient_invoke trip_ext (trip_time 0) [7] (uclient_new sample_client_common) =
     Inr (trip_client, [Sim_Sent sample_client_addr (sample_addr 1) [0]])"
  using trip_encode(1)
  by (simp add: uclient_invoke_def uclient_do_send_def uclient_new_def index_def trip_client_def
      trip_time_def from_millis_def sample_defs sent_by_def)

lemma trip_quiet: "ureplica_quiet trip_ext (ureplica_new (sample_common 0))"
  by (simp add: ureplica_quiet_def ureplica_new_def trip_ext_def sample_tx_ok)

theorem request_round_trip_witness:
  "\<exists>r1 s1 c2. ureplica_poll trip_ext
       (ureplica_given (ureplica_new (sample_common 0)) sample_client_addr [0]) = Inr (True, r1, [s1]) \<and>
     um_op_number (ur_main r1) = 1 \<and>
     uclient_poll trip_ext (trip_time 1) (trip_time 2)
       (uclient_given trip_client (sample_addr 1) (sent_payload s1)) = Inr (True, c2, []) \<and>
     fst (uclient_take_result c2) = Some []"
proof -
  let ?r = "ureplica_new (sample_common 0)"
  have "reply_default\<lparr>rp_request_number := uc_request_number (uclient_new sample_client_common) + 1,
      rp_result := snd (app_execute (um_app (ur_main ?r)) (um_op_number (ur_main ?r) + 1) [7])\<rparr> = trip_reply"
    by (cases "um_app (ur_main ?r)") (simp add: uclient_new_def trip_reply_def reply_default_def)
  then have "length (the (bc_ser_reply trip_ext
      (reply_default\<lparr>rp_request_number := uc_request_number (uclient_new sample_client_common) + 1,
       rp_result := snd (app_execute (um_app (ur_main ?r)) (um_op_number (ur_main ?r) + 1) [7])\<rparr>))) \<le> 1500"
    by (simp add: trip_encode)
  from request_round_trip [OF trip_ext_ok uclient_inv_new trip_quiet trip_invoke _ _ _ this,
      of "trip_time 1" sample_client_addr "trip_time 2" "sample_addr 1"]
  show ?thesis
    by (fastforce simp: ureplica_new_def uclient_new_def trip_time_def from_millis_def sample_defs)
qed

section \<open>Other datagrams\<close>

text \<open>
  A client takes only a reply to its current request: when a poll brings a result, the
  datagram it has read decodes to a reply with the request number of the client and this result,
  and the request is no longer in flight.
\<close>
theorem unreplicated_client_takes_matching:
  assumes "uclient_inv c" and "uc_op c \<noteq> None"
    and "uclient_poll X t t' c = Inr (again, c', out)" and "uc_result c' = Some res"
  shows "again \<and> uclient_idle c' \<and> uclient_poll_at c' = default_instant \<and>
    (\<exists>p m. p \<in> rx_payloads (cc_rx (uc_common c)) \<and> bc_de_reply X (take 1500 p) = Some m \<and>
       rp_request_number m = uc_request_number c \<and> rp_result m = res)"
proof -
  from assms(3) obtain c1 where s: "uclient_resend X t t' c = Inr (c1, out)"
    and r: "uclient_receive X c1 = Inr (again, c')" by (rule uclient_poll_Inr)
  note r1 = uclient_resend_Inr [OF s]
  have c1: "uc_result c1 = None" "length (uc_buffer c1) = 1500" "uc_op c1 \<noteq> None"
    using assms(1,2) r1(1,2,4) by (auto simp: uclient_inv_def)
  obtain o1 rx buf where rcv: "receive_from (cc_rx (uc_common c1)) (uc_buffer c1) = Inr (o1, rx, buf)"
    using r by (auto simp: uclient_receive_def)
  show ?thesis
  proof (cases o1)
    case None
    with rcv r assms(4) c1(1) show ?thesis by (auto simp: uclient_receive_def Let_def)
  next
    case (Some la)
    obtain n a where la: "la = (n, a)" by (cases la)
    let ?c = "c1\<lparr>uc_common := (uc_common c1)\<lparr>cc_rx := rx\<rparr>, uc_buffer := buf\<rparr>"
    from receive_from_Some [OF rcv [unfolded Some la]] obtain p where
      p: "p \<in> rx_payloads (cc_rx (uc_common c1))" "n = min (length p) (length (uc_buffer c1))"
      "take n buf = take n p" by metis
    have t: "take n buf = take 1500 p" using p(2,3) c1(2) by (auto simp: min_def)
    from r rcv Some la have ag: again and k: "uclient_on_packet X n ?c = Inr c'"
      by (auto simp: uclient_receive_def Let_def)
    from uclient_on_packet_Inr [OF k] assms(4) c1(1) obtain m where
      "bc_de_reply X (take n buf) = Some m" "rp_request_number m = uc_request_number c1"
      "c' = ?c\<lparr>uc_op := None, uc_result := Some (rp_result m), uc_resend_instant := default_instant\<rparr>"
      by auto
    with ag t p(1) r1(3,5) assms(4) show ?thesis
      by (auto simp: uclient_idle_def uclient_poll_at_def)
  qed
qed

theorem unreplicated_client_takes_matching_witness:
  "\<exists>c'. uclient_poll trip_ext (trip_time 1) (trip_time 2)
      (uclient_given trip_client (sample_addr 1) [0]) = Inr (True, c', []) \<and> uclient_idle c'"
proof -
  let ?c = "uclient_given trip_client (sample_addr 1) [0]"
  have inv: "uclient_inv trip_client" "uc_op trip_client = Some [7]"
    by (simp_all add: trip_client_def uclient_new_def uclient_inv_def)
  have "\<not> uc_resend_instant trip_client \<le> clock_now (trip_time 1) (cc_clock (uc_common trip_client))"
    "rp_request_number trip_reply = uc_request_number trip_client"
    by (simp_all add: trip_client_def uclient_new_def trip_reply_def reply_default_def
        trip_time_def from_millis_def sample_defs)
  with uclient_poll_reply [OF trip_ext_ok inv(1) _ trip_encode(2), of "trip_time 1" "trip_time 2"
      "sample_addr 1"] inv(2)
  obtain c' where p: "uclient_poll trip_ext (trip_time 1) (trip_time 2) ?c = Inr (True, c', [])"
    "uc_result c' = Some (rp_result trip_reply)" by auto
  have "uclient_inv ?c" "uc_op ?c \<noteq> None"
    using inv by (simp_all add: uclient_given_def uclient_inv_def)
  from unreplicated_client_takes_matching [OF this p] p(1) show ?thesis by blast
qed

text \<open>
  A client that has lost its request or the reply sends the request again: a poll sends a
  datagram exactly when a request is in flight and its resend time has come, and then it is the
  same request to the replica with a new deadline 10 ms after the time of sending.
\<close>
theorem unreplicated_client_resends:
  assumes "uclient_inv c" and "uclient_poll X t t' c = Inr (again, c', out)"
  shows "(case uc_op c of
      None \<Rightarrow> out = []
    | Some op \<Rightarrow>
        if due_time (uclient_poll_at c) \<le> enat (clock_time t (cc_clock (uc_common c)))
        then (\<exists>payload. bc_ser_request X (uclient_request c op) = Some payload \<and>
           out = [sent_by (cc_tx (uc_common c)) payload (tc_replica (cc_config (uc_common c)) ! 0)]) \<and>
          (uclient_idle c' \<or>
           uclient_poll_at c' = at_instant (clock_time t' (cc_clock (uc_common c)) + from_millis 10))
        else out = [])"
proof -
  from assms(2) obtain c1 where s: "uclient_resend X t t' c = Inr (c1, out)"
    and r: "uclient_receive X c1 = Inr (again, c')" by (rule uclient_poll_Inr)
  have keep: "uc_op c' = None \<or> uc_resend_instant c' = uc_resend_instant c1"
  proof -
    obtain o1 rx buf where "receive_from (cc_rx (uc_common c1)) (uc_buffer c1) = Inr (o1, rx, buf)"
      using r by (auto simp: uclient_receive_def)
    with r show ?thesis
      by (cases o1) (auto simp: uclient_receive_def Let_def dest!: uclient_on_packet_Inr)
  qed
  show ?thesis
  proof (cases "uc_op c")
    case None
    with assms(1) have "uc_resend_instant c = default_instant"
      by (cases rule: option_instant_cases [of "uc_resend_instant c"]) (auto simp: uclient_inv_def)
    with s None show ?thesis by (simp add: uclient_resend_def)
  next
    case (Some op)
    with assms(1) obtain u where u: "uc_resend_instant c = at_instant u"
      by (auto simp: uclient_inv_def less_default_instant_iff)
    with s Some keep show ?thesis
      by (auto simp: uclient_resend_def uclient_poll_at_def uclient_idle_def
          dest!: uclient_do_send_Inr split: if_splits)
  qed
qed

theorem unreplicated_client_resends_witness:
  "\<exists>c'. uclient_poll trip_ext (trip_time 15) (trip_time 16) trip_client =
     Inr (False, c', [Sim_Sent sample_client_addr (sample_addr 1) [0]])"
proof -
  have inv: "uclient_inv trip_client" by (simp add: trip_client_def uclient_new_def uclient_inv_def)
  obtain c' out where p: "uclient_poll trip_ext (trip_time 15) (trip_time 16) trip_client =
      Inr (False, c', out)"
    using trip_encode(1)
    by (auto simp: uclient_poll_def uclient_do_send_def trip_client_def uclient_new_def index_def
        trip_time_def from_millis_def sample_defs)
  have "uc_op trip_client = Some [7]" "uclient_request trip_client [7] = sample_request 1"
    "due_time (uclient_poll_at trip_client) \<le>
       enat (clock_time (trip_time 15) (cc_clock (uc_common trip_client)))"
    "cc_tx (uc_common trip_client) = Tx_Simulated sample_client_addr"
    "tc_replica (cc_config (uc_common trip_client)) ! 0 = sample_addr 1"
    by (simp_all add: trip_client_def uclient_new_def uclient_request_def uclient_poll_at_def
        trip_time_def from_millis_def sample_defs)
  with unreplicated_client_resends [OF inv p] p show ?thesis
    by (simp add: trip_encode sent_by_def)
qed

section \<open>Datagrams that stop the replica\<close>

fun ureplica_polls :: "externals \<Rightarrow> nat \<Rightarrow> ureplica \<Rightarrow> (ureplica \<times> sent list) res" where
  "ureplica_polls X 0 r = Inr (r, [])"
| "ureplica_polls X (Suc k) r =
     bind_res (ureplica_poll X r) (\<lambda>(again, r, out).
     bind_res (ureplica_polls X k r) (\<lambda>(r, out'). Inr (r, out @ out')))"

text \<open>Only the listening thread can fail when sending works.\<close>

lemma ureplica_poll_succeeds:
  assumes "unreplicated_ext_ok X" and "tx_ok X (ue_tx (ur_effect r))"
    and "ulisten_poll X (ur_listen r) = Inr (b, listen, requests)"
  shows "\<exists>again r' out. ureplica_poll X r = Inr (again, r', out) \<and> ur_listen r' = listen \<and>
    ur_effect r' = ur_effect r"
proof -
  obtain message messages where m: "chan_recv (ur_message_channel r @ requests) = (message, messages)"
    by (cases "chan_recv (ur_message_channel r @ requests)")
  obtain b2 main replies where u: "umain_poll message (ur_main r) = (b2, main, replies)"
    by (cases "umain_poll message (ur_main r)") auto
  obtain c effects where c: "chan_recv (ur_effect_channel r @ replies) = (c, effects)"
    by (cases "chan_recv (ur_effect_channel r @ replies)")
  have "\<exists>b3 out. ueffect_shared_poll X c (ur_effect r) = Inr (b3, out)"
  proof (cases c)
    case (Msg dm)
    obtain d rep where "dm = (d, rep)" by (cases dm)
    moreover obtain bytes where "bc_ser_reply X rep = Some bytes"
      using assms(1) by (auto simp: unreplicated_ext_ok_def elim!: codec_okD [of _ _ rep])
    ultimately show ?thesis using Msg send_to_ok [OF assms(2)] by (intro exI [of _ True]) simp
  qed (auto intro: exI [of _ False])
  with m u c assms(3) show ?thesis by (auto simp: ureplica_poll_def)
qed

text \<open>What a socket of a replica returns without harm.\<close>

fun harmless :: "externals \<Rightarrow> udp_recv \<Rightarrow> bool" where
  "harmless X (Udp_Packet p a) \<longleftrightarrow> bc_de_request X (take 1500 p) \<noteq> None"
| "harmless X Udp_Would_Block \<longleftrightarrow> True"
| "harmless X Udp_Error \<longleftrightarrow> False"

lemma ulisten_poll_harmless:
  assumes "ul_rx l = Rx_Udp (ev ## evs)" and "harmless X ev" and "length (ul_buffer l) = 1500"
    and "ul_to_main l"
  shows "\<exists>b l' requests. ulisten_poll X l = Inr (b, l', requests) \<and> ul_rx l' = Rx_Udp evs \<and>
    length (ul_buffer l') = 1500 \<and> ul_to_main l'"
  using assms by (cases ev) (auto simp: ulisten_poll_def Let_def min_def)

lemma ulisten_poll_undecodable:
  assumes "ul_rx l = Rx_Udp (Udp_Packet p a ## evs)" and "bc_de_request X (take 1500 p) = None"
    and "length (ul_buffer l) = 1500"
  shows "ulisten_poll X l = Inl Unwrap_Err"
  using assms by (auto simp: ulisten_poll_def Let_def min_def)

text \<open>
  C40. One datagram stops an unreplicated replica on its UDP socket, whatever state it is in: when
  sending works, the replica gets over everything that arrives before and decodes to a request, one
  poll for each outcome of the socket; the first datagram that does not decode, from anyone, makes
  the poll that receives it panic, on the unwrap in the listening thread, whatever comes after it.
  What does not fit into the buffer of 1500 bytes is cut, so this also stops it when it is
  the beginning of a longer request.
\<close>
theorem undecodable_datagram_stops_replica:
  assumes "unreplicated_ext_ok X" and "tx_ok X (ue_tx (ur_effect r))"
    and "length (ul_buffer (ur_listen r)) = 1500" and "ul_to_main (ur_listen r)"
    and "ul_rx (ur_listen r) = Rx_Udp (before @- Udp_Packet payload src ## after)"
    and "\<forall>ev \<in> set before. harmless X ev" and "bc_de_request X (take 1500 payload) = None"
  shows "(\<exists>r' out. ureplica_polls X (length before) r = Inr (r', out)) \<and>
    ureplica_polls X (Suc (length before)) r = Inl Unwrap_Err"
  using assms
proof (induction before arbitrary: r)
  case Nil
  then show ?case using ulisten_poll_undecodable [of "ur_listen r" payload src after X]
    by (simp add: ureplica_poll_def)
next
  case (Cons ev before)
  from ulisten_poll_harmless [of "ur_listen r" ev _ X] Cons.prems
  obtain b listen requests where l: "ulisten_poll X (ur_listen r) = Inr (b, listen, requests)"
    and l': "ul_rx listen = Rx_Udp (before @- Udp_Packet payload src ## after)"
      "length (ul_buffer listen) = 1500" "ul_to_main listen" by auto
  from ureplica_poll_succeeds [OF Cons.prems(1,2) l] obtain again r' out where
    p: "ureplica_poll X r = Inr (again, r', out)" "ur_listen r' = listen" "ur_effect r' = ur_effect r"
    by blast
  with Cons.IH [of r'] Cons.prems l' show ?case by auto
qed

definition trip_udp_common :: replica_common where
  "trip_udp_common = (sample_common 0)
     \<lparr>rc_tx := Tx_Udp, rc_rx := Rx_Udp (then_silent
        [Udp_Packet [0] sample_client_addr, Udp_Would_Block, Udp_Packet [9] sample_client_addr])\<rparr>"

theorem undecodable_datagram_stops_replica_witness:
  "(\<exists>r' out. ureplica_polls trip_ext 2 (ureplica_new trip_udp_common) = Inr (r', out)) \<and>
   ureplica_polls trip_ext 3 (ureplica_new trip_udp_common) = Inl Unwrap_Err"
proof -
  let ?before = "[Udp_Packet [0] sample_client_addr, Udp_Would_Block]"
  have ok: "unreplicated_ext_ok trip_ext" "tx_ok trip_ext tx" for tx
    unfolding trip_ext_def by (simp_all add: sample_unreplicated_ext_ok sample_tx_ok)
  have de: "bc_de_request trip_ext [0] \<noteq> None" "bc_de_request trip_ext [9] = None"
    by (simp_all add: trip_ext_def sample_ext_def untagged_def)
  have listen: "length (ul_buffer (ur_listen (ureplica_new trip_udp_common))) = 1500"
    "ul_to_main (ur_listen (ureplica_new trip_udp_common))" by (simp_all add: ureplica_new_def)
  have "ul_rx (ur_listen (ureplica_new trip_udp_common)) =
      Rx_Udp (?before @- Udp_Packet [9] sample_client_addr ## sconst Udp_Would_Block)"
    by (simp add: ureplica_new_def trip_udp_common_def then_silent_def)
  from undecodable_datagram_stops_replica [OF ok listen this] de
  have "(\<exists>r' out. ureplica_polls trip_ext (length ?before) (ureplica_new trip_udp_common) = Inr (r', out)) \<and>
      ureplica_polls trip_ext (Suc (length ?before)) (ureplica_new trip_udp_common) = Inl Unwrap_Err"
    by (simp del: ureplica_polls.simps)
  moreover have "length ?before = 2" "Suc (length ?before) = 3" by simp_all
  ultimately show ?thesis by (simp only:)
qed

end
