(* ===== verification/Pbft_Client.thy ===== *)
theory Pbft_Client
  imports Client_Interface
begin

text \<open>
  The client of \<open>src/pbft.rs\<close>.  It sends its request to the primary of the view it last heard
  of and takes a result once \<open>f + 1\<close> different replica numbers have answered.  Its contract
  as a \<open>ClientState\<close> rests on an invariant about the map of answers.
\<close>

section \<open>Definitions\<close>

record pclient =
  pc_common :: client_common
  pc_request_number :: u32
  pc_op :: "bytes option"
  pc_results :: "u8 \<rightharpoonup> bytes"
  pc_committed_result :: "bytes option"
  pc_resend_instant :: option_instant
  pc_view_number :: u8
  pc_buffer :: bytes

definition pclient_new :: "client_common \<Rightarrow> pclient" where
  "pclient_new common =
     \<lparr>pc_common = common, pc_request_number = 0, pc_op = None, pc_results = Map.empty,
      pc_committed_result = None, pc_resend_instant = default_instant, pc_view_number = 0,
      pc_buffer = replicate 1500 0\<rparr>"

definition pclient_do_send ::
  "externals \<Rightarrow> time_env \<Rightarrow> pclient \<Rightarrow> (pclient \<times> sent list) res" where
  "pclient_do_send X t c =
     bind_res (unwrap (pc_op c)) (\<lambda>op.
     let request = \<lparr>rq_client_id = cc_id (pc_common c),
                    rq_request_number = pc_request_number c,
                    rq_op = op,
                    rq_addr = cc_rx_addr (pc_common c)\<rparr> in
     bind_res (unwrap_ok (bc_ser_to_replica X (Request request))) (\<lambda>payload.
     bind_res (rem_usize (unat (pc_view_number c)) (tc_n (cc_config (pc_common c)))) (\<lambda>i.
     bind_res (index (tc_replica (cc_config (pc_common c))) i) (\<lambda>dest.
     bind_res (send_to X (cc_tx (pc_common c)) payload dest) (\<lambda>(_, s).
     bind_res (clock_after t (cc_clock (pc_common c)) (from_millis 50)) (\<lambda>due.
     Inr (c\<lparr>pc_resend_instant := due\<rparr>, [s])))))))"

definition pclient_invoke ::
  "externals \<Rightarrow> time_env \<Rightarrow> bytes \<Rightarrow> pclient \<Rightarrow> (pclient \<times> sent list) res" where
  "pclient_invoke X t op c =
     (if pc_op c \<noteq> None then Inl Assert_Failed
      else pclient_do_send X t
             (c\<lparr>pc_request_number := pc_request_number c + 1, pc_op := Some op,
                pc_committed_result := None\<rparr>))"

definition pclient_take_result :: "pclient \<Rightarrow> bytes option \<times> pclient" where
  "pclient_take_result c = (pc_committed_result c, c\<lparr>pc_committed_result := None\<rparr>)"

definition pclient_poll_at :: "pclient \<Rightarrow> option_instant" where
  "pclient_poll_at c = pc_resend_instant c"

text \<open>
  The body of the block \<open>'rx\<close>.  \<open>results.drain().next()\<close> yields the entry an iteration of
  the map finds first and leaves the map empty.
\<close>

definition pclient_insert :: "reply \<Rightarrow> pclient \<Rightarrow> u8 \<rightharpoonup> bytes" where
  "pclient_insert message c = (pc_results c)(rp_replica_id message \<mapsto> rp_result message)"

definition pclient_on_packet :: "externals \<Rightarrow> usize \<Rightarrow> pclient \<Rightarrow> pclient res" where
  "pclient_on_packet X len c =
     (if pc_op c = None then Inr c
      else bind_res (unwrap_ok (bc_de_reply X (take len (pc_buffer c)))) (\<lambda>message.
        if rp_request_number message \<noteq> pc_request_number c then Inr c
        else
          let results = pclient_insert message c in
          if hm_len results > tc_f (cc_config (pc_common c))
          then bind_res (unwrap (results (hm_first X results))) (\<lambda>result.
            Inr (c\<lparr>pc_results := Map.empty, pc_committed_result := Some result,
                   pc_view_number := rp_view_number message, pc_op := None,
                   pc_resend_instant := default_instant\<rparr>))
          else Inr (c\<lparr>pc_results := results\<rparr>)))"

definition pclient_poll ::
  "externals \<Rightarrow> time_env \<Rightarrow> time_env \<Rightarrow> pclient \<Rightarrow> (bool \<times> pclient \<times> sent list) res" where
  "pclient_poll X t t' c =
     bind_res (if pc_resend_instant c \<le> clock_now t (cc_clock (pc_common c))
               then pclient_do_send X t' c else Inr (c, [])) (\<lambda>(c, out).
     bind_res (receive_from (cc_rx (pc_common c)) (pc_buffer c)) (\<lambda>(r, rx, buffer).
     let c = c\<lparr>pc_common := (pc_common c)\<lparr>cc_rx := rx\<rparr>, pc_buffer := buffer\<rparr> in
     case r of
       None \<Rightarrow> Inr (False, c, out)
     | Some (len, _) \<Rightarrow> bind_res (pclient_on_packet X len c) (\<lambda>c. Inr (True, c, out))))"

section \<open>The contract\<close>

definition pclient_inv :: "pclient \<Rightarrow> bool" where
  "pclient_inv c \<longleftrightarrow>
     (pc_resend_instant c < default_instant \<longleftrightarrow> pc_op c \<noteq> None) \<and>
     (pc_committed_result c \<noteq> None \<longrightarrow> pc_op c = None) \<and>
     (pc_op c = None \<longrightarrow> pc_results c = Map.empty) \<and>
     hm_len (pc_results c) \<le> tc_f (cc_config (pc_common c)) \<and>
     length (pc_buffer c) = 1500"

definition pclient_idle :: "pclient \<Rightarrow> bool" where
  "pclient_idle c \<longleftrightarrow> pc_op c = None"

definition pclient_pending :: "pclient \<Rightarrow> enat" where
  "pclient_pending c = rx_pending (cc_rx (pc_common c))"

definition pclient_request :: "pclient \<Rightarrow> bytes \<Rightarrow> request" where
  "pclient_request c op =
     \<lparr>rq_client_id = cc_id (pc_common c), rq_request_number = pc_request_number c, rq_op = op,
      rq_addr = cc_rx_addr (pc_common c)\<rparr>"

text \<open>The replica a client takes for the primary.\<close>

definition pclient_primary :: "pclient \<Rightarrow> nat" where
  "pclient_primary c = unat (pc_view_number c) mod tc_n (cc_config (pc_common c))"

lemma pclient_inv_new: "pclient_inv (pclient_new common)"
  by (simp add: pclient_inv_def pclient_new_def)

lemma pclient_do_send_Inr:
  assumes "pclient_do_send X t c = Inr (c', out)"
  shows "\<exists>op payload. pc_op c = Some op \<and>
    bc_ser_to_replica X (Request (pclient_request c op)) = Some payload \<and>
    pclient_primary c < length (tc_replica (cc_config (pc_common c))) \<and>
    out = [sent_by (cc_tx (pc_common c)) payload
             (tc_replica (cc_config (pc_common c)) ! pclient_primary c)] \<and>
    c' = c\<lparr>pc_resend_instant :=
           at_instant (clock_time t (cc_clock (pc_common c)) + from_millis 50)\<rparr>"
  using assms
  by (auto simp: pclient_do_send_def pclient_request_def pclient_primary_def rem_usize_def Let_def
      split: if_splits)

lemma pclient_do_send_ok:
  assumes "pc_op c = Some op"
    and "bc_ser_to_replica X (Request (pclient_request c op)) = Some payload"
    and "0 < tc_n (cc_config (pc_common c))"
    and "pclient_primary c < length (tc_replica (cc_config (pc_common c)))"
    and "tx_ok X (cc_tx (pc_common c))"
  shows "pclient_do_send X t c =
    Inr (c\<lparr>pc_resend_instant :=
             at_instant (clock_time t (cc_clock (pc_common c)) + from_millis 50)\<rparr>,
         [sent_by (cc_tx (pc_common c)) payload
            (tc_replica (cc_config (pc_common c)) ! pclient_primary c)])"
  using assms
  by (simp add: pclient_do_send_def pclient_request_def pclient_primary_def rem_usize_def Let_def
      index_ok send_to_ok)

lemma pclient_on_packet_Inr:
  assumes "pclient_on_packet X len c = Inr c'" and "c' \<noteq> c"
  obtains message where "bc_de_reply X (take len (pc_buffer c)) = Some message"
    and "rp_request_number message = pc_request_number c" and "pc_op c \<noteq> None"
    and "hm_len (pclient_insert message c) \<le> tc_f (cc_config (pc_common c))"
    and "c' = c\<lparr>pc_results := pclient_insert message c\<rparr>"
  | message result where "bc_de_reply X (take len (pc_buffer c)) = Some message"
    and "rp_request_number message = pc_request_number c" and "pc_op c \<noteq> None"
    and "hm_len (pclient_insert message c) > tc_f (cc_config (pc_common c))"
    and "pclient_insert message c (hm_first X (pclient_insert message c)) = Some result"
    and "c' = c\<lparr>pc_results := Map.empty, pc_committed_result := Some result,
                pc_view_number := rp_view_number message, pc_op := None,
                pc_resend_instant := default_instant\<rparr>"
  using assms by (auto simp: pclient_on_packet_def Let_def not_less split: if_splits)

definition pclient_resend ::
  "externals \<Rightarrow> time_env \<Rightarrow> time_env \<Rightarrow> pclient \<Rightarrow> (pclient \<times> sent list) res" where
  "pclient_resend X t t' c =
     (if pc_resend_instant c \<le> clock_now t (cc_clock (pc_common c))
      then pclient_do_send X t' c else Inr (c, []))"

definition pclient_receive :: "externals \<Rightarrow> pclient \<Rightarrow> (bool \<times> pclient) res" where
  "pclient_receive X c =
     bind_res (receive_from (cc_rx (pc_common c)) (pc_buffer c)) (\<lambda>(r, rx, buffer).
     let c = c\<lparr>pc_common := (pc_common c)\<lparr>cc_rx := rx\<rparr>, pc_buffer := buffer\<rparr> in
     case r of
       None \<Rightarrow> Inr (False, c)
     | Some (len, _) \<Rightarrow> bind_res (pclient_on_packet X len c) (\<lambda>c. Inr (True, c)))"

lemma pclient_poll_split:
  "pclient_poll X t t' c =
     bind_res (pclient_resend X t t' c) (\<lambda>(c, out).
     bind_res (pclient_receive X c) (\<lambda>(again, c). Inr (again, c, out)))"
  by (auto simp: pclient_poll_def pclient_resend_def pclient_receive_def bind_res_def Let_def
      split: sum.splits option.splits prod.splits if_splits)

lemma pclient_poll_Inr:
  assumes "pclient_poll X t t' c = Inr (again, c', out)"
  obtains c1 where "pclient_resend X t t' c = Inr (c1, out)"
    and "pclient_receive X c1 = Inr (again, c')"
  using assms by (auto simp: pclient_poll_split)

lemma pclient_resend_Inr:
  assumes "pclient_resend X t t' c = Inr (c', out)"
  shows "pc_op c' = pc_op c" "pc_committed_result c' = pc_committed_result c"
    "pc_common c' = pc_common c" "pc_results c' = pc_results c" "pc_buffer c' = pc_buffer c"
    "pc_request_number c' = pc_request_number c" "pc_view_number c' = pc_view_number c"
    "pclient_inv c \<Longrightarrow> pclient_inv c'"
  using assms
  by (auto simp: pclient_resend_def pclient_inv_def split: if_splits dest!: pclient_do_send_Inr)

lemma pclient_on_packet_inv:
  "pclient_on_packet X len c = Inr c' \<Longrightarrow> pclient_inv c \<Longrightarrow> pclient_inv c'"
  by (cases "c' = c") (auto elim!: pclient_on_packet_Inr simp: pclient_inv_def)

lemma pclient_on_packet_common:
  "pclient_on_packet X len c = Inr c' \<Longrightarrow> pc_common c' = pc_common c"
  by (cases "c' = c") (auto elim!: pclient_on_packet_Inr)

lemma pclient_receive_Inr:
  assumes "pclient_receive X c = Inr (again, c')"
  shows "(pclient_inv c \<longrightarrow> pclient_inv c') \<and>
    (again \<longrightarrow> pclient_pending c = eSuc (pclient_pending c')) \<and>
    (\<not> again \<longrightarrow> pclient_pending c = 0 \<and> pc_op c' = pc_op c \<and>
       pc_committed_result c' = pc_committed_result c)"
proof -
  let ?upd = "\<lambda>rx buf. c\<lparr>pc_common := (pc_common c)\<lparr>cc_rx := rx\<rparr>, pc_buffer := buf\<rparr>"
  from assms obtain r rx buf where
    r: "receive_from (cc_rx (pc_common c)) (pc_buffer c) = Inr (r, rx, buf)"
    and rest: "(case r of None \<Rightarrow> Inr (False, ?upd rx buf)
      | Some (len, _) \<Rightarrow> bind_res (pclient_on_packet X len (?upd rx buf)) (\<lambda>c. Inr (True, c)))
      = Inr (again, c')"
    by (auto simp: pclient_receive_def Let_def)
  show ?thesis
  proof (cases r)
    case None
    with rest receive_from_None [OF r [unfolded None]] show ?thesis
      by (auto simp: pclient_inv_def pclient_pending_def)
  next
    case (Some la)
    obtain len a where la: "la = (len, a)" by (cases la)
    from receive_from_Some [OF r [unfolded Some la]]
    have len: "length buf = length (pc_buffer c)"
      and pend: "rx_pending (cc_rx (pc_common c)) = eSuc (rx_pending rx)" by blast+
    from rest Some la have again and p: "pclient_on_packet X len (?upd rx buf) = Inr c'"
      by auto
    with len pend pclient_on_packet_inv [OF p] pclient_on_packet_common [OF p] show ?thesis
      by (auto simp: pclient_inv_def pclient_pending_def)
  qed
qed

lemma pclient_on_packet_completes:
  "pclient_on_packet X len c = Inr c' \<Longrightarrow> pc_op c \<noteq> None \<Longrightarrow> pc_op c' = None \<Longrightarrow>
     pc_committed_result c' \<noteq> None"
  by (cases "c' = c") (auto elim!: pclient_on_packet_Inr)

lemma pclient_receive_completes:
  "pclient_receive X c = Inr (again, c') \<Longrightarrow> pc_op c \<noteq> None \<Longrightarrow> pc_op c' = None \<Longrightarrow>
     pc_committed_result c' \<noteq> None"
  by (auto simp: pclient_receive_def Let_def split: option.splits dest!: pclient_on_packet_completes)

interpretation pc: client_state "pclient_invoke X" pclient_take_result pclient_poll_at
  "pclient_poll X" pclient_inv pclient_idle pclient_pending for X
proof (unfold_locales, goal_cases)
  case (2 c t op c' out)
  then show ?case
    by (auto simp: pclient_invoke_def pclient_inv_def split: if_splits dest!: pclient_do_send_Inr)
next
  case (11 c t t' again c' out)
  then show ?case
    by (auto elim!: pclient_poll_Inr dest!: pclient_resend_Inr(8) pclient_receive_Inr)
next
  case (12 t t' c c' out)
  then obtain c1 where "pclient_resend X t t' c = Inr (c1, out)"
    "pclient_receive X c1 = Inr (True, c')" by (rule pclient_poll_Inr)
  with pclient_resend_Inr(3) [OF this(1)] pclient_receive_Inr [OF this(2)]
  show ?case by (simp add: pclient_pending_def)
next
  case (13 t t' c c' out)
  then obtain c1 where "pclient_resend X t t' c = Inr (c1, out)"
    "pclient_receive X c1 = Inr (False, c')" by (rule pclient_poll_Inr)
  with pclient_resend_Inr(1,2,3) [OF this(1)] pclient_receive_Inr [OF this(2)]
  show ?case by (simp add: pclient_pending_def pclient_idle_def pclient_take_result_def)
next
  case (15 t t' c again c' out)
  then obtain c1 where "pclient_resend X t t' c = Inr (c1, out)"
    "pclient_receive X c1 = Inr (again, c')" by - (rule pclient_poll_Inr)
  with 15(2,3) pclient_resend_Inr(1) [OF this(1)] pclient_receive_completes [OF this(2)]
  show ?case by (simp add: pclient_idle_def pclient_take_result_def)
qed (auto simp: pclient_invoke_def pclient_idle_def pclient_take_result_def pclient_inv_def
    pclient_poll_at_def pclient_pending_def split: if_splits dest!: pclient_do_send_Inr)

end
