(* ===== verification/Pbft_Client_Properties.thy ===== *)
theory Pbft_Client_Properties
  imports Pbft_Client Samples
begin

text \<open>
  The properties of the client of \<open>src/pbft.rs\<close>: when it takes a result, what it sends and
  when, and when its poll succeeds.
\<close>

section \<open>The answers to a request\<close>

text \<open>The answer to the request in flight that the next poll reads, if it reads one.\<close>

definition pclient_answer :: "externals \<Rightarrow> bytes \<Rightarrow> bytes option \<Rightarrow> u32 \<Rightarrow> reply list" where
  "pclient_answer X b op request_number =
     (case bc_de_reply X b of
        Some m \<Rightarrow> if op \<noteq> None \<and> rp_request_number m = request_number then [m] else []
      | None \<Rightarrow> [])"

definition pclient_heard :: "externals \<Rightarrow> pclient \<Rightarrow> reply list" where
  "pclient_heard X c =
     (case receive_from (cc_rx (pc_common c)) (pc_buffer c) of
        Inr (Some (len, a), rx, buf) \<Rightarrow>
          pclient_answer X (take len buf) (pc_op c) (pc_request_number c)
      | _ \<Rightarrow> [])"

text \<open>
  The states of a client since its last \<open>invoke\<close>, with the answers it has read: polls, and
  arrivals of datagrams in between.
\<close>

inductive pclient_since :: "externals \<Rightarrow> pclient \<Rightarrow> reply list \<Rightarrow> bool" for X where
  since_invoke: "pclient_inv c \<Longrightarrow> pclient_invoke X t op c = Inr (c', out) \<Longrightarrow> pclient_since X c' []"
| since_poll: "pclient_since X c hs \<Longrightarrow> pclient_poll X t t' c = Inr (again, c', out) \<Longrightarrow>
     pclient_since X c' (hs @ pclient_heard X c)"
| since_arrive: "pclient_since X c hs \<Longrightarrow>
     pclient_since X (c\<lparr>pc_common := (pc_common c)\<lparr>cc_rx := rx\<rparr>\<rparr>) hs"

definition answers :: "reply list \<Rightarrow> u8 \<rightharpoonup> bytes" where
  "answers hs = map_of (map (\<lambda>m. (rp_replica_id m, rp_result m)) (rev hs))"

lemma answers_append [simp]: "answers (hs @ [m]) = (answers hs)(rp_replica_id m \<mapsto> rp_result m)"
  by (simp add: answers_def)

lemma answers_empty [simp]: "answers [] = Map.empty"
  by (simp add: answers_def)

lemma dom_answers: "dom (answers hs) = rp_replica_id ` set hs"
  by (simp add: answers_def dom_map_of_conv_image_fst image_image)

lemma answers_SomeD: "answers hs i = Some r \<Longrightarrow> \<exists>m \<in> set hs. rp_replica_id m = i \<and> rp_result m = r"
  by (auto simp: answers_def dest!: map_of_SomeD)

definition pclient_answered :: "pclient \<Rightarrow> reply list \<Rightarrow> bool" where
  "pclient_answered c hs \<longleftrightarrow> pclient_inv c \<and>
     (\<forall>m \<in> set hs. rp_request_number m = pc_request_number c) \<and>
     (pc_op c \<noteq> None \<longrightarrow> pc_results c = answers hs) \<and>
     (pc_op c = None \<longrightarrow> tc_f (cc_config (pc_common c)) < card (rp_replica_id ` set hs)) \<and>
     (\<forall>res. pc_committed_result c = Some res \<longrightarrow> (\<exists>m \<in> set hs. rp_result m = res))"

lemma pclient_on_packet_answered:
  assumes "pclient_on_packet X len c = Inr c'" and "pclient_answered c hs"
    and "hs' = pclient_answer X (take len (pc_buffer c)) (pc_op c) (pc_request_number c)"
  shows "pclient_answered c' (hs @ hs')"
proof (cases "hs' = []")
  case True
  with assms(1,3) have "c' = c"
    by (auto simp: pclient_on_packet_def pclient_answer_def split: option.splits if_splits)
  with True assms(2) show ?thesis by simp
next
  case False
  with assms(3) obtain m where m: "bc_de_reply X (take len (pc_buffer c)) = Some m"
    "pc_op c \<noteq> None" "rp_request_number m = pc_request_number c" "hs' = [m]"
    by (auto simp: pclient_answer_def split: option.splits if_splits)
  have ins: "pclient_insert m c = answers (hs @ hs')"
    using assms(2) m by (simp add: pclient_insert_def pclient_answered_def)
  have card: "hm_len (answers (hs @ hs')) = card (rp_replica_id ` set (hs @ hs'))"
    by (simp only: hm_len_def dom_answers)
  have old: "pclient_inv c" "\<forall>m \<in> set hs. rp_request_number m = pc_request_number c"
    "pc_committed_result c = None"
    using assms(2) m(2) by (auto simp: pclient_answered_def pclient_inv_def)
  show ?thesis
  proof (cases "hm_len (answers (hs @ hs')) \<le> tc_f (cc_config (pc_common c))")
    case True
    with assms(1) m ins have "c' = c\<lparr>pc_results := answers (hs @ hs')\<rparr>"
      by (simp add: pclient_on_packet_def Let_def)
    with True old m(2-4) show ?thesis
      by (auto simp: pclient_answered_def pclient_inv_def simp del: answers_append)
  next
    case False
    with assms(1) m ins obtain result where
      r: "answers (hs @ hs') (hm_first X (answers (hs @ hs'))) = Some result"
      and c': "c' = c\<lparr>pc_results := Map.empty, pc_committed_result := Some result,
                   pc_view_number := rp_view_number m, pc_op := None,
                   pc_resend_instant := default_instant\<rparr>"
      by (auto simp: pclient_on_packet_def Let_def simp del: answers_append)
    have "pclient_inv c'"
      using old(1) by (simp add: c' pclient_inv_def)
    with answers_SomeD [OF r] False card old(2) m(3,4) show ?thesis
      by (auto simp: pclient_answered_def c' simp del: answers_append)
  qed
qed

lemma pclient_heard_resend:
  assumes "pclient_resend X t t' c = Inr (c', out)"
  shows "pclient_heard X c' = pclient_heard X c"
  unfolding pclient_heard_def pclient_resend_Inr(1,3,5,6) [OF assms] ..

lemma pclient_answered_frame:
  "pclient_answered c hs \<Longrightarrow> pclient_inv c' \<Longrightarrow> pc_op c' = pc_op c \<Longrightarrow>
   pc_results c' = pc_results c \<Longrightarrow> pc_committed_result c' = pc_committed_result c \<Longrightarrow>
   pc_request_number c' = pc_request_number c \<Longrightarrow>
   cc_config (pc_common c') = cc_config (pc_common c) \<Longrightarrow> pclient_answered c' hs"
  by (simp add: pclient_answered_def)

lemma pclient_receive_answered:
  assumes "pclient_receive X c = Inr (again, c')" and "pclient_answered c hs"
  shows "pclient_answered c' (hs @ pclient_heard X c)"
proof -
  let ?upd = "\<lambda>rx buf. c\<lparr>pc_common := (pc_common c)\<lparr>cc_rx := rx\<rparr>, pc_buffer := buf\<rparr>"
  from assms(1) obtain r rx buf where
    r: "receive_from (cc_rx (pc_common c)) (pc_buffer c) = Inr (r, rx, buf)"
    by (auto simp: pclient_receive_def)
  have "length buf = length (pc_buffer c)"
    using r receive_from_None [of _ _ rx buf] by (cases r) (auto elim: receive_from_Some)
  with assms(2) have u: "pclient_answered (?upd rx buf) hs"
    by (auto simp: pclient_answered_def pclient_inv_def)
  show ?thesis
  proof (cases r)
    case None
    with assms(1) r u show ?thesis
      by (auto simp: pclient_receive_def pclient_heard_def Let_def)
  next
    case (Some la)
    obtain len a where la: "la = (len, a)" by (cases la)
    from assms(1) r Some la have p: "pclient_on_packet X len (?upd rx buf) = Inr c'"
      by (auto simp: pclient_receive_def Let_def)
    from pclient_on_packet_answered [OF p u refl] r Some la show ?thesis
      by (simp add: pclient_heard_def)
  qed
qed

lemma pclient_since_answered:
  assumes "pclient_since X c hs"
  shows "pclient_answered c hs"
  using assms
proof induction
  case (since_invoke c t op c' out)
  then show ?case
    by (auto simp: pclient_invoke_def pclient_answered_def pclient_inv_def split: if_splits
        dest!: pclient_do_send_Inr)
next
  case (since_poll c hs t t' again c' out)
  from since_poll.hyps(2) obtain c1 where s: "pclient_resend X t t' c = Inr (c1, out)"
    and r: "pclient_receive X c1 = Inr (again, c')" by (rule pclient_poll_Inr)
  have "pclient_answered c1 hs"
    using since_poll.IH pclient_resend_Inr [OF s]
    by (intro pclient_answered_frame [OF since_poll.IH]) (auto simp: pclient_answered_def)
  from pclient_receive_answered [OF r this] show ?case
    by (simp add: pclient_heard_resend [OF s])
next
  case (since_arrive c hs rx)
  then show ?case by (simp add: pclient_answered_def pclient_inv_def)
qed

text \<open>
  C28. A client takes a result only after answers to its current request from more than f
  different replica numbers, and the result is that of one of these answers; while the request
  is in flight at most f different numbers have answered.
\<close>
theorem client_result_needs_answers:
  assumes "pclient_since X c hs"
  shows "(\<forall>m \<in> set hs. rp_request_number m = pc_request_number c) \<and>
    (if pclient_idle c then tc_f (cc_config (pc_common c)) < card (rp_replica_id ` set hs)
     else card (rp_replica_id ` set hs) \<le> tc_f (cc_config (pc_common c))) \<and>
    (case fst (pclient_take_result c) of
       None \<Rightarrow> True | Some res \<Rightarrow> pclient_idle c \<and> (\<exists>m \<in> set hs. rp_result m = res))"
proof -
  have a: "pclient_answered c hs" by (rule pclient_since_answered [OF assms])
  have "card (rp_replica_id ` set hs) = hm_len (answers hs)"
    by (simp add: hm_len_def dom_answers)
  with a show ?thesis
    by (auto simp: pclient_answered_def pclient_idle_def pclient_take_result_def pclient_inv_def
        split: option.splits)
qed

section \<open>A client and two answers\<close>

text \<open>Two replicas answer the request of a client with different results.\<close>

definition duo_reply :: "u8 \<Rightarrow> reply" where
  "duo_reply i =
     \<lparr>rp_request_number = 1, rp_result = [i], rp_replica_id = i, rp_view_number = 0\<rparr>"

definition duo_ext :: externals where
  "duo_ext = sample_ext [] [duo_reply 2, duo_reply 3] []"

definition duo_time :: "nat \<Rightarrow> time_env" where
  "duo_time n = \<lparr>te_now = 0, te_elapsed = from_millis n\<rparr>"

definition duo_client :: "bytes option \<Rightarrow> (u8 \<rightharpoonup> bytes) \<Rightarrow> bytes option \<Rightarrow> u8 list \<Rightarrow> u8 list \<Rightarrow> pclient" where
  "duo_client op results res ns buf =
     \<lparr>pc_common = sample_client_common
        \<lparr>cc_rx := Rx_Simulated (map (\<lambda>b. (sample_addr 2, [b])) ns) True\<rparr>,
      pc_request_number = 1, pc_op = op, pc_results = results, pc_committed_result = res,
      pc_resend_instant = (if op = None then default_instant else at_instant (from_millis 50)),
      pc_view_number = 0, pc_buffer = buf\<rparr>"

lemma duo_decode:
  "bc_de_reply duo_ext (0 # r) = Some (duo_reply 2)" "bc_de_reply duo_ext (1 # r) = Some (duo_reply 3)"
  by (simp_all add: duo_ext_def sample_ext_def untagged_def)

lemma duo_invoke:
  "\<exists>out. pclient_invoke duo_ext (duo_time 0) [7] (pclient_new sample_client_common) =
     Inr (duo_client (Some [7]) Map.empty None [] (replicate 1500 0), out)"
  by (simp add: pclient_invoke_def pclient_do_send_def pclient_new_def rem_usize_def index_def
      duo_client_def duo_time_def from_millis_def sample_defs duo_ext_def sample_ext_def sent_by_def)

lemma duo_arrive:
  "pclient_since duo_ext (duo_client (Some [7]) Map.empty None [0, 1] (replicate 1500 0)) []"
proof -
  from duo_invoke since_invoke [OF pclient_inv_new]
  have "pclient_since duo_ext (duo_client (Some [7]) Map.empty None [] (replicate 1500 0)) []"
    by blast
  from since_arrive [OF this, of "Rx_Simulated (map (\<lambda>b. (sample_addr 2, [b])) [0, 1]) True"]
  show ?thesis by (simp add: duo_client_def)
qed

lemma replicate_1500: "replicate 1500 (0 :: u8) = 0 # replicate 1499 0"
  using replicate_Suc [of 1499 "0 :: u8"] by simp

lemma least_key_two:
  "least_key [2 \<mapsto> a, 3 \<mapsto> b] = 2"
proof -
  have "[0..<256] = [0, 1, 2] @ [3..<256]" by (simp add: upt_conv_Cons)
  then show ?thesis by (simp add: least_key_def)
qed

lemma duo_poll_1:
  "pclient_poll duo_ext (duo_time 1) (duo_time 1)
     (duo_client (Some [7]) Map.empty None [0, 1] (0 # replicate 1499 0)) =
   Inr (True, duo_client (Some [7]) [2 \<mapsto> [2]] None [1] (0 # replicate 1499 0), [])"
  by (simp add: pclient_poll_def duo_client_def duo_time_def from_millis_def sample_defs
      pclient_on_packet_def duo_decode pclient_insert_def Let_def duo_reply_def)

lemma duo_poll_2:
  "pclient_poll duo_ext (duo_time 2) (duo_time 2)
     (duo_client (Some [7]) [2 \<mapsto> [2]] None [1] (0 # replicate 1499 0)) =
   Inr (True, duo_client None Map.empty (Some [2]) [] (1 # replicate 1499 0), [])"
proof -
  have "hm_first duo_ext = least_key" by (simp add: duo_ext_def sample_ext_def)
  then show ?thesis
    by (simp add: pclient_poll_def duo_client_def duo_time_def from_millis_def sample_defs
        pclient_on_packet_def duo_decode pclient_insert_def Let_def duo_reply_def least_key_two)
qed

lemma duo_since:
  "pclient_since duo_ext (duo_client None Map.empty (Some [2]) [] (1 # replicate 1499 0))
     [duo_reply 2, duo_reply 3]"
proof -
  have 1: "pclient_heard duo_ext (duo_client (Some [7]) Map.empty None [0, 1] (0 # replicate 1499 0)) =
      [duo_reply 2]"
    and 2: "pclient_heard duo_ext (duo_client (Some [7]) [2 \<mapsto> [2]] None [1] (0 # replicate 1499 0)) =
      [duo_reply 3]"
    by (simp_all add: pclient_heard_def duo_client_def pclient_answer_def duo_decode sample_defs)
      (simp_all add: duo_reply_def)
  from since_poll [OF since_poll [OF duo_arrive [unfolded replicate_1500] duo_poll_1] duo_poll_2]
  show ?thesis by (simp add: 1 2)
qed

theorem client_result_needs_answers_witness:
  "1 < card (rp_replica_id ` set [duo_reply 2, duo_reply 3]) \<and>
   (\<exists>m \<in> set [duo_reply 2, duo_reply 3]. rp_result m = [2])"
  using client_result_needs_answers [OF duo_since]
  by (simp add: pclient_idle_def pclient_take_result_def duo_client_def sample_defs)

text \<open>
  C38. The answers need not agree: with f = 1 a client that has read two answers with different
  results takes the result of one of them, although no two replicas vouch for it. Answers are
  not signed, so the numbers in them prove nothing either.
\<close>
theorem client_takes_unmatched_result:
  "\<exists>c hs. pclient_since duo_ext c hs \<and> tc_f (cc_config (pc_common c)) = 1 \<and>
     fst (pclient_take_result c) = Some [2] \<and>
     card {m \<in> set hs. rp_result m = [2]} = 1 \<and> (\<exists>m \<in> set hs. rp_result m \<noteq> [2])"
proof -
  have "{m \<in> set [duo_reply 2, duo_reply 3]. rp_result m = [2]} = {duo_reply 2}"
    by (auto simp: duo_reply_def)
  with duo_since show ?thesis
    by (intro exI [of _ "duo_client None Map.empty (Some [2]) [] (1 # replicate 1499 0)"]
        exI [of _ "[duo_reply 2, duo_reply 3]"])
       (simp add: pclient_take_result_def duo_client_def sample_defs duo_reply_def)
qed

section \<open>Sending and polling\<close>

text \<open>
  A poll of a client sends a datagram exactly when a request is in flight and its resend
  time has come: one datagram with the request to the replica the client takes for the primary.
\<close>
theorem client_resends_when_due:
  assumes "pclient_inv c" and "pclient_poll X t t' c = Inr (again, c', out)"
  shows "(case pc_op c of
      None \<Rightarrow> out = []
    | Some op \<Rightarrow>
        if due_time (pclient_poll_at c) \<le> enat (clock_time t (cc_clock (pc_common c)))
        then \<exists>payload. bc_ser_to_replica X (Request (pclient_request c op)) = Some payload \<and>
          out = [sent_by (cc_tx (pc_common c)) payload
                   (tc_replica (cc_config (pc_common c)) ! pclient_primary c)]
        else out = [])"
proof -
  from assms(2) obtain c1 where s: "pclient_resend X t t' c = Inr (c1, out)"
    by (rule pclient_poll_Inr)
  show ?thesis
  proof (cases "pc_op c")
    case None
    with assms(1) have "pc_resend_instant c = default_instant"
      by (cases rule: option_instant_cases [of "pc_resend_instant c"]) (auto simp: pclient_inv_def)
    with s None show ?thesis by (simp add: pclient_resend_def)
  next
    case (Some op)
    with assms(1) obtain u where u: "pc_resend_instant c = at_instant u"
      by (auto simp: pclient_inv_def less_default_instant_iff)
    with s Some show ?thesis
      by (auto simp: pclient_resend_def pclient_poll_at_def dest!: pclient_do_send_Inr
          split: if_splits)
  qed
qed

theorem client_resends_when_due_witness:
  "\<exists>payload. bc_ser_to_replica duo_ext (Request (sample_request 1)) = Some payload \<and>
     (\<exists>again c'. pclient_poll duo_ext (duo_time 60) (duo_time 61)
        (duo_client (Some [7]) Map.empty None [] (0 # replicate 1499 0)) =
        Inr (again, c', [Sim_Sent sample_client_addr (sample_addr 1) payload]))"
proof -
  let ?c = "duo_client (Some [7]) Map.empty None [] (0 # replicate 1499 0)"
  have inv: "pclient_inv ?c" by (simp add: pclient_inv_def duo_client_def sample_defs)
  obtain again c' out where p: "pclient_poll duo_ext (duo_time 60) (duo_time 61) ?c = Inr (again, c', out)"
    by (auto simp: pclient_poll_def duo_client_def duo_time_def from_millis_def sample_defs
        pclient_do_send_def rem_usize_def index_def duo_ext_def sample_ext_def)
  have "pclient_request ?c [7] = sample_request 1" "pc_op ?c = Some [7]"
    "due_time (pclient_poll_at ?c) \<le> enat (clock_time (duo_time 60) (cc_clock (pc_common ?c)))"
    "tc_replica (cc_config (pc_common ?c)) ! pclient_primary ?c = sample_addr 1"
    "cc_tx (pc_common ?c) = Tx_Simulated sample_client_addr"
    by (simp_all add: pclient_request_def duo_client_def sample_defs pclient_poll_at_def
        duo_time_def from_millis_def pclient_primary_def)
  with client_resends_when_due [OF inv p] p show ?thesis by (auto simp: sent_by_def)
qed

text \<open>
  The configuration of a client fits: there is a replica for every view and the operating
  system takes what the client sends.
\<close>

definition pclient_config_ok :: "externals \<Rightarrow> pclient \<Rightarrow> bool" where
  "pclient_config_ok X c \<longleftrightarrow>
     0 < tc_n (cc_config (pc_common c)) \<and>
     tc_n (cc_config (pc_common c)) \<le> length (tc_replica (cc_config (pc_common c))) \<and>
     tx_ok X (cc_tx (pc_common c))"

definition packet_decodes :: "externals \<Rightarrow> bytes \<Rightarrow> bool" where
  "packet_decodes X p \<longleftrightarrow> bc_de_reply X (take 1500 p) \<noteq> None"

lemma pclient_resend_ok:
  assumes "pclient_inv c" and "pbft_ext_ok X" and "pclient_config_ok X c"
  shows "\<exists>c' out. pclient_resend X t t' c = Inr (c', out)"
proof (cases "pc_op c")
  case None
  with assms(1) have "pc_resend_instant c = default_instant"
    by (cases rule: option_instant_cases [of "pc_resend_instant c"]) (auto simp: pclient_inv_def)
  then show ?thesis by (simp add: pclient_resend_def)
next
  case (Some op)
  obtain payload where "bc_ser_to_replica X (Request (pclient_request c op)) = Some payload"
    using assms(2) by (auto simp: pbft_ext_ok_def elim!: codec_okD [of _ _ "Request (pclient_request c op)"])
  moreover have "pclient_primary c < length (tc_replica (cc_config (pc_common c)))"
    using assms(3) unfolding pclient_config_ok_def pclient_primary_def
    by (meson mod_less_divisor order_less_le_trans)
  ultimately show ?thesis
    using pclient_do_send_ok [OF Some] assms(3) by (simp add: pclient_resend_def pclient_config_ok_def)
qed

text \<open>
  C29. A poll of a client does not fail when its configuration fits, its receiving end works and
  every datagram waiting there decodes to a reply; the client keeps its invariant.
\<close>
theorem client_poll_succeeds:
  assumes "pclient_inv c" and "pbft_ext_ok X" and "pclient_config_ok X c"
    and "rx_ok 1500 (cc_rx (pc_common c))"
    and "\<forall>p \<in> rx_payloads (cc_rx (pc_common c)). packet_decodes X p"
  shows "\<exists>again c' out. pclient_poll X t t' c = Inr (again, c', out) \<and> pclient_inv c'"
proof -
  obtain c1 out where s: "pclient_resend X t t' c = Inr (c1, out)"
    using pclient_resend_ok [OF assms(1-3)] by blast
  note r1 = pclient_resend_Inr [OF s]
  have len: "length (pc_buffer c1) = 1500"
    using r1(8) [OF assms(1)] by (simp add: pclient_inv_def)
  with assms(4) r1(3) have ok: "rx_ok (length (pc_buffer c1)) (cc_rx (pc_common c1))" by simp
  from receive_from_ok [OF ok] obtain r rx buf where
    r: "receive_from (cc_rx (pc_common c1)) (pc_buffer c1) = Inr (r, rx, buf)" by blast
  have "\<exists>again c'. pclient_receive X c1 = Inr (again, c')"
  proof (cases r)
    case None
    with r show ?thesis by (auto simp: pclient_receive_def Let_def)
  next
    case (Some la)
    obtain n a where la: "la = (n, a)" by (cases la)
    from receive_from_Some [OF r [unfolded Some la]] obtain p where
      p: "p \<in> rx_payloads (cc_rx (pc_common c1))" "n = min (length p) (length (pc_buffer c1))"
      "take n buf = take n p" by metis
    have "take n buf = take 1500 p" using p(2,3) len by (auto simp: min_def)
    with p(1) assms(5) r1(3) obtain m where m: "bc_de_reply X (take n buf) = Some m"
      by (auto simp: packet_decodes_def)
    let ?c = "c1\<lparr>pc_common := (pc_common c1)\<lparr>cc_rx := rx\<rparr>, pc_buffer := buf\<rparr>"
    obtain v where v: "pclient_insert m ?c (hm_first X (pclient_insert m ?c)) = Some v"
      using assms(2) hm_first_okD [of X "pclient_insert m ?c"]
      by (auto simp: pbft_ext_ok_def pclient_insert_def)
    with m have "\<exists>c'. pclient_on_packet X n ?c = Inr c'"
      by (cases "pc_op c1 = None") (auto simp: pclient_on_packet_def Let_def)
    with r Some la show ?thesis by (auto simp: pclient_receive_def Let_def)
  qed
  then obtain again c' where p: "pclient_poll X t t' c = Inr (again, c', out)"
    using s by (auto simp: pclient_poll_split)
  with pc.poll_inv [OF assms(1) p] show ?thesis by blast
qed

theorem client_poll_succeeds_witness:
  "\<exists>again c' out. pclient_poll duo_ext (duo_time 60) (duo_time 61)
     (duo_client (Some [7]) Map.empty None [0, 1] (0 # replicate 1499 0)) = Inr (again, c', out) \<and>
     pclient_inv c'"
  by (rule client_poll_succeeds)
     (simp_all add: pclient_inv_def pclient_config_ok_def duo_client_def sample_defs duo_ext_def
        sample_pbft_ext_ok sample_tx_ok packet_decodes_def duo_decode [unfolded duo_ext_def])

text \<open>
  The contract of \<open>ClientState\<close> that the benchmark driver relies on: a client that is given
  back a result can be invoked again at once, and until then it has no deadline; a client whose
  request is in flight has one.
\<close>
theorem client_contract:
  assumes "pclient_inv c"
  shows "(\<forall>r c'. pclient_take_result c = (Some r, c') \<longrightarrow>
      pclient_inv c' \<and> pclient_idle c' \<and> pclient_poll_at c' = default_instant) \<and>
    (\<not> pclient_idle c \<longrightarrow> pclient_invoke X t op c = Inl Assert_Failed \<and>
       (\<exists>u. pclient_poll_at c = at_instant u))"
  using pc.reinvoke_after_result [OF assms] pc.idle_never_due pc.invoke_busy
    pc.busy_due_at [OF assms]
  by metis

theorem client_contract_witness:
  "pclient_idle (snd (pclient_take_result
      (duo_client None Map.empty (Some [2]) [] (1 # replicate 1499 0))))"
proof -
  let ?c = "duo_client None Map.empty (Some [2]) [] (1 # replicate 1499 0)"
  have "pclient_inv ?c" by (simp add: pclient_inv_def duo_client_def sample_defs)
  from client_contract [OF this] show ?thesis
    by (simp add: pclient_take_result_def duo_client_def)
qed

end
