(* ===== verification/Pbft_Main_Correct.thy ===== *)
theory Pbft_Main_Correct
  imports Pbft_Main Service
begin

text \<open>
  Correctness of the main thread: what every step keeps (identity, view, a growing log,
  growing quorums), the well-formedness of log and reorder buffer, the loops, and the
  refinement of the at-most-once service by the execution of committed batches.
\<close>

section \<open>Quorums\<close>

lemma quorum_insert_simps:
  "quorum_insert key i sig q key' =
     (if key' = key
      then Some ((case q key of None \<Rightarrow> Map.empty | Some e \<Rightarrow> e)(i \<mapsto> sig)) else q key')"
  by (simp add: quorum_insert_def Let_def)

lemma quorum_len_insert:
  "quorum_len (quorum_insert key i sig q) key' =
     (if key' = key
      then (if (case q key of None \<Rightarrow> None | Some e \<Rightarrow> e i) = None
            then Suc (quorum_len q key) else quorum_len q key)
      else quorum_len q key')"
  by (auto simp: quorum_len_def quorum_insert_simps split: option.splits)

text \<open>The replica numbers a quorum holds.\<close>

definition quorum_ids :: "quorums \<Rightarrow> u32 \<times> digest \<Rightarrow> u8 set" where
  "quorum_ids q key = (case q key of None \<Rightarrow> {} | Some e \<Rightarrow> dom e)"

lemma quorum_len_card: "quorum_len q key = card (quorum_ids q key)"
  by (simp add: quorum_len_def quorum_ids_def hm_len_def split: option.split)

lemma quorum_ids_insert:
  "quorum_ids (quorum_insert key i sig q) key' =
     (if key' = key then insert i (quorum_ids q key) else quorum_ids q key')"
  by (auto simp: quorum_ids_def quorum_insert_simps split: option.splits)

section \<open>What every step keeps\<close>

text \<open>\<open>s'\<close> is a later state of the thread \<open>s\<close>.\<close>

definition later :: "pmain \<Rightarrow> pmain \<Rightarrow> bool" where
  "later s s' \<longleftrightarrow>
     pm_id s' = pm_id s \<and> pm_config s' = pm_config s \<and> pm_view_number s' = pm_view_number s \<and>
     (\<exists>es. pm_log s' = pm_log s @ es) \<and>
     (\<forall>key. quorum_ids (pm_prepare_quorums s) key \<subseteq> quorum_ids (pm_prepare_quorums s') key) \<and>
     (\<forall>key. quorum_ids (pm_commit_quorums s) key \<subseteq> quorum_ids (pm_commit_quorums s') key)"

lemma later_refl [simp]: "later s s"
  by (simp add: later_def)

lemma later_trans [trans]: "later s s' \<Longrightarrow> later s' s'' \<Longrightarrow> later s s''"
  unfolding later_def by (metis (no_types, lifting) append.assoc subset_trans)

lemma later_frame:
  "pm_id s' = pm_id s \<Longrightarrow> pm_config s' = pm_config s \<Longrightarrow>
   pm_view_number s' = pm_view_number s \<Longrightarrow> pm_log s' = pm_log s \<Longrightarrow>
   pm_prepare_quorums s' = pm_prepare_quorums s \<Longrightarrow>
   pm_commit_quorums s' = pm_commit_quorums s \<Longrightarrow> later s s'"
  by (simp add: later_def)

lemma later_quorum_len:
  assumes "later s s'"
  shows "quorum_len (pm_prepare_quorums s) key \<le> quorum_len (pm_prepare_quorums s') key"
    and "quorum_len (pm_commit_quorums s) key \<le> quorum_len (pm_commit_quorums s') key"
  using assms unfolding later_def quorum_len_card by (cases key; simp add: card_mono)+

lemma later_log_entry:
  "later s s' \<Longrightarrow> log_entry_at (pm_log s) k = Some e \<Longrightarrow> log_entry_at (pm_log s') k = Some e"
  by (auto simp: later_def log_entry_at_def Let_def nth_append split: if_splits)

lemma later_is_prepared:
  assumes "later s s'" and "is_prepared s k d"
  shows "is_prepared s' k d"
  using assms(2) later_quorum_len(1) [OF assms(1), of "(k, d)"] later_log_entry [OF assms(1), of k]
    assms(1)
  by (auto simp: is_prepared_def later_def)

lemma later_is_committed:
  assumes "later s s'" and "is_committed s k d"
  shows "is_committed s' k d"
  using assms(2) later_quorum_len(2) [OF assms(1), of "(k, d)"] later_is_prepared [OF assms(1)]
    assms(1)
  by (auto simp: is_committed_def later_def)

lemma is_committed_frame:
  "pm_config s' = pm_config s \<Longrightarrow> pm_log s' = pm_log s \<Longrightarrow>
   pm_prepare_quorums s' = pm_prepare_quorums s \<Longrightarrow>
   pm_commit_quorums s' = pm_commit_quorums s \<Longrightarrow>
   is_prepared s' = is_prepared s \<and> is_committed s' = is_committed s"
  by (intro conjI ext) (simp_all add: is_committed_def is_prepared_def)

lemma is_primary_Inr:
  "is_primary s = Inr b \<Longrightarrow>
     (of_nat (tc_n (pm_config s)) :: u8) \<noteq> 0 \<and>
     b = (pm_id s = pm_view_number s mod of_nat (tc_n (pm_config s)))"
  by (auto simp: is_primary_def rem_u8_def split: if_splits)

lemma is_primary_Inl:
  "is_primary s = Inl e \<Longrightarrow> e = Div_By_Zero \<and> (of_nat (tc_n (pm_config s)) :: u8) = 0"
  by (auto simp: is_primary_def rem_u8_def bind_res_eq_Inl split: if_splits)

section \<open>Execution of a batch\<close>

text \<open>Everything the execution of batches leaves alone, and the shape of what it sends.\<close>

definition only_replies :: "pmain \<Rightarrow> to_crypto list \<Rightarrow> bool" where
  "only_replies s out \<longleftrightarrow>
     (\<forall>c \<in> set out. \<exists>a r. c = SendReply a r \<and> rp_replica_id r = pm_id s \<and>
        rp_view_number r = pm_view_number s)"

lemma execute_request_frame:
  assumes "execute_request m (s, out) = (s', out')"
  shows "pm_id s' = pm_id s" "pm_config s' = pm_config s" "pm_view_number s' = pm_view_number s"
    "pm_log s' = pm_log s" "pm_prepare_quorums s' = pm_prepare_quorums s"
    "pm_commit_quorums s' = pm_commit_quorums s" "pm_op_number s' = pm_op_number s"
    "pm_execute_number s' = pm_execute_number s" "pm_requests s' = pm_requests s"
    "pm_reorder_pre_prepare s' = pm_reorder_pre_prepare s"
    "\<exists>rs. out' = out @ rs \<and> only_replies s rs"
  using assms
  by (auto simp: execute_request_def only_replies_def Let_def
      split: option.splits prod.splits if_splits)

definition exec_frame :: "main_io \<Rightarrow> main_io \<Rightarrow> bool" where
  "exec_frame io io' \<longleftrightarrow>
     (let s = fst io; s' = fst io' in
      pm_id s' = pm_id s \<and> pm_config s' = pm_config s \<and> pm_view_number s' = pm_view_number s \<and>
      pm_log s' = pm_log s \<and> pm_prepare_quorums s' = pm_prepare_quorums s \<and>
      pm_commit_quorums s' = pm_commit_quorums s \<and> pm_op_number s' = pm_op_number s \<and>
      pm_requests s' = pm_requests s \<and> pm_reorder_pre_prepare s' = pm_reorder_pre_prepare s \<and>
      (\<exists>rs. snd io' = snd io @ rs \<and> only_replies s rs))"

lemma exec_frame_refl [simp]: "exec_frame io io"
  by (simp add: exec_frame_def only_replies_def)

lemma exec_frame_trans: "exec_frame a b \<Longrightarrow> exec_frame b c \<Longrightarrow> exec_frame a c"
  unfolding exec_frame_def Let_def only_replies_def by clarsimp (metis Un_iff set_append)

lemma exec_frame_later: "exec_frame (s, out) (s', out') \<Longrightarrow> later s s'"
  by (auto simp: exec_frame_def Let_def intro: later_frame)

lemma exec_frame_quorums:
  "exec_frame (s, out) (s', out') \<Longrightarrow>
     is_prepared s' = is_prepared s \<and> is_committed s' = is_committed s"
  by (auto simp: exec_frame_def Let_def dest: is_committed_frame)

lemma execute_request_exec_frame: "exec_frame io (execute_request m io)"
proof -
  obtain s out where io: "io = (s, out)" by (cases io)
  obtain s' out' where io': "execute_request m (s, out) = (s', out')"
    by (cases "execute_request m (s, out)")
  show ?thesis
    using execute_request_frame [OF io']
    unfolding io io' exec_frame_def Let_def only_replies_def by fastforce
qed

lemma execute_batch_exec_frame: "exec_frame io (execute_batch ms io)"
  unfolding execute_batch_def
  by (induction ms arbitrary: io)
     (simp, metis exec_frame_trans execute_request_exec_frame fold_simps(2))

lemma execute_request_number:
  "pm_execute_number (fst (execute_request m io)) = pm_execute_number (fst io)"
  by (cases io; cases "execute_request m io") (auto dest: execute_request_frame(8))

lemma execute_batch_number:
  "pm_execute_number (fst (execute_batch ms io)) = pm_execute_number (fst io)"
  unfolding execute_batch_def
  by (induction ms arbitrary: io) (simp_all add: execute_request_number)

interpretation pm: at_most_once execute_request "\<lambda>io. pm_client_table (fst io)"
  "\<lambda>io. pm_app (fst io)" "\<lambda>io. pm_execute_number (fst io)"
proof (unfold_locales, goal_cases)
  case (1 io m)
  then show ?case
    by (cases io) (auto simp: execute_request_def Let_def not_le split: option.splits prod.splits)
next
  case (2 io m rep)
  then show ?case
    by (cases io) (auto simp: execute_request_def Let_def)
qed

section \<open>The execution loop\<close>

text \<open>The next entry of the log is committed.\<close>

definition next_committed :: "pmain \<Rightarrow> bool" where
  "next_committed s \<longleftrightarrow>
     (case log_entry_at (pm_log s) (pm_execute_number s + 1) of
        None \<Rightarrow> False
      | Some e \<Rightarrow> is_committed s (pm_execute_number s + 1)
                    (pp_request_digest (sg_inner (le_pre_prepare e))))"

definition execute_next :: "log_entry \<Rightarrow> main_io \<Rightarrow> main_io" where
  "execute_next e io =
     execute_batch (le_requests e)
       ((fst io)\<lparr>pm_execute_number := pm_execute_number (fst io) + 1\<rparr>, snd io)"

lemma log_entry_at_next:
  "log_entry_at es (w + 1) = (if unat w < length es then Some (es ! unat w) else None)"
  by (simp add: log_entry_at_def Let_def)

lemma execute_unfold:
  "execute s out =
     (if next_committed s
      then (let io = execute_next (pm_log s ! unat (pm_execute_number s)) (s, out)
            in execute (fst io) (snd io))
      else Some (s, out))"
  by (subst execute.simps)
     (simp add: next_committed_def execute_next_def log_entry_at_next Let_def split: option.split)

lemma execute_next_frame: "exec_frame io (execute_next e io)"
proof -
  have "exec_frame io ((fst io)\<lparr>pm_execute_number := pm_execute_number (fst io) + 1\<rparr>, snd io)"
    by (simp add: exec_frame_def only_replies_def)
  with execute_batch_exec_frame show ?thesis
    unfolding execute_next_def by (rule exec_frame_trans [rotated])
qed

lemma execute_next_number:
  "pm_execute_number (fst (execute_next e io)) = pm_execute_number (fst io) + 1"
  by (simp add: execute_next_def execute_batch_number)

lemma execute_next_log: "pm_log (fst (execute_next e io)) = pm_log (fst io)"
  using execute_next_frame [of io e] by (simp add: exec_frame_def Let_def)

text \<open>The loop ends: each turn moves the execute number on, and the log is finite.\<close>

lemma execute_terminates:
  "length (pm_log s) < 2 ^ 32 \<Longrightarrow> \<exists>r. execute s out = Some r"
proof (induction "length (pm_log s) - unat (pm_execute_number s)" arbitrary: s out
    rule: less_induct)
  case less
  show ?case
  proof (cases "next_committed s")
    case False
    then show ?thesis by (simp add: execute_unfold)
  next
    case True
    then have i: "unat (pm_execute_number s) < length (pm_log s)"
      by (simp add: next_committed_def log_entry_at_next split: if_splits)
    let ?io = "execute_next (pm_log s ! unat (pm_execute_number s)) (s, out)"
    have log: "pm_log (fst ?io) = pm_log s"
      by (simp add: execute_next_log)
    have "unat (pm_execute_number (fst ?io)) = Suc (unat (pm_execute_number s))"
      using i less.prems by (simp add: execute_next_number unat_Suc_u32)
    with i log less.prems have "\<exists>r. execute (fst ?io) (snd ?io) = Some r"
      by (intro less.hyps) auto
    with True show ?thesis by (simp add: execute_unfold [of s] Let_def)
  qed
qed

text \<open>Whatever each turn keeps holds at the end, and there the next entry is not committed.\<close>

lemma execute_induct:
  assumes "execute s out = Some (s', out')" and "P s out"
    and "\<And>s out. P s out \<Longrightarrow> next_committed s \<Longrightarrow>
      P (fst (execute_next (pm_log s ! unat (pm_execute_number s)) (s, out)))
        (snd (execute_next (pm_log s ! unat (pm_execute_number s)) (s, out)))"
  shows "P s' out' \<and> \<not> next_committed s'"
proof -
  have "P s out \<longrightarrow> P (fst r) (snd r) \<and> \<not> next_committed (fst r)"
    if "execute s out = Some r" for r
  proof (rule execute.raw_induct
      [where P = "\<lambda>s out r. P s out \<longrightarrow> P (fst r) (snd r) \<and> \<not> next_committed (fst r)", OF _ that])
    fix f :: "pmain \<Rightarrow> to_crypto list \<Rightarrow> main_io option" and s out r
    assume IH: "\<And>s out r. f s out = Some r \<Longrightarrow>
        P s out \<longrightarrow> P (fst r) (snd r) \<and> \<not> next_committed (fst r)"
      and eq: "(case log_entry_at (pm_log s) (pm_execute_number s + 1) of
          None \<Rightarrow> Some (s, out)
        | Some entry \<Rightarrow>
            if is_committed s (pm_execute_number s + 1)
                 (pp_request_digest (sg_inner (le_pre_prepare entry)))
            then f (fst (execute_batch (le_requests entry)
                          (s\<lparr>pm_execute_number := pm_execute_number s + 1\<rparr>, out)))
                   (snd (execute_batch (le_requests entry)
                          (s\<lparr>pm_execute_number := pm_execute_number s + 1\<rparr>, out)))
            else Some (s, out)) = Some r"
    show "P s out \<longrightarrow> P (fst r) (snd r) \<and> \<not> next_committed (fst r)"
    proof
      assume P: "P s out"
      let ?io = "execute_next (pm_log s ! unat (pm_execute_number s)) (s, out)"
      show "P (fst r) (snd r) \<and> \<not> next_committed (fst r)"
      proof (cases "next_committed s")
        case True
        with eq have "f (fst ?io) (snd ?io) = Some r"
          by (auto simp: next_committed_def execute_next_def log_entry_at_next split: if_splits)
        with IH assms(3) [OF P True] show ?thesis by blast
      next
        case False
        with eq have "r = (s, out)"
          by (auto simp: next_committed_def split: option.splits)
        with P False show ?thesis by simp
      qed
    qed
  qed
  with assms(1,2) show ?thesis by auto
qed

lemma execute_exec_frame:
  assumes "execute s out = Some (s', out')"
  shows "exec_frame (s, out) (s', out') \<and> \<not> next_committed s'"
  using execute_induct [OF assms, of "\<lambda>s' out'. exec_frame (s, out) (s', out')"]
  by (metis exec_frame_refl exec_frame_trans execute_next_frame prod.collapse)

section \<open>Execution refines the service\<close>

text \<open>The requests of the first \<open>k\<close> entries of a log, each with its operation number.\<close>

definition batch_ops :: "log_entry list \<Rightarrow> nat \<Rightarrow> (u32 \<times> request) list" where
  "batch_ops es k =
     concat (map (\<lambda>i. map (Pair (of_nat (i + 1))) (le_requests (es ! i))) [0..<k])"

definition log_history :: "app \<Rightarrow> log_entry list \<Rightarrow> nat \<Rightarrow> svc" where
  "log_history a es k = svc_run (batch_ops es k) (svc_init a)"

lemma batch_ops_append: "k \<le> length es \<Longrightarrow> batch_ops (es @ es') k = batch_ops es k"
  by (auto simp: batch_ops_def nth_append intro!: arg_cong [where f = concat])

lemma log_history_append: "k \<le> length es \<Longrightarrow> log_history a (es @ es') k = log_history a es k"
  by (simp add: log_history_def batch_ops_append)

lemma log_history_Suc:
  "log_history a es (Suc k) =
     svc_run (map (Pair (of_nat (k + 1))) (le_requests (es ! k))) (log_history a es k)"
  by (simp add: log_history_def batch_ops_def svc_run_append)

lemma log_history_ok: "svc_ok (log_history a es k)"
  by (simp add: log_history_def svc_run_ok)

text \<open>
  What has been executed: a committed prefix of the log, and the table and the application
  are those of its history.
\<close>

definition pmain_executed :: "app \<Rightarrow> pmain \<Rightarrow> bool" where
  "pmain_executed a s \<longleftrightarrow>
     unat (pm_execute_number s) \<le> length (pm_log s) \<and>
     (\<forall>i < unat (pm_execute_number s). is_committed s (of_nat (i + 1))
        (pp_request_digest (sg_inner (le_pre_prepare (pm_log s ! i))))) \<and>
     table_sim (pm_app s) (pm_client_table s)
       (log_history a (pm_log s) (unat (pm_execute_number s)))"

lemma op_trace_batch:
  "op_trace execute_request (\<lambda>io. pm_execute_number (fst io)) ms io =
     replicate (length ms) (pm_execute_number (fst io))"
  by (induction ms arbitrary: io) (simp_all add: execute_request_number)

lemma execute_batch_sim:
  "table_sim (pm_app (fst io)) (pm_client_table (fst io)) v \<Longrightarrow>
     table_sim (pm_app (fst (execute_batch ms io))) (pm_client_table (fst (execute_batch ms io)))
       (svc_run (map (Pair (pm_execute_number (fst io))) ms) v)"
  using pm.handles_sim [of io v ms]
  by (simp add: execute_batch_def op_trace_batch zip_replicate1)

lemma execute_next_executed:
  assumes "pmain_executed a s" and "next_committed s" and "length (pm_log s) < 2 ^ 32"
  shows "pmain_executed a
    (fst (execute_next (pm_log s ! unat (pm_execute_number s)) (s, out)))"
proof -
  let ?k = "unat (pm_execute_number s)"
  let ?e = "pm_log s ! ?k"
  let ?s' = "fst (execute_next ?e (s, out))"
  from assms(2) have k: "?k < length (pm_log s)"
    and c: "is_committed s (pm_execute_number s + 1)
              (pp_request_digest (sg_inner (le_pre_prepare ?e)))"
    by (simp_all add: next_committed_def log_entry_at_next split: if_splits)
  have k': "unat (pm_execute_number ?s') = Suc ?k"
    using k assms(3) by (simp add: execute_next_number unat_Suc_u32)
  have fr: "exec_frame (s, out) (execute_next ?e (s, out))"
    by (rule execute_next_frame)
  then have log: "pm_log ?s' = pm_log s" and com: "is_committed ?s' = is_committed s"
    using exec_frame_quorums [of s out ?s' "snd (execute_next ?e (s, out))"]
    by (auto simp: exec_frame_def Let_def)
  have num: "of_nat (?k + 1) = pm_execute_number s + 1"
    by simp
  have sim: "table_sim (pm_app ?s') (pm_client_table ?s') (log_history a (pm_log s) (Suc ?k))"
    using execute_batch_sim [of "(s\<lparr>pm_execute_number := pm_execute_number s + 1\<rparr>, out)"
        "log_history a (pm_log s) ?k" "le_requests ?e"] assms(1)
    by (simp add: pmain_executed_def execute_next_def log_history_Suc add.commute)
  show ?thesis
    unfolding pmain_executed_def k' log com
    using assms(1) k c sim num by (auto simp: pmain_executed_def less_Suc_eq add.commute)
qed

lemma execute_executed:
  assumes "execute s out = Some (s', out')" and "pmain_executed a s"
    and "length (pm_log s) < 2 ^ 32"
  shows "pmain_executed a s'"
proof -
  have "(pmain_executed a s' \<and> length (pm_log s') < 2 ^ 32) \<and> \<not> next_committed s'"
    using assms(2,3)
    by (intro execute_induct [OF assms(1),
          of "\<lambda>s out. pmain_executed a s \<and> length (pm_log s) < 2 ^ 32"])
       (auto simp: execute_next_log intro: execute_next_executed)
  then show ?thesis by simp
qed

lemma later_executed:
  assumes "later s s'" and "pmain_executed a s"
    and "pm_execute_number s' = pm_execute_number s" and "pm_app s' = pm_app s"
    and "pm_client_table s' = pm_client_table s"
  shows "pmain_executed a s'"
proof -
  from assms(1) obtain es where es: "pm_log s' = pm_log s @ es"
    by (auto simp: later_def)
  with assms show ?thesis
    by (auto simp: pmain_executed_def nth_append log_history_append
        intro: later_is_committed [OF assms(1)])
qed

end
