(* ===== verification/Pbft_Main_Steps.thy ===== *)
theory Pbft_Main_Steps
  imports Pbft_Main_Correct
begin

text \<open>
  The handlers of the main thread, one by one and as the single step \<open>main_handle\<close>: what each
  changes and sends on every branch, the invariant of log and reorder buffer, and the exact
  conditions under which a step fails.
\<close>

section \<open>The invariant\<close>

definition pmain_wf :: "pmain \<Rightarrow> bool" where
  "pmain_wf s \<longleftrightarrow>
     (\<forall>k message requests. pm_reorder_pre_prepare s k = Some (message, requests) \<longrightarrow>
        pp_op_number (sg_inner message) = k) \<and>
     (\<forall>i < length (pm_log s).
        pp_op_number (sg_inner (le_pre_prepare (pm_log s ! i))) = of_nat (i + 1) \<and>
        pp_view_number (sg_inner (le_pre_prepare (pm_log s ! i))) = pm_view_number s)"

lemma pmain_wf_frame:
  "pmain_wf s \<Longrightarrow> pm_log s' = pm_log s \<Longrightarrow> pm_view_number s' = pm_view_number s \<Longrightarrow>
   pm_reorder_pre_prepare s' = pm_reorder_pre_prepare s \<Longrightarrow> pmain_wf s'"
  by (simp add: pmain_wf_def)

text \<open>A request is new to the reply table.\<close>

definition request_new :: "pmain \<Rightarrow> request \<Rightarrow> bool" where
  "request_new s m \<longleftrightarrow>
     (\<forall>rep. pm_client_table s (rq_client_id m) = Some rep \<longrightarrow>
        rp_request_number rep < rq_request_number m)"

lemma is_primary_cong:
  "pm_id s' = pm_id s \<Longrightarrow> pm_config s' = pm_config s \<Longrightarrow>
   pm_view_number s' = pm_view_number s \<Longrightarrow> is_primary s' = is_primary s"
  by (simp add: is_primary_def)

lemma is_primary_update [simp]:
  "is_primary (s\<lparr>pm_log := l\<rparr>) = is_primary s"
  "is_primary (s\<lparr>pm_reorder_pre_prepare := r\<rparr>) = is_primary s"
  "is_primary (s\<lparr>pm_requests := q\<rparr>) = is_primary s"
  by (simp_all add: is_primary_def)

section \<open>Requests and batches\<close>

lemma do_close_batch_eq:
  "do_close_batch s =
     (s\<lparr>pm_op_number := pm_op_number s + 1, pm_requests := []\<rparr>,
      [SendPrePrepare \<lparr>pp_view_number = pm_view_number s, pp_op_number = pm_op_number s + 1,
                       pp_request_digest = default_digest\<rparr> (pm_requests s)])"
  by (simp add: do_close_batch_def Let_def)

lemma handle_request_simps:
  "pm_client_table s (rq_client_id m) = Some rep \<Longrightarrow>
     rp_request_number rep > rq_request_number m \<Longrightarrow> handle_request m s = Inr (s, [])"
  "pm_client_table s (rq_client_id m) = Some rep \<Longrightarrow>
     rp_request_number rep = rq_request_number m \<Longrightarrow>
     handle_request m s = Inr (s, [SendReply (rq_addr m) rep])"
  "request_new s m \<Longrightarrow>
     handle_request m s =
       bind_res (is_primary s) (\<lambda>primary.
         if \<not> primary then Inl Todo
         else if pm_op_number s < pm_execute_number s + 6
         then Inr (do_close_batch (s\<lparr>pm_requests := pm_requests s @ [m]\<rparr>))
         else Inr (s\<lparr>pm_requests := pm_requests s @ [m]\<rparr>, []))"
  unfolding handle_request_def request_new_def Let_def by (auto split: option.split)

lemma request_cases:
  obtains (New) "request_new s m"
  | (Stale) rep where "pm_client_table s (rq_client_id m) = Some rep"
      "rp_request_number rep > rq_request_number m"
  | (Again) rep where "pm_client_table s (rq_client_id m) = Some rep"
      "rp_request_number rep = rq_request_number m"
  unfolding request_new_def by (metis linorder_neqE)

lemma handle_request_frame:
  assumes "handle_request m s = Inr (s', out)"
  shows "\<exists>q n. s' = s\<lparr>pm_requests := q, pm_op_number := n\<rparr>"
proof (cases rule: request_cases [of s m])
  case New
  with assms have "s' = s\<lparr>pm_requests := [], pm_op_number := pm_op_number s + 1\<rparr> \<or>
      s' = s\<lparr>pm_requests := pm_requests s @ [m], pm_op_number := pm_op_number s\<rparr>"
    by (auto simp: handle_request_simps(3) do_close_batch_eq split: if_splits)
  then show ?thesis by blast
next
  case Stale
  with assms have "s' = s\<lparr>pm_requests := pm_requests s, pm_op_number := pm_op_number s\<rparr>"
    by (simp add: handle_request_simps(1))
  then show ?thesis by blast
next
  case Again
  with assms have "s' = s\<lparr>pm_requests := pm_requests s, pm_op_number := pm_op_number s\<rparr>"
    by (simp add: handle_request_simps(2))
  then show ?thesis by blast
qed

section \<open>Prepares and commits\<close>

lemma handle_prepare_cases:
  obtains (Ignored) "handle_prepare m s = (s, [])"
  | (Counted) s' where "s' = s\<lparr>pm_prepare_quorums :=
        quorum_insert (pr_op_number (sg_inner m), pr_request_digest (sg_inner m))
          (pr_replica_id (sg_inner m)) (sg_signature m) (pm_prepare_quorums s)\<rparr>"
      and "pr_view_number (sg_inner m) = pm_view_number s"
      and "\<not> is_prepared s (pr_op_number (sg_inner m)) (pr_request_digest (sg_inner m))"
      and "handle_prepare m s = (s',
        if is_prepared s' (pr_op_number (sg_inner m)) (pr_request_digest (sg_inner m))
        then [SendCommit \<lparr>ct_view_number = pm_view_number s,
                ct_op_number = pr_op_number (sg_inner m),
                ct_request_digest = pr_request_digest (sg_inner m), ct_replica_id = pm_id s\<rparr>]
        else [])"
proof (cases "pr_view_number (sg_inner m) \<noteq> pm_view_number s \<or>
    is_prepared s (pr_op_number (sg_inner m)) (pr_request_digest (sg_inner m))")
  case True
  then show ?thesis by (intro Ignored) (auto simp: handle_prepare_def Let_def)
next
  case False
  then show ?thesis
    by (intro Counted [OF refl]) (auto simp: handle_prepare_def Let_def)
qed

lemma later_prepare_insert: "later s (s\<lparr>pm_prepare_quorums :=
    quorum_insert key i sig (pm_prepare_quorums s)\<rparr>)"
  by (auto simp: later_def quorum_ids_insert)

lemma later_commit_insert: "later s (s\<lparr>pm_commit_quorums :=
    quorum_insert key i sig (pm_commit_quorums s)\<rparr>)"
  by (auto simp: later_def quorum_ids_insert)

lemma handle_prepare_frame: "\<exists>q. fst (handle_prepare m s) = s\<lparr>pm_prepare_quorums := q\<rparr>"
  by (cases rule: handle_prepare_cases [of m s])
     (auto intro: exI [of _ "pm_prepare_quorums s"])

lemma handle_prepare_later: "later s (fst (handle_prepare m s))"
  by (cases rule: handle_prepare_cases [of m s]) (simp_all add: later_prepare_insert)

lemma handle_commit_Inr:
  assumes "handle_commit m s = Inr (s', out)"
  obtains (Ignored) "s' = s" and "out = []"
  | (Counted) "s' = s\<lparr>pm_commit_quorums :=
        quorum_insert (ct_op_number (sg_inner m), ct_request_digest (sg_inner m))
          (ct_replica_id (sg_inner m)) (sg_signature m) (pm_commit_quorums s)\<rparr>"
      and "out = []"
  | (Executed) s1 s2 out1 b where "s1 = s\<lparr>pm_commit_quorums :=
        quorum_insert (ct_op_number (sg_inner m), ct_request_digest (sg_inner m))
          (ct_replica_id (sg_inner m)) (sg_signature m) (pm_commit_quorums s)\<rparr>"
      and "is_committed s1 (ct_op_number (sg_inner m)) (ct_request_digest (sg_inner m))"
      and "execute s1 [] = Some (s2, out1)" and "is_primary s2 = Inr b"
      and "(s', out) = (if b \<and> pm_requests s2 \<noteq> []
            then (fst (do_close_batch s2), out1 @ snd (do_close_batch s2)) else (s2, out1))"
proof (cases "ct_view_number (sg_inner m) \<noteq> pm_view_number s \<or>
    is_committed s (ct_op_number (sg_inner m)) (ct_request_digest (sg_inner m))")
  case True
  with assms show ?thesis
    unfolding handle_commit_def Let_def by (intro Ignored) (auto split: if_splits)
next
  case False
  let ?s1 = "s\<lparr>pm_commit_quorums :=
      quorum_insert (ct_op_number (sg_inner m), ct_request_digest (sg_inner m))
        (ct_replica_id (sg_inner m)) (sg_signature m) (pm_commit_quorums s)\<rparr>"
  show ?thesis
  proof (cases "is_committed ?s1 (ct_op_number (sg_inner m)) (ct_request_digest (sg_inner m))")
    case False': False
    with assms False show ?thesis
      unfolding handle_commit_def Let_def by (intro Counted) auto
  next
    case True
    with assms False obtain s2 out1 where e: "execute ?s1 [] = Some (s2, out1)"
      and r: "bind_res (is_primary s2) (\<lambda>primary.
          if primary \<and> pm_requests s2 \<noteq> []
          then (case do_close_batch s2 of (s, out') \<Rightarrow> Inr (s, out1 @ out'))
          else Inr (s2, out1)) = (Inr (s', out) :: main_io res)"
      unfolding handle_commit_def Let_def by (auto split: option.splits)
    from r obtain b where "is_primary s2 = Inr b"
      "(s', out) = (if b \<and> pm_requests s2 \<noteq> []
         then (fst (do_close_batch s2), out1 @ snd (do_close_batch s2)) else (s2, out1))"
      by (auto simp: split_beta split: if_splits)
    with e True show ?thesis by (intro Executed [OF refl]) auto
  qed
qed

lemma do_close_batch_later: "later s (fst (do_close_batch s))"
  by (simp add: do_close_batch_eq later_frame)

lemma handle_commit_later:
  assumes "handle_commit m s = Inr (s', out)"
  shows "later s s'"
  using assms
proof (cases rule: handle_commit_Inr)
  case (Executed s1 s2 out1 b)
  have "later s s2"
    using later_trans [OF later_commit_insert exec_frame_later] execute_exec_frame [OF Executed(3)]
    unfolding Executed(1) by blast
  with Executed(5) do_close_batch_later [of s2] show ?thesis
    by (auto split: if_splits intro: later_trans)
qed (auto simp: later_commit_insert)

section \<open>Proposals\<close>

lemma handle_pre_prepare_Inr:
  assumes "handle_pre_prepare m rqs s = Inr (s', out)"
  obtains (Other_view) "pp_view_number (sg_inner m) \<noteq> pm_view_number s" and "s' = s" and "out = []"
  | (Logged) b where "pp_view_number (sg_inner m) = pm_view_number s"
      and "pp_op_number (sg_inner m) = next_entry_number s"
      and "s' = s\<lparr>pm_log := pm_log s @ [\<lparr>le_pre_prepare = m, le_requests = rqs\<rparr>]\<rparr>"
      and "is_primary s = Inr b"
      and "out = (if b then [] else [SendPrepare
             \<lparr>pr_view_number = pm_view_number s, pr_op_number = pp_op_number (sg_inner m),
              pr_request_digest = pp_request_digest (sg_inner m), pr_replica_id = pm_id s\<rparr>])"
proof (cases "pp_view_number (sg_inner m) = pm_view_number s")
  case False
  with assms show ?thesis by (intro Other_view) (auto simp: handle_pre_prepare_def)
next
  case True
  with assms have n: "pp_op_number (sg_inner m) = next_entry_number s"
    by (auto simp: handle_pre_prepare_def split: if_splits)
  with assms True obtain b where b: "is_primary s = Inr b"
    and r: "(s', out) = (s\<lparr>pm_log := pm_log s @ [\<lparr>le_pre_prepare = m, le_requests = rqs\<rparr>]\<rparr>,
       if b then [] else [SendPrepare
             \<lparr>pr_view_number = pm_view_number s, pr_op_number = pp_op_number (sg_inner m),
              pr_request_digest = pp_request_digest (sg_inner m), pr_replica_id = pm_id s\<rparr>])"
    unfolding handle_pre_prepare_def Let_def by (auto split: if_splits)
  show ?thesis
    by (rule Logged [OF True n _ b]) (use r in simp_all)
qed

lemma handle_pre_prepare_later: "handle_pre_prepare m rqs s = Inr (s', out) \<Longrightarrow> later s s'"
  by (erule handle_pre_prepare_Inr) (auto simp: later_def)

lemma handle_pre_prepare_wf:
  "handle_pre_prepare m rqs s = Inr (s', out) \<Longrightarrow> pmain_wf s \<Longrightarrow> pmain_wf s'"
  by (erule handle_pre_prepare_Inr)
     (auto simp: pmain_wf_def nth_append next_entry_number_def less_Suc_eq)

text \<open>What the drain changes, and what it sends: prepares for entries it appended.\<close>

definition log_step :: "pmain \<Rightarrow> pmain \<Rightarrow> bool" where
  "log_step s s' \<longleftrightarrow> later s s' \<and>
     pm_app s' = pm_app s \<and> pm_client_table s' = pm_client_table s \<and>
     pm_op_number s' = pm_op_number s \<and> pm_execute_number s' = pm_execute_number s \<and>
     pm_prepare_quorums s' = pm_prepare_quorums s \<and>
     pm_commit_quorums s' = pm_commit_quorums s \<and> pm_requests s' = pm_requests s"

lemma log_step_refl [simp]: "log_step s s"
  by (simp add: log_step_def)

lemma log_step_trans: "log_step s s' \<Longrightarrow> log_step s' s'' \<Longrightarrow> log_step s s''"
  by (auto simp: log_step_def intro: later_trans)

lemma log_step_later: "log_step s s' \<Longrightarrow> later s s'"
  by (simp add: log_step_def)

lemma log_step_reorder: "log_step s (s\<lparr>pm_reorder_pre_prepare := r\<rparr>)"
  by (simp add: log_step_def later_frame)

lemma handle_pre_prepare_log_step:
  "handle_pre_prepare m rqs s = Inr (s', out) \<Longrightarrow> log_step s s'"
  using handle_pre_prepare_later [of m rqs s s' out]
  by (auto simp: log_step_def elim: handle_pre_prepare_Inr)

lemma later_is_primary: "later s s' \<Longrightarrow> is_primary s' = is_primary s"
  by (rule is_primary_cong) (auto simp: later_def)

lemma handle_pre_prepare_Inl:
  assumes "handle_pre_prepare m rqs s = Inl e"
    and "pp_op_number (sg_inner m) = next_entry_number s"
  shows "is_primary s = Inl e"
  using assms unfolding handle_pre_prepare_def Let_def
  by (auto simp: bind_res_eq_Inl split: if_splits)

text \<open>
  A prepare names the thread itself and an entry of its log.
\<close>

definition prepare_for_log :: "pmain \<Rightarrow> prepare \<Rightarrow> bool" where
  "prepare_for_log s p \<longleftrightarrow> pr_replica_id p = pm_id s \<and> pr_view_number p = pm_view_number s \<and>
     (\<exists>e \<in> set (pm_log s).
        pr_op_number p = pp_op_number (sg_inner (le_pre_prepare e)) \<and>
        pr_request_digest p = pp_request_digest (sg_inner (le_pre_prepare e)))"

definition only_prepares :: "pmain \<Rightarrow> to_crypto list \<Rightarrow> bool" where
  "only_prepares s out \<longleftrightarrow>
     (\<forall>c \<in> set out. is_primary s = Inr False \<and> (\<exists>p. c = SendPrepare p \<and> prepare_for_log s p))"

lemma later_only_prepares: "later s s' \<Longrightarrow> only_prepares s out \<Longrightarrow> only_prepares s' out"
  using later_is_primary [of s s']
  unfolding later_def only_prepares_def prepare_for_log_def by fastforce

lemma handle_pre_prepare_out:
  "handle_pre_prepare m rqs s = Inr (s', out) \<Longrightarrow> only_prepares s' out"
  by (erule handle_pre_prepare_Inr) (auto simp: only_prepares_def prepare_for_log_def)

lemma pmain_wf_remove:
  "pmain_wf s \<Longrightarrow>
     pmain_wf (s\<lparr>pm_reorder_pre_prepare := (pm_reorder_pre_prepare s)(k := None)\<rparr>)"
  by (simp add: pmain_wf_def)

lemma drain_reorder_Inr:
  assumes "drain_reorder s out = Inr (s', out')"
  shows "log_step s s' \<and> (pmain_wf s \<longrightarrow> pmain_wf s') \<and>
    pm_reorder_pre_prepare s' (next_entry_number s') = None \<and>
    (\<exists>ps. out' = out @ ps \<and> only_prepares s' ps)"
  using assms
proof (induction s out rule: drain_reorder.induct)
  case (1 s out)
  let ?s0 = "s\<lparr>pm_reorder_pre_prepare := (pm_reorder_pre_prepare s)(next_entry_number s := None)\<rparr>"
  show ?case
  proof (cases "pm_reorder_pre_prepare s (next_entry_number s)")
    case None
    with "1.prems" show ?thesis
      by (simp add: drain_reorder.simps [of s] only_prepares_def)
  next
    case (Some mr)
    then obtain m rqs where mr: "pm_reorder_pre_prepare s (next_entry_number s) = Some (m, rqs)"
      by (cases mr) auto
    with "1.prems" obtain s1 out1 where h: "handle_pre_prepare m rqs ?s0 = Inr (s1, out1)"
      and d: "drain_reorder s1 (out @ out1) = Inr (s', out')"
      by (auto simp: drain_reorder.simps [of s] split: sum.splits)
    note IH = "1.IH" [OF mr refl h refl d]
    have ls: "log_step s s1"
      by (rule log_step_trans [OF log_step_reorder handle_pre_prepare_log_step [OF h]])
    have "pmain_wf s \<longrightarrow> pmain_wf s1"
      using handle_pre_prepare_wf [OF h] pmain_wf_remove by blast
    moreover from IH obtain ps where "out' = out @ out1 @ ps" "only_prepares s' ps"
      by auto
    moreover have "only_prepares s' out1"
      using IH handle_pre_prepare_out [OF h] later_only_prepares log_step_later by blast
    ultimately show ?thesis
      using IH ls by (auto simp: only_prepares_def intro: log_step_trans)
  qed
qed

lemma drain_reorder_Inl:
  assumes "drain_reorder s out = Inl e" and "pmain_wf s"
  shows "is_primary s = Inl e"
  using assms
proof (induction s out rule: drain_reorder.induct)
  case (1 s out)
  let ?s0 = "s\<lparr>pm_reorder_pre_prepare := (pm_reorder_pre_prepare s)(next_entry_number s := None)\<rparr>"
  from "1.prems" obtain m rqs
    where mr: "pm_reorder_pre_prepare s (next_entry_number s) = Some (m, rqs)"
    by (auto simp: drain_reorder.simps [of s] split: option.splits)
  with "1.prems" have n: "pp_op_number (sg_inner m) = next_entry_number ?s0"
    by (auto simp: pmain_wf_def next_entry_number_def)
  show ?case
  proof (cases "handle_pre_prepare m rqs ?s0")
    case (Inl e')
    with "1.prems" mr handle_pre_prepare_Inl [OF Inl n] show ?thesis
      by (simp add: drain_reorder.simps [of s])
  next
    case (Inr io)
    then obtain s1 out1 where h: "handle_pre_prepare m rqs ?s0 = Inr (s1, out1)"
      by (cases io) auto
    have "is_primary s1 = Inl e"
      using "1.IH" [OF mr refl h refl] "1.prems" mr h
        handle_pre_prepare_wf [OF h pmain_wf_remove]
      by (simp add: drain_reorder.simps [of s])
    with later_is_primary [OF handle_pre_prepare_later [OF h]] show ?thesis by simp
  qed
qed

lemma receive_pre_prepare_Inr:
  assumes "receive_pre_prepare m rqs s = Inr (s', out)"
  shows "log_step s s' \<and> (pmain_wf s \<longrightarrow> pmain_wf s') \<and> only_prepares s' out"
proof (cases "pp_op_number (sg_inner m) = next_entry_number s")
  case False
  with assms show ?thesis
    by (auto simp: receive_pre_prepare_def pmain_wf_def only_prepares_def log_step_reorder
        split: if_splits)
next
  case True
  with assms obtain s1 out1 where h: "handle_pre_prepare m rqs s = Inr (s1, out1)"
    and d: "drain_reorder s1 out1 = Inr (s', out)"
    by (auto simp: receive_pre_prepare_def)
  note h' = handle_pre_prepare_log_step [OF h] handle_pre_prepare_wf [OF h]
    handle_pre_prepare_out [OF h]
  note d' = drain_reorder_Inr [OF d]
  have "only_prepares s' out1"
    using d' h'(3) later_only_prepares log_step_later by blast
  with d' h' show ?thesis
    by (auto simp: only_prepares_def intro: log_step_trans)
qed

lemma receive_pre_prepare_Inl:
  assumes "receive_pre_prepare m rqs s = Inl e" and "pmain_wf s"
  shows "is_primary s = Inl e"
proof -
  from assms(1) have n: "pp_op_number (sg_inner m) = next_entry_number s"
    by (auto simp: receive_pre_prepare_def split: if_splits)
  show ?thesis
  proof (cases "handle_pre_prepare m rqs s")
    case (Inl e')
    with assms(1) n handle_pre_prepare_Inl [OF Inl n] show ?thesis
      by (simp add: receive_pre_prepare_def)
  next
    case (Inr io)
    then obtain s1 out1 where h: "handle_pre_prepare m rqs s = Inr (s1, out1)"
      by (cases io) auto
    with assms(1) n have "drain_reorder s1 out1 = Inl e"
      by (simp add: receive_pre_prepare_def)
    from drain_reorder_Inl [OF this handle_pre_prepare_wf [OF h assms(2)]]
    show ?thesis using later_is_primary [OF handle_pre_prepare_later [OF h]] by simp
  qed
qed

section \<open>One step of the thread\<close>

text \<open>What the thread asks the crypto thread to send, case by case.\<close>

fun send_ok :: "pmain \<Rightarrow> to_crypto \<Rightarrow> bool" where
  "send_ok s (Verify m) \<longleftrightarrow> False"
| "send_ok s (SendReply a r) \<longleftrightarrow> True"
| "send_ok s (SendPrePrepare pp rqs) \<longleftrightarrow>
     is_primary s = Inr True \<and> pp_view_number pp = pm_view_number s \<and> rqs \<noteq> []"
| "send_ok s (SendPrepare p) \<longleftrightarrow> is_primary s = Inr False \<and> prepare_for_log s p"
| "send_ok s (SendCommit c) \<longleftrightarrow>
     ct_replica_id c = pm_id s \<and> ct_view_number c = pm_view_number s \<and>
     is_prepared s (ct_op_number c) (ct_request_digest c)"

lemma handle_request_later: "handle_request m s = Inr (s', out) \<Longrightarrow> later s s'"
  by (auto dest!: handle_request_frame intro: later_frame)

fun_cases main_handle_InrE: "main_handle msg s = Inr io"

lemma main_handle_cases:
  assumes "main_handle msg s = Inr (s', out)"
  obtains (Request) m where "msg = Verified (Request m)" and "handle_request m s = Inr (s', out)"
  | (Proposal) m rqs where "msg = Verified (PrePrepare m rqs) \<or> msg = Signed (PrePrepare m rqs)"
      and "receive_pre_prepare m rqs s = Inr (s', out)"
  | (Prepare) m where "msg = Verified (Prepare m) \<or> msg = Signed (Prepare m)"
      and "handle_prepare m s = (s', out)"
  | (Commit) m where "msg = Verified (Commit m) \<or> msg = Signed (Commit m)"
      and "handle_commit m s = Inr (s', out)"
  using assms by (rule main_handle_InrE; metis Request Proposal Prepare Commit)

lemma main_handle_later:
  assumes "main_handle msg s = Inr (s', out)"
  shows "later s s'"
  using assms
proof (cases rule: main_handle_cases)
  case (Prepare m)
  with handle_prepare_later [of s m] show ?thesis by simp
qed (auto dest: handle_request_later receive_pre_prepare_Inr handle_commit_later log_step_later)

lemma handle_commit_wf:
  assumes "handle_commit m s = Inr (s', out)" and "pmain_wf s"
  shows "pmain_wf s'"
  using assms(1)
proof (cases rule: handle_commit_Inr)
  case (Executed s1 s2 out1 b)
  have "pmain_wf s2"
    using execute_exec_frame [OF Executed(3)] assms(2) unfolding Executed(1)
    by (auto simp: exec_frame_def Let_def intro: pmain_wf_frame)
  with Executed(5) show ?thesis
    by (auto simp: do_close_batch_eq pmain_wf_def split: if_splits)
qed (use assms(2) in \<open>auto intro: pmain_wf_frame\<close>)

lemma handle_commit_executed:
  assumes "handle_commit m s = Inr (s', out)" and "pmain_executed a s"
    and "length (pm_log s) < 2 ^ 32"
  shows "pmain_executed a s'"
  using assms(1)
proof (cases rule: handle_commit_Inr)
  case Counted
  then show ?thesis
    by (auto intro: later_executed [OF later_commit_insert assms(2)])
next
  case (Executed s1 s2 out1 b)
  have "pmain_executed a s1"
    unfolding Executed(1) by (rule later_executed [OF later_commit_insert assms(2)]) simp_all
  with execute_executed [OF Executed(3)] assms(3) have "pmain_executed a s2"
    by (simp add: Executed(1))
  moreover from this have "pmain_executed a (fst (do_close_batch s2))"
    by (rule later_executed [OF do_close_batch_later]) (simp_all add: do_close_batch_eq)
  ultimately show ?thesis using Executed(5) by (auto split: if_splits)
qed (use assms(2) in simp)

lemma main_handle_wf:
  assumes "main_handle msg s = Inr (s', out)" and "pmain_wf s"
  shows "pmain_wf s'"
  using assms(1)
proof (cases rule: main_handle_cases)
  case (Request m)
  with assms(2) show ?thesis by (auto dest!: handle_request_frame intro: pmain_wf_frame)
next
  case (Prepare m)
  with handle_prepare_frame [of m s] assms(2) show ?thesis by (auto intro: pmain_wf_frame)
qed (use assms(2) in \<open>auto dest: receive_pre_prepare_Inr handle_commit_wf\<close>)

lemma main_handle_executed:
  assumes "main_handle msg s = Inr (s', out)" and "pmain_executed a s"
    and "length (pm_log s) < 2 ^ 32"
  shows "pmain_executed a s'"
  using assms(1)
proof (cases rule: main_handle_cases)
  case (Request m)
  then obtain q n where "s' = s\<lparr>pm_requests := q, pm_op_number := n\<rparr>"
    by (auto dest: handle_request_frame)
  with later_executed [OF main_handle_later [OF assms(1)] assms(2)] show ?thesis by simp
next
  case (Proposal m rqs)
  then have "log_step s s'" by (auto dest: receive_pre_prepare_Inr)
  then show ?thesis
    by (intro later_executed [OF _ assms(2)]) (simp_all add: log_step_def)
next
  case (Prepare m)
  with handle_prepare_frame [of m s] obtain q where "s' = s\<lparr>pm_prepare_quorums := q\<rparr>"
    by auto
  with later_executed [OF main_handle_later [OF assms(1)] assms(2)] show ?thesis by simp
next
  case (Commit m)
  then show ?thesis using assms(2,3) by (auto intro: handle_commit_executed)
qed

lemma handle_request_sends:
  assumes "handle_request m s = Inr (s', out)"
  shows "\<forall>c \<in> set out. send_ok s' c"
  using assms
  by (cases rule: request_cases [of s m])
     (auto simp: handle_request_simps do_close_batch_eq is_primary_def split: if_splits)

lemma handle_commit_sends:
  assumes "handle_commit m s = Inr (s', out)"
  shows "\<forall>c \<in> set out. send_ok s' c"
  using assms
proof (cases rule: handle_commit_Inr)
  case (Executed s1 s2 out1 b)
  have "only_replies s1 out1"
    using execute_exec_frame [OF Executed(3)] by (auto simp: exec_frame_def Let_def)
  with Executed(4,5) show ?thesis
    by (auto simp: only_replies_def do_close_batch_eq is_primary_def split: if_splits)
qed auto

lemma main_handle_sends:
  assumes "main_handle msg s = Inr (s', out)"
  shows "\<forall>c \<in> set out. send_ok s' c"
  using assms
proof (cases rule: main_handle_cases)
  case (Prepare m)
  then show ?thesis
    by (cases rule: handle_prepare_cases [of m s]) (auto split: if_splits)
next
  case (Proposal m rqs)
  then show ?thesis by (fastforce dest: receive_pre_prepare_Inr simp: only_prepares_def)
qed (auto dest: handle_request_sends handle_commit_sends)

section \<open>When a step fails\<close>

lemma handle_request_Inl:
  "handle_request m s = Inl e \<Longrightarrow>
     request_new s m \<and> (e = Todo \<and> is_primary s = Inr False \<or> is_primary s = Inl e)"
  by (cases rule: request_cases [of s m])
     (auto simp: handle_request_simps bind_res_eq_Inl split: if_splits)

lemma handle_commit_Inl:
  assumes "handle_commit m s = Inl e"
  shows "e = Diverges \<and> 2 ^ 32 \<le> length (pm_log s) \<or> is_primary s = Inl e"
proof -
  let ?s1 = "s\<lparr>pm_commit_quorums :=
      quorum_insert (ct_op_number (sg_inner m), ct_request_digest (sg_inner m))
        (ct_replica_id (sg_inner m)) (sg_signature m) (pm_commit_quorums s)\<rparr>"
  show ?thesis
  proof (cases "execute ?s1 []")
    case None
    with execute_terminates [of ?s1 "[]"] have "2 ^ 32 \<le> length (pm_log s)"
      by (cases "2 ^ 32 \<le> length (pm_log s)") auto
    with None assms show ?thesis by (auto simp: handle_commit_def Let_def split: if_splits)
  next
    case (Some io)
    then obtain s2 out where io: "execute ?s1 [] = Some (s2, out)" by (cases io) auto
    have "is_primary s2 = is_primary s"
      using later_is_primary [OF exec_frame_later] execute_exec_frame [OF io]
        later_is_primary [OF later_commit_insert] by metis
    with io assms show ?thesis
      by (auto simp: handle_commit_def Let_def bind_res_eq_Inl split_beta split: if_splits)
  qed
qed

lemma main_handle_Inl:
  assumes "main_handle msg s = Inl e" and "pmain_wf s"
  shows "(\<exists>m. msg = Signed (Request m) \<and> e = Todo) \<or>
    (\<exists>m. msg = Verified (Request m) \<and> request_new s m \<and> is_primary s = Inr False \<and> e = Todo) \<or>
    e = Diverges \<and> 2 ^ 32 \<le> length (pm_log s) \<or>
    e = Div_By_Zero \<and> (of_nat (tc_n (pm_config s)) :: u8) = 0"
proof -
  have "\<exists>m. msg = Signed (Request m) \<and> e = Todo"
    if "\<not> (\<exists>m. msg = Verified (Request m))" and "is_primary s \<noteq> Inl e"
      and "\<not> (e = Diverges \<and> 2 ^ 32 \<le> length (pm_log s))"
    using assms that
    by (cases "(msg, s)" rule: main_handle.cases)
       (auto dest: receive_pre_prepare_Inl handle_commit_Inl)
  then show ?thesis
    using assms(1) is_primary_Inl [of s e] handle_request_Inl [of _ s e] by fastforce
qed

end
