(* ===== verification/Pbft_Main_Runs.thy ===== *)
theory Pbft_Main_Runs
  imports Pbft_Main_Steps Pbft_Replica
begin

text \<open>
  Runs of the main thread: the messages it handles one after the other.  Proposals may arrive
  in any order and end up in the log in theirs; requests go into batches without loss; the
  executed part of the log is what the reply table shows.
\<close>

section \<open>Runs\<close>

fun main_run :: "to_main list \<Rightarrow> pmain \<Rightarrow> main_io res" where
  "main_run [] s = Inr (s, [])"
| "main_run (msg # msgs) s =
     bind_res (main_handle msg s) (\<lambda>(s, out).
     bind_res (main_run msgs s) (\<lambda>(s', out'). Inr (s', out @ out')))"

lemma main_run_Cons_Inr:
  "main_run (msg # msgs) s = Inr (s', out) \<longleftrightarrow>
     (\<exists>s1 out1 out2. main_handle msg s = Inr (s1, out1) \<and> main_run msgs s1 = Inr (s', out2) \<and>
        out = out1 @ out2)"
  by auto

lemma main_run_append:
  "main_run (xs @ ys) s =
     bind_res (main_run xs s) (\<lambda>(s, out).
     bind_res (main_run ys s) (\<lambda>(s', out'). Inr (s', out @ out')))"
proof (induction xs arbitrary: s)
  case Nil
  show ?case by (cases "main_run ys s") auto
next
  case (Cons x xs)
  show ?case
  proof (cases "main_handle x s")
    case (Inr io)
    then show ?thesis
      by (cases io; cases "main_run xs (fst io)"; cases "main_run ys (fst (projr (main_run xs (fst io))))")
         (auto simp: Cons split: prod.splits)
  qed simp
qed

lemma main_run_later: "main_run msgs s = Inr (s', out) \<Longrightarrow> later s s'"
proof (induction msgs arbitrary: s out)
  case (Cons msg msgs)
  from Cons.prems obtain s1 out1 out2 where "main_handle msg s = Inr (s1, out1)"
    "main_run msgs s1 = Inr (s', out2)" unfolding main_run_Cons_Inr by blast
  with Cons.IH main_handle_later show ?case by (blast intro: later_trans)
qed simp

lemma later_log_length: "later s s' \<Longrightarrow> length (pm_log s) \<le> length (pm_log s')"
  by (auto simp: later_def)

lemma main_run_wf: "main_run msgs s = Inr (s', out) \<Longrightarrow> pmain_wf s \<Longrightarrow> pmain_wf s'"
proof (induction msgs arbitrary: s out)
  case (Cons msg msgs)
  from Cons.prems(1) obtain s1 out1 out2 where "main_handle msg s = Inr (s1, out1)"
    "main_run msgs s1 = Inr (s', out2)" unfolding main_run_Cons_Inr by blast
  with Cons.IH main_handle_wf Cons.prems(2) show ?case by blast
qed simp

lemma main_run_executed:
  "main_run msgs s = Inr (s', out) \<Longrightarrow> pmain_executed a s \<Longrightarrow> length (pm_log s') < 2 ^ 32 \<Longrightarrow>
     pmain_executed a s'"
proof (induction msgs arbitrary: s out)
  case (Cons msg msgs)
  from Cons.prems(1) obtain s1 out1 out2 where h: "main_handle msg s = Inr (s1, out1)"
    and r: "main_run msgs s1 = Inr (s', out2)" unfolding main_run_Cons_Inr by blast
  have "length (pm_log s) \<le> length (pm_log s')"
    using later_log_length main_run_later [OF Cons.prems(1)] by blast
  with Cons.prems h have "pmain_executed a s1"
    by (auto intro: main_handle_executed)
  with Cons.IH [OF r] Cons.prems(3) show ?case by blast
qed simp

lemma pmain_new_wf: "pmain_wf (pmain_new common)"
  by (simp add: pmain_wf_def pmain_new_def)

lemma pmain_new_executed: "pmain_executed (rc_app common) (pmain_new common)"
  by (simp add: pmain_executed_def pmain_new_def log_history_def batch_ops_def svc_run_def)

section \<open>Batches\<close>

text \<open>The proposals among the messages to the crypto thread.\<close>

fun proposal :: "to_crypto \<Rightarrow> (u32 \<times> request list) list" where
  "proposal (SendPrePrepare pp rqs) = [(pp_op_number pp, rqs)]"
| "proposal _ = []"

definition proposals :: "to_crypto list \<Rightarrow> (u32 \<times> request list) list" where
  "proposals out = concat (map proposal out)"

lemma proposals_append [simp]: "proposals (xs @ ys) = proposals xs @ proposals ys"
  by (simp add: proposals_def)

lemma proposals_simps [simp]: "proposals [] = []" "proposals (c # cs) = proposal c @ proposals cs"
  by (simp_all add: proposals_def)

lemma only_replies_proposals: "only_replies s out \<Longrightarrow> proposals out = []"
  by (auto simp: only_replies_def proposals_def)

lemma only_prepares_proposals: "only_prepares s out \<Longrightarrow> proposals out = []"
  by (auto simp: only_prepares_def proposals_def)

text \<open>The request a message brings for execution.\<close>

definition submitted :: "to_main \<Rightarrow> pmain \<Rightarrow> request list" where
  "submitted msg s = (case msg of
     Verified (Request m) \<Rightarrow> if request_new s m then [m] else [] | _ \<Rightarrow> [])"

lemma submitted_simps [simp]:
  "submitted (Verified (Request m)) s = (if request_new s m then [m] else [])"
  "submitted (Verified (PrePrepare p rqs)) s = []" "submitted (Signed r) s = []"
  "submitted (Verified (Prepare q)) s = []" "submitted (Verified (Commit c)) s = []"
  by (simp_all add: submitted_def)

definition batch_step :: "request list \<Rightarrow> pmain \<Rightarrow> main_io \<Rightarrow> bool" where
  "batch_step new s io \<longleftrightarrow>
     concat (map snd (proposals (snd io))) @ pm_requests (fst io) = pm_requests s @ new \<and>
     (map fst (proposals (snd io)) = [] \<and> pm_op_number (fst io) = pm_op_number s \<or>
      map fst (proposals (snd io)) = [pm_op_number s + 1] \<and>
      pm_op_number (fst io) = pm_op_number s + 1)"

lemma handle_request_batch:
  assumes "handle_request m s = Inr io"
  shows "batch_step (if request_new s m then [m] else []) s io"
proof (cases rule: request_cases [of s m])
  case New
  with assms show ?thesis
    by (auto simp: handle_request_simps do_close_batch_eq batch_step_def split: if_splits)
qed (use assms in \<open>auto simp: handle_request_simps batch_step_def request_new_def\<close>)

lemma handle_commit_batch:
  assumes "handle_commit m s = Inr (s', out)"
  shows "batch_step [] s (s', out)"
  using assms
proof (cases rule: handle_commit_Inr)
  case (Executed s1 s2 out1 b)
  have fr: "exec_frame (s1, []) (s2, out1)" using execute_exec_frame [OF Executed(3)] by simp
  then have "pm_requests s2 = pm_requests s" "pm_op_number s2 = pm_op_number s"
    "proposals out1 = []"
    using Executed(1) by (auto simp: exec_frame_def Let_def dest: only_replies_proposals)
  with Executed(5) show ?thesis
    by (auto simp: batch_step_def do_close_batch_eq split: if_splits)
qed (auto simp: batch_step_def)

lemma main_handle_batch:
  assumes "main_handle msg s = Inr (s', out)"
  shows "batch_step (submitted msg s) s (s', out)"
  using assms
proof (cases rule: main_handle_cases)
  case (Request m)
  with handle_request_batch [of m s "(s', out)"] show ?thesis by simp
next
  case (Proposal m rqs)
  then have "log_step s s'" "only_prepares s' out" by (auto dest: receive_pre_prepare_Inr)
  with Proposal(1) show ?thesis
    by (auto simp: batch_step_def log_step_def only_prepares_proposals)
next
  case (Prepare m)
  then show ?thesis
    by (cases rule: handle_prepare_cases [of m s]) (auto simp: batch_step_def)
next
  case (Commit m)
  with handle_commit_batch [of m s s' out] show ?thesis by auto
qed

text \<open>All requests a run brings for execution.\<close>

fun submitted_run :: "to_main list \<Rightarrow> pmain \<Rightarrow> request list" where
  "submitted_run [] s = []"
| "submitted_run (msg # msgs) s =
     submitted msg s @
     (case main_handle msg s of Inl e \<Rightarrow> [] | Inr (s', out) \<Rightarrow> submitted_run msgs s')"

lemma main_run_batches:
  assumes "main_run msgs s = Inr (s', out)"
  shows "concat (map snd (proposals out)) @ pm_requests s' = pm_requests s @ submitted_run msgs s"
    and "map fst (proposals out) =
      map (\<lambda>i. pm_op_number s + of_nat (Suc i)) [0..<length (proposals out)] \<and>
      pm_op_number s' = pm_op_number s + of_nat (length (proposals out))"
  using assms
proof (atomize (full), induction msgs arbitrary: s out)
  case (Cons msg msgs)
  from Cons.prems obtain s1 out1 out2 where h: "main_handle msg s = Inr (s1, out1)"
    and r: "main_run msgs s1 = Inr (s', out2)" and out: "out = out1 @ out2"
    unfolding main_run_Cons_Inr by blast
  note IH = Cons.IH [OF r] and st = main_handle_batch [OF h, unfolded batch_step_def, simplified]
  from st consider "proposals out1 = []" "pm_op_number s1 = pm_op_number s"
    | rqs where "proposals out1 = [(pm_op_number s + 1, rqs)]" "pm_op_number s1 = pm_op_number s + 1"
    by (auto simp: map_eq_Cons_conv)
  then show ?case
  proof cases
    case 1
    with IH st h out show ?thesis by auto
  next
    case 2
    with IH st h out show ?thesis
      by (auto simp: upt_conv_Cons map_Suc_upt [symmetric] add.assoc simp del: upt_Suc
          intro!: map_cong)
  qed
qed simp

section \<open>Proposals in any order\<close>

type_synonym proposal_msg = "pre_prepare signed \<times> request list"

fun deliver :: "proposal_msg list \<Rightarrow> pmain \<Rightarrow> main_io res" where
  "deliver [] s = Inr (s, [])"
| "deliver ((m, rqs) # ds) s =
     bind_res (receive_pre_prepare m rqs s) (\<lambda>(s, out).
     bind_res (deliver ds s) (\<lambda>(s', out'). Inr (s', out @ out')))"

definition msg_number :: "proposal_msg \<Rightarrow> u32" where
  "msg_number d = pp_op_number (sg_inner (fst d))"

definition entry_of :: "proposal_msg \<Rightarrow> log_entry" where
  "entry_of d = \<lparr>le_pre_prepare = fst d, le_requests = snd d\<rparr>"

text \<open>The number of the entry at an index of the log, and the numbers in the log.\<close>

definition entry_number :: "nat \<Rightarrow> u32" where
  "entry_number i = of_nat (i + 1)"

definition logged_numbers :: "pmain \<Rightarrow> u32 set" where
  "logged_numbers s = entry_number ` {..<length (pm_log s)}"

lemma next_entry_number_eq: "next_entry_number s = entry_number (length (pm_log s))"
  by (simp add: next_entry_number_def entry_number_def)

lemma logged_numbers_simps [simp]:
  "logged_numbers (s\<lparr>pm_log := pm_log s @ [e]\<rparr>) = insert (next_entry_number s) (logged_numbers s)"
  "logged_numbers (s\<lparr>pm_reorder_pre_prepare := r\<rparr>) = logged_numbers s"
  by (simp_all add: logged_numbers_def next_entry_number_eq lessThan_Suc)

lemma logged_numbers_log: "i < length (pm_log s) \<Longrightarrow> entry_number i \<in> logged_numbers s"
  by (simp add: logged_numbers_def)

lemma entry_number_inj:
  "i < 2 ^ 32 - 1 \<Longrightarrow> j < 2 ^ 32 - 1 \<Longrightarrow> entry_number i = entry_number j \<longleftrightarrow> i = j"
  unfolding entry_number_def by (subst of_nat_u32_eq_iff) auto

lemma next_entry_number_fresh:
  "length (pm_log s) < 2 ^ 32 - 1 \<Longrightarrow> next_entry_number s \<notin> logged_numbers s"
  by (auto simp: logged_numbers_def next_entry_number_eq entry_number_inj)

text \<open>The proposal numbered like an index of the log is the one an entry was made from.\<close>

definition holds_entry :: "(u32 \<rightharpoonup> proposal_msg) \<Rightarrow> nat \<Rightarrow> log_entry \<Rightarrow> bool" where
  "holds_entry P i e \<longleftrightarrow> (\<exists>d. P (entry_number i) = Some d \<and> e = entry_of d)"

lemma holds_entryI: "P (entry_number i) = Some d \<Longrightarrow> holds_entry P i (entry_of d)"
  by (auto simp: holds_entry_def)

lemma holds_entry_update:
  "k \<noteq> entry_number i \<Longrightarrow> holds_entry (P(k \<mapsto> d)) i e = holds_entry P i e"
  by (simp add: holds_entry_def)

text \<open>
  \<open>P\<close> are the proposals delivered so far, by number: the log holds the first ones and the
  reorder buffer the others.
\<close>

definition reorder_inv :: "(u32 \<rightharpoonup> proposal_msg) \<Rightarrow> pmain \<Rightarrow> bool" where
  "reorder_inv P s \<longleftrightarrow>
     (\<forall>i < length (pm_log s). holds_entry P i (pm_log s ! i)) \<and>
     (\<forall>k. pm_reorder_pre_prepare s k = (if k \<in> logged_numbers s then None else P k))"

definition proposals_ok :: "(u32 \<rightharpoonup> proposal_msg) \<Rightarrow> pmain \<Rightarrow> bool" where
  "proposals_ok P s \<longleftrightarrow>
     (\<forall>k d. P k = Some d \<longrightarrow> msg_number d = k \<and> pp_view_number (sg_inner (fst d)) = pm_view_number s)"

lemma proposals_ok_view:
  "pm_view_number s' = pm_view_number s \<Longrightarrow> proposals_ok P s' = proposals_ok P s"
  by (simp add: proposals_ok_def)

lemma handle_pre_prepare_logs:
  assumes "pp_view_number (sg_inner m) = pm_view_number s"
    and "pp_op_number (sg_inner m) = next_entry_number s" and "is_primary s = Inr b"
  shows "\<exists>out. handle_pre_prepare m rqs s =
    Inr (s\<lparr>pm_log := pm_log s @ [\<lparr>le_pre_prepare = m, le_requests = rqs\<rparr>]\<rparr>, out)"
  using assms unfolding handle_pre_prepare_def Let_def by simp

lemma reorder_inv_push:
  assumes "\<forall>i < length (pm_log s). holds_entry P i (pm_log s ! i)"
    and "\<forall>k. r k = (if k = next_entry_number s \<or> k \<in> logged_numbers s then None else P k)"
    and "P (next_entry_number s) = Some d"
  shows "reorder_inv P (s\<lparr>pm_reorder_pre_prepare := r, pm_log := pm_log s @ [entry_of d]\<rparr>)"
proof -
  have "logged_numbers (s\<lparr>pm_reorder_pre_prepare := r, pm_log := pm_log s @ [entry_of d]\<rparr>) =
      insert (next_entry_number s) (logged_numbers s)"
    by (simp add: logged_numbers_def next_entry_number_eq lessThan_Suc)
  with assms show ?thesis
    unfolding reorder_inv_def
    by (auto simp: nth_append less_Suc_eq next_entry_number_eq intro: holds_entryI)
qed

lemma drain_reorder_inv:
  assumes "reorder_inv P s" and "proposals_ok P s" and "is_primary s = Inr b"
  shows "\<exists>s' out'. drain_reorder s out = Inr (s', out') \<and> reorder_inv P s' \<and>
    log_step s s' \<and> pm_reorder_pre_prepare s' (next_entry_number s') = None"
  using assms
proof (induction s out rule: drain_reorder.induct)
  case (1 s out)
  let ?k = "next_entry_number s"
  let ?r = "(pm_reorder_pre_prepare s)(?k := None)"
  let ?s0 = "s\<lparr>pm_reorder_pre_prepare := ?r\<rparr>"
  show ?case
  proof (cases "pm_reorder_pre_prepare s ?k")
    case None
    with "1.prems" show ?thesis by (simp add: drain_reorder.simps [of s])
  next
    case (Some mr)
    then obtain m rqs where mr: "pm_reorder_pre_prepare s ?k = Some (m, rqs)"
      by (cases mr) auto
    with "1.prems"(1) have P: "P ?k = Some (m, rqs)"
      by (auto simp: reorder_inv_def split: if_splits)
    with "1.prems"(2) have "pp_view_number (sg_inner m) = pm_view_number ?s0"
      and "pp_op_number (sg_inner m) = next_entry_number ?s0"
      by (auto simp: proposals_ok_def msg_number_def next_entry_number_def)
    with "1.prems"(3) obtain out1 where h: "handle_pre_prepare m rqs ?s0 =
        Inr (?s0\<lparr>pm_log := pm_log ?s0 @ [\<lparr>le_pre_prepare = m, le_requests = rqs\<rparr>]\<rparr>, out1)"
      using handle_pre_prepare_logs [of m ?s0 b rqs] by auto
    let ?s1 = "s\<lparr>pm_reorder_pre_prepare := ?r, pm_log := pm_log s @ [entry_of (m, rqs)]\<rparr>"
    have h': "handle_pre_prepare m rqs ?s0 = Inr (?s1, out1)"
      using h by (simp add: entry_of_def)
    have inv: "reorder_inv P ?s1"
      using "1.prems"(1) P by (intro reorder_inv_push) (auto simp: reorder_inv_def)
    have ok: "proposals_ok P ?s1" "is_primary ?s1 = Inr b"
      using "1.prems"(2,3) by (simp_all add: proposals_ok_def)
    from "1.IH" [OF mr refl h' refl inv ok]
    obtain s' out' where d: "drain_reorder ?s1 (out @ out1) = Inr (s', out')" "reorder_inv P s'"
      "log_step ?s1 s'" "pm_reorder_pre_prepare s' (next_entry_number s') = None" by blast
    have "log_step s ?s1" by (simp add: log_step_def later_def)
    with d mr h' show ?thesis
      by (auto simp: drain_reorder.simps [of s] intro: log_step_trans)
  qed
qed

text \<open>
  After a delivery that keeps the numbers of the proposals apart, the log is maximal: the
  next proposal has not been delivered.
\<close>

definition reorder_done :: "(u32 \<rightharpoonup> proposal_msg) \<Rightarrow> pmain \<Rightarrow> bool" where
  "reorder_done P s \<longleftrightarrow> reorder_inv P s \<and> pm_reorder_pre_prepare s (next_entry_number s) = None"

lemma receive_pre_prepare_done:
  assumes "reorder_done P s" and "proposals_ok (P(msg_number (m, rqs) \<mapsto> (m, rqs))) s"
    and "P (msg_number (m, rqs)) = None" and "is_primary s = Inr b"
  shows "\<exists>s' out. receive_pre_prepare m rqs s = Inr (s', out) \<and> log_step s s' \<and>
    reorder_done (P(msg_number (m, rqs) \<mapsto> (m, rqs))) s'"
proof -
  let ?k = "msg_number (m, rqs)" and ?P = "P(msg_number (m, rqs) \<mapsto> (m, rqs))"
  have k: "pp_op_number (sg_inner m) = ?k" by (simp add: msg_number_def)
  have view: "pp_view_number (sg_inner m) = pm_view_number s"
    using assms(2) [unfolded proposals_ok_def, rule_format, of ?k "(m, rqs)"] by simp
  have inv: "reorder_inv P s" using assms(1) by (simp add: reorder_done_def)
  have notin: "?k \<notin> logged_numbers s"
    using inv assms(3) by (auto simp: reorder_inv_def logged_numbers_def holds_entry_def)
  then have log: "\<forall>i < length (pm_log s). holds_entry ?P i (pm_log s ! i)"
    using inv logged_numbers_log [of _ s] holds_entry_update
    unfolding reorder_inv_def by metis
  have buf: "pm_reorder_pre_prepare s k' = (if k' \<in> logged_numbers s then None else P k')" for k'
    using inv by (simp add: reorder_inv_def)
  show ?thesis
  proof (cases "?k = next_entry_number s")
    case False
    let ?s' = "s\<lparr>pm_reorder_pre_prepare := (pm_reorder_pre_prepare s)(?k \<mapsto> (m, rqs))\<rparr>"
    have "reorder_inv ?P ?s'"
      unfolding reorder_inv_def using log notin by (simp add: buf)
    moreover have "next_entry_number ?s' = next_entry_number s"
      by (simp add: next_entry_number_def)
    ultimately have "reorder_done ?P ?s'"
      using assms(1) False by (simp add: reorder_done_def)
    with False k show ?thesis by (simp add: receive_pre_prepare_def log_step_reorder)
  next
    case True
    let ?s1 = "s\<lparr>pm_log := pm_log s @ [entry_of (m, rqs)]\<rparr>"
    from handle_pre_prepare_logs [OF view _ assms(4), of rqs] k True
    obtain out1 where h: "handle_pre_prepare m rqs s = Inr (?s1, out1)"
      by (auto simp: entry_of_def)
    have "pm_reorder_pre_prepare s k' =
        (if k' = next_entry_number s \<or> k' \<in> logged_numbers s then None else ?P k')" for k'
      using assms(1) True buf by (auto simp: reorder_done_def)
    then have "reorder_inv ?P (s\<lparr>pm_reorder_pre_prepare := pm_reorder_pre_prepare s,
        pm_log := pm_log s @ [entry_of (m, rqs)]\<rparr>)"
      using log True by (intro reorder_inv_push) simp_all
    then have inv': "reorder_inv ?P ?s1" by simp
    have "proposals_ok ?P ?s1" "is_primary ?s1 = Inr b"
      using assms(2,4) proposals_ok_view [of ?s1 s ?P] by simp_all
    from drain_reorder_inv [OF inv' this, of out1]
    obtain s' out' where d: "drain_reorder ?s1 out1 = Inr (s', out')" "reorder_inv ?P s'"
      "log_step ?s1 s'" "pm_reorder_pre_prepare s' (next_entry_number s') = None" by blast
    have "log_step s ?s1" by (simp add: log_step_def later_def)
    with d h True k show ?thesis
      by (auto simp: receive_pre_prepare_def reorder_done_def intro: log_step_trans)
  qed
qed

definition by_number :: "proposal_msg list \<Rightarrow> u32 \<rightharpoonup> proposal_msg" where
  "by_number ds = map_of (map (\<lambda>d. (msg_number d, d)) ds)"

lemma deliver_done:
  assumes "reorder_done P s" and "proposals_ok (P ++ by_number ds) s"
    and "distinct (map msg_number ds)" and "\<forall>d \<in> set ds. P (msg_number d) = None"
    and "is_primary s = Inr b"
  shows "\<exists>s' out. deliver ds s = Inr (s', out) \<and> log_step s s' \<and>
    reorder_done (P ++ by_number ds) s'"
  using assms
proof (induction ds arbitrary: P s)
  case Nil
  then show ?case by (simp add: by_number_def)
next
  case (Cons d ds)
  obtain m rqs where d: "d = (m, rqs)" by (cases d)
  let ?P = "P(msg_number d \<mapsto> d)"
  have notin: "by_number ds (msg_number d) = None"
    using Cons.prems(3) by (auto simp: by_number_def map_of_eq_None_iff)
  have split: "P ++ by_number (d # ds) = ?P ++ by_number ds"
    using notin by (auto simp: by_number_def map_add_def fun_eq_iff split: option.splits)
  have sub: "?P \<subseteq>\<^sub>m P ++ by_number (d # ds)"
    using notin Cons.prems(4) unfolding split map_le_def map_add_def
    by (auto simp: by_number_def map_of_eq_None_iff dest!: map_of_SomeD split: option.splits)
  have "proposals_ok ?P s"
    using Cons.prems(2) sub unfolding proposals_ok_def map_le_def by (metis domI)
  then obtain s1 out1 where r: "receive_pre_prepare m rqs s = Inr (s1, out1)"
    and ls: "log_step s s1" and dn: "reorder_done ?P s1"
    using receive_pre_prepare_done [of P s m rqs b] Cons.prems(1,4,5) unfolding d by auto
  have ok: "proposals_ok (?P ++ by_number ds) s1"
    using Cons.prems(2) ls proposals_ok_view [of s1 s] unfolding split
    by (simp add: log_step_def later_def)
  have new: "\<forall>d' \<in> set ds. ?P (msg_number d') = None" and dist: "distinct (map msg_number ds)"
    using Cons.prems(3,4) by (auto simp: image_iff)
  have "is_primary s1 = Inr b"
    using Cons.prems(5) later_is_primary [OF log_step_later [OF ls]] by simp
  from Cons.IH [OF dn ok dist new this] obtain s' out where "deliver ds s1 = Inr (s', out)"
    "log_step s1 s'" "reorder_done (?P ++ by_number ds) s'" by blast
  with r ls d split show ?case by (auto intro: log_step_trans)
qed

end
