(* ===== verification/Pbft_Main_Sends.thy ===== *)
theory Pbft_Main_Sends
  imports Pbft_Main_Runs
begin

text \<open>
  What runs of the main thread send: one prepare for each entry a backup appends to its log, in
  the order of the log, and replies that carry results of the executed history.
\<close>

section \<open>Prepares follow the log\<close>

fun is_send_prepare :: "to_crypto \<Rightarrow> bool" where
  "is_send_prepare (SendPrepare _) \<longleftrightarrow> True"
| "is_send_prepare _ \<longleftrightarrow> False"

text \<open>The prepare a backup sends for an entry.\<close>

definition prepare_of :: "pmain \<Rightarrow> log_entry \<Rightarrow> to_crypto" where
  "prepare_of s e = SendPrepare
     \<lparr>pr_view_number = pm_view_number s,
      pr_op_number = pp_op_number (sg_inner (le_pre_prepare e)),
      pr_request_digest = pp_request_digest (sg_inner (le_pre_prepare e)),
      pr_replica_id = pm_id s\<rparr>"

text \<open>The prepares for the entries \<open>s'\<close> has and \<open>s\<close> does not have.\<close>

definition new_prepares :: "pmain \<Rightarrow> pmain \<Rightarrow> to_crypto list" where
  "new_prepares s s' =
     (if is_primary s = Inr True then []
      else map (prepare_of s) (drop (length (pm_log s)) (pm_log s')))"

lemma is_send_prepare_of [simp]: "is_send_prepare (prepare_of s e)"
  by (simp add: prepare_of_def)

lemma prepare_of_later: "later s s' \<Longrightarrow> prepare_of s' = prepare_of s"
  by (auto simp: prepare_of_def later_def fun_eq_iff)

lemma new_prepares_same: "pm_log s' = pm_log s \<Longrightarrow> new_prepares s s' = []"
  by (simp add: new_prepares_def)

lemma new_prepares_trans:
  assumes "later s s1" and "later s1 s2"
  shows "new_prepares s s1 @ new_prepares s1 s2 = new_prepares s s2"
  using assms later_is_primary [OF assms(1)] prepare_of_later [OF assms(1)]
  by (auto simp: new_prepares_def later_def)

lemma handle_pre_prepare_new:
  assumes "handle_pre_prepare m rqs s = Inr (s', out)"
  shows "out = new_prepares s s'"
  using assms
  by (rule handle_pre_prepare_Inr) (auto simp: new_prepares_def prepare_of_def)

lemma drain_reorder_new:
  "drain_reorder s out = Inr (s', out') \<Longrightarrow> out' = out @ new_prepares s s'"
proof (induction s out rule: drain_reorder.induct)
  case (1 s out)
  let ?s0 = "s\<lparr>pm_reorder_pre_prepare := (pm_reorder_pre_prepare s)(next_entry_number s := None)\<rparr>"
  show ?case
  proof (cases "pm_reorder_pre_prepare s (next_entry_number s)")
    case None
    with "1.prems" show ?thesis by (simp add: drain_reorder.simps [of s] new_prepares_same)
  next
    case (Some mr)
    obtain m rqs where mr: "mr = (m, rqs)" by (cases mr)
    with "1.prems" Some obtain s1 out1 where h: "handle_pre_prepare m rqs ?s0 = Inr (s1, out1)"
      and d: "drain_reorder s1 (out @ out1) = Inr (s', out')"
      by (auto simp: drain_reorder.simps [of s] split: sum.splits)
    from "1.IH" [OF Some mr [symmetric] h refl d] have o: "out' = (out @ out1) @ new_prepares s1 s'" .
    have "out1 = new_prepares s s1"
      using handle_pre_prepare_new [OF h] by (simp add: new_prepares_def prepare_of_def)
    moreover have "later s s1"
      using handle_pre_prepare_later [OF h] log_step_later [OF log_step_reorder] later_trans
      by blast
    moreover have "later s1 s'" using drain_reorder_Inr [OF d] by (simp add: log_step_later)
    ultimately show ?thesis using o new_prepares_trans [of s s1 s'] by simp
  qed
qed

lemma receive_pre_prepare_new:
  assumes "receive_pre_prepare m rqs s = Inr (s', out)"
  shows "out = new_prepares s s'"
proof (cases "pp_op_number (sg_inner m) = next_entry_number s")
  case False
  with assms show ?thesis by (auto simp: receive_pre_prepare_def new_prepares_same)
next
  case True
  with assms obtain s1 out1 where h: "handle_pre_prepare m rqs s = Inr (s1, out1)"
    and d: "drain_reorder s1 out1 = Inr (s', out)"
    by (auto simp: receive_pre_prepare_def)
  have "later s1 s'" using drain_reorder_Inr [OF d] by (simp add: log_step_later)
  with handle_pre_prepare_new [OF h] handle_pre_prepare_later [OF h] drain_reorder_new [OF d]
  show ?thesis by (simp add: new_prepares_trans)
qed

lemma new_prepares_filter [simp]: "filter is_send_prepare (new_prepares s s') = new_prepares s s'"
  by (auto simp: new_prepares_def filter_id_conv)

lemma only_replies_no_prepare: "only_replies s out \<Longrightarrow> filter is_send_prepare out = []"
  by (auto simp: only_replies_def filter_empty_conv)

lemma main_handle_prepares:
  assumes "main_handle msg s = Inr (s', out)"
  shows "filter is_send_prepare out = new_prepares s s'"
  using assms
proof (cases rule: main_handle_cases)
  case (Request m)
  then show ?thesis
    by (cases rule: request_cases [of s m])
       (auto simp: handle_request_simps do_close_batch_eq new_prepares_same split: if_splits)
next
  case (Proposal m rqs)
  with receive_pre_prepare_new [OF Proposal(2)] show ?thesis by simp
next
  case (Prepare m)
  then show ?thesis
    by (cases rule: handle_prepare_cases [of m s]) (auto simp: new_prepares_same split: if_splits)
next
  case (Commit m)
  from Commit(2) show ?thesis
  proof (cases rule: handle_commit_Inr)
    case (Executed s1 s2 out1 b)
    have fr: "exec_frame (s1, []) (s2, out1)" using execute_exec_frame [OF Executed(3)] by simp
    then have "pm_log s2 = pm_log s" "filter is_send_prepare out1 = []"
      using Executed(1) by (auto simp: exec_frame_def Let_def dest: only_replies_no_prepare)
    with Executed(5) show ?thesis
      by (auto simp: do_close_batch_eq new_prepares_same split: if_splits)
  qed (auto simp: new_prepares_same)
qed

lemma main_run_prepares:
  "main_run msgs s = Inr (s', out) \<Longrightarrow> filter is_send_prepare out = new_prepares s s'"
proof (induction msgs arbitrary: s out)
  case (Cons msg msgs)
  from Cons.prems obtain s1 out1 out2 where h: "main_handle msg s = Inr (s1, out1)"
    and r: "main_run msgs s1 = Inr (s', out2)" and o: "out = out1 @ out2"
    unfolding main_run_Cons_Inr by blast
  from Cons.IH [OF r] main_handle_prepares [OF h] o
    new_prepares_trans [OF main_handle_later [OF h] main_run_later [OF r]]
  show ?case by simp
qed (simp add: new_prepares_same)

section \<open>Replies come from the executed history\<close>

fun reply_from :: "svc \<Rightarrow> to_crypto \<Rightarrow> bool" where
  "reply_from v (SendReply a r) \<longleftrightarrow>
     (\<exists>m. (m, rp_result r) \<in> set (svc_done v) \<and> rq_request_number m = rp_request_number r)"
| "reply_from v _ \<longleftrightarrow> True"

definition svc_extends :: "svc \<Rightarrow> svc \<Rightarrow> bool" where
  "svc_extends v v' \<longleftrightarrow> (\<exists>d. svc_done v' = svc_done v @ d)"

lemma svc_extends_refl [simp]: "svc_extends v v"
  by (simp add: svc_extends_def)

lemma svc_extends_trans: "svc_extends v v' \<Longrightarrow> svc_extends v' v'' \<Longrightarrow> svc_extends v v''"
  by (auto simp: svc_extends_def)

lemma svc_extends_submit: "svc_extends v (svc_submit n m v)"
  by (simp add: svc_extends_def svc_submit_def svc_execute_def split: prod.split)

lemma svc_extends_run: "svc_extends v (svc_run nms v)"
  unfolding svc_run_def
proof (induction nms arbitrary: v)
  case (Cons nm nms)
  obtain n m where nm: "nm = (n, m)" by (cases nm)
  show ?case
    using svc_extends_trans [OF svc_extends_submit Cons.IH] by (simp add: nm)
qed simp

lemma svc_extends_log:
  assumes "k \<le> k'" and "k \<le> length es"
  shows "svc_extends (log_history a es k) (log_history a (es @ es') k')"
proof -
  from assms(1) obtain j where j: "k' = k + j" using le_Suc_ex by blast
  have "svc_extends (log_history a (es @ es') k) (log_history a (es @ es') (k + i))" for i
    by (induction i) (auto simp: log_history_Suc intro: svc_extends_trans svc_extends_run)
  with j log_history_append [OF assms(2)] show ?thesis by metis
qed

lemma reply_from_extends: "reply_from v c \<Longrightarrow> svc_extends v v' \<Longrightarrow> reply_from v' c"
  by (cases c) (auto simp: svc_extends_def)

text \<open>A reply out of a table that stands for a history is from the history.\<close>

lemma reply_from_table:
  assumes "table_sim ap tbl v" and "tbl c = Some r"
  shows "reply_from v (SendReply a r)"
proof -
  from assms have "map_option (\<lambda>(q, res). (rq_request_number q, res)) (svc_last v c) =
      Some (rp_request_number r, rp_result r)"
    by (metis (mono_tags) option.simps(9) table_sim_def)
  then obtain q where l: "svc_last v c = Some (q, rp_result r)"
    "rq_request_number q = rp_request_number r" by auto
  with find_SomeD [OF l(1) [unfolded svc_last_def]] show ?thesis by auto
qed

lemma execute_request_replies:
  assumes "table_sim (pm_app (fst io)) (pm_client_table (fst io)) v"
    and "\<forall>c \<in> set (snd io). reply_from v c"
  shows "\<forall>c \<in> set (snd (execute_request m io)).
    reply_from (svc_submit (pm_execute_number (fst io)) m v) c"
proof -
  let ?v = "svc_submit (pm_execute_number (fst io)) m v"
  have old: "\<forall>c \<in> set (snd io). reply_from ?v c"
    using assms(2) svc_extends_submit reply_from_extends by blast
  have "table_sim (pm_app (fst (execute_request m io)))
      (pm_client_table (fst (execute_request m io))) ?v"
    using pm.handle_sim [OF assms(1)] .
  from reply_from_table [OF this, of "rq_client_id m"] old show ?thesis
    by (cases io)
       (auto simp: execute_request_def Let_def simp del: reply_from.simps(1)
         split: option.splits prod.splits if_splits)
qed

lemma execute_batch_replies:
  assumes "table_sim (pm_app (fst io)) (pm_client_table (fst io)) v"
    and "\<forall>c \<in> set (snd io). reply_from v c"
  shows "\<forall>c \<in> set (snd (execute_batch ms io)).
    reply_from (svc_run (map (Pair (pm_execute_number (fst io))) ms) v) c"
  using assms
proof (induction ms arbitrary: io v)
  case (Cons m ms)
  from Cons.IH [OF pm.handle_sim [OF Cons.prems(1), of m] execute_request_replies [OF Cons.prems]]
  show ?case by (simp add: execute_batch_def svc_run_def execute_request_number)
qed (simp add: execute_batch_def svc_run_def)

text \<open>The history of the executed part of the log of a thread.\<close>

definition pmain_history :: "app \<Rightarrow> pmain \<Rightarrow> svc" where
  "pmain_history a s = log_history a (pm_log s) (unat (pm_execute_number s))"

definition replies_ok :: "app \<Rightarrow> pmain \<Rightarrow> to_crypto list \<Rightarrow> bool" where
  "replies_ok a s out \<longleftrightarrow> (\<forall>c \<in> set out. reply_from (pmain_history a s) c)"

lemma execute_next_replies:
  assumes "pmain_executed a s" and "next_committed s" and "length (pm_log s) < 2 ^ 32"
    and "replies_ok a s out"
  shows "replies_ok a (fst (execute_next (pm_log s ! unat (pm_execute_number s)) (s, out)))
    (snd (execute_next (pm_log s ! unat (pm_execute_number s)) (s, out)))"
proof -
  let ?k = "unat (pm_execute_number s)"
  let ?e = "pm_log s ! ?k"
  let ?io = "execute_next ?e (s, out)"
  have k: "?k < length (pm_log s)"
    using assms(2) by (simp add: next_committed_def log_entry_at_next split: if_splits)
  have "unat (pm_execute_number (fst ?io)) = Suc ?k"
    using k assms(3) by (simp add: execute_next_number unat_Suc_u32)
  then have h: "pmain_history a (fst ?io) = log_history a (pm_log s) (Suc ?k)"
    by (simp add: pmain_history_def execute_next_log)
  have "\<forall>c \<in> set (snd ?io). reply_from (log_history a (pm_log s) (Suc ?k)) c"
    using execute_batch_replies [of "(s\<lparr>pm_execute_number := pm_execute_number s + 1\<rparr>, out)"
        "log_history a (pm_log s) ?k" "le_requests ?e"] assms(1,4)
    by (simp add: pmain_executed_def execute_next_def log_history_Suc replies_ok_def
        pmain_history_def add.commute)
  then show ?thesis by (simp add: replies_ok_def h)
qed

lemma execute_replies:
  assumes "execute s out = Some (s', out')" and "pmain_executed a s"
    and "length (pm_log s) < 2 ^ 32" and "replies_ok a s out"
  shows "replies_ok a s' out'"
  using execute_induct [OF assms(1), of "\<lambda>s out. pmain_executed a s \<and> length (pm_log s) < 2 ^ 32 \<and>
      replies_ok a s out"] assms(2-4)
    execute_next_executed execute_next_replies
  by (auto simp: execute_next_log)

lemma pmain_history_extends:
  assumes "later s s'" and "unat (pm_execute_number s) \<le> unat (pm_execute_number s')"
    and "unat (pm_execute_number s) \<le> length (pm_log s)"
  shows "svc_extends (pmain_history a s) (pmain_history a s')"
  using assms svc_extends_log unfolding later_def pmain_history_def by metis

lemma execute_number_mono:
  assumes "execute s out = Some (s', out')" and "length (pm_log s) < 2 ^ 32"
  shows "unat (pm_execute_number s) \<le> unat (pm_execute_number s')"
proof -
  have "(length (pm_log s') < 2 ^ 32 \<and> unat (pm_execute_number s) \<le> unat (pm_execute_number s')) \<and>
      \<not> next_committed s'"
    using assms(2)
    by (intro execute_induct [OF assms(1), of "\<lambda>s' out. length (pm_log s') < 2 ^ 32 \<and>
          unat (pm_execute_number s) \<le> unat (pm_execute_number s')"])
       (auto simp: execute_next_log execute_next_number next_committed_def log_entry_at_next
         unat_Suc_u32 split: if_splits)
  then show ?thesis by simp
qed

lemma replies_ok_same:
  "pm_client_table s c = Some r \<Longrightarrow> pmain_executed a s \<Longrightarrow>
     reply_from (pmain_history a s) (SendReply b r)"
  by (auto simp: pmain_executed_def pmain_history_def simp del: reply_from.simps
      intro: reply_from_table)

lemma replies_ok_extends:
  "replies_ok a s out \<Longrightarrow> svc_extends (pmain_history a s) (pmain_history a s') \<Longrightarrow>
     replies_ok a s' out"
  by (auto simp: replies_ok_def intro: reply_from_extends)

lemma handle_commit_replies:
  assumes "handle_commit m s = Inr (s', out)" and "pmain_executed a s"
    and "length (pm_log s) < 2 ^ 32"
  shows "unat (pm_execute_number s) \<le> unat (pm_execute_number s') \<and> replies_ok a s' out"
  using assms(1)
proof (cases rule: handle_commit_Inr)
  case (Executed s1 s2 out1 b)
  have "pmain_executed a s1"
    unfolding Executed(1) by (rule later_executed [OF later_commit_insert assms(2)]) simp_all
  with execute_replies [OF Executed(3)] execute_number_mono [OF Executed(3)] assms(3)
  have "unat (pm_execute_number s) \<le> unat (pm_execute_number s2) \<and> replies_ok a s2 out1"
    by (simp add: Executed(1) replies_ok_def)
  with Executed(5) show ?thesis
    by (auto simp: do_close_batch_eq replies_ok_def pmain_history_def split: if_splits)
qed (simp_all add: replies_ok_def)

lemma main_handle_replies:
  assumes "main_handle msg s = Inr (s', out)" and "pmain_executed a s"
    and "length (pm_log s) < 2 ^ 32"
  shows "unat (pm_execute_number s) \<le> unat (pm_execute_number s') \<and> replies_ok a s' out"
  using assms(1)
proof (cases rule: main_handle_cases)
  case (Request m)
  then show ?thesis
  proof (cases rule: request_cases [of s m])
    case (Again rep)
    with Request(2) assms(2) show ?thesis
      by (auto simp: handle_request_simps replies_ok_def simp del: reply_from.simps(1)
          intro: replies_ok_same)
  qed (auto simp: handle_request_simps do_close_batch_eq replies_ok_def split: if_splits)
next
  case (Proposal m rqs)
  then have "log_step s s'" "only_prepares s' out" by (auto dest: receive_pre_prepare_Inr)
  then show ?thesis by (auto simp: log_step_def only_prepares_def replies_ok_def)
next
  case (Prepare m)
  then show ?thesis
    by (cases rule: handle_prepare_cases [of m s]) (auto simp: replies_ok_def split: if_splits)
next
  case (Commit m)
  with handle_commit_replies assms(2,3) show ?thesis by blast
qed

lemma main_run_replies:
  assumes "main_run msgs s = Inr (s', out)" and "pmain_executed a s"
    and "length (pm_log s') < 2 ^ 32"
  shows "svc_extends (pmain_history a s) (pmain_history a s') \<and> replies_ok a s' out"
  using assms
proof (induction msgs arbitrary: s out)
  case Nil
  then show ?case by (simp add: replies_ok_def)
next
  case (Cons msg msgs)
  from Cons.prems(1) obtain s1 out1 out2 where h: "main_handle msg s = Inr (s1, out1)"
    and r: "main_run msgs s1 = Inr (s', out2)" and o: "out = out1 @ out2"
    unfolding main_run_Cons_Inr by blast
  have len: "length (pm_log s) < 2 ^ 32"
    using later_log_length [OF main_run_later [OF Cons.prems(1)]] Cons.prems(3) by simp
  have ex: "pmain_executed a s1" by (rule main_handle_executed [OF h Cons.prems(2) len])
  from main_handle_replies [OF h Cons.prems(2) len] Cons.prems(2)
  have e: "svc_extends (pmain_history a s) (pmain_history a s1)" and r1: "replies_ok a s1 out1"
    by (auto intro!: pmain_history_extends main_handle_later [OF h] simp: pmain_executed_def)
  from Cons.IH [OF r ex Cons.prems(3)] e r1 show ?case
    unfolding o by (auto simp: replies_ok_def intro: svc_extends_trans reply_from_extends)
qed

end
