(* ===== verification/Pbft_Main_Properties.thy ===== *)
theory Pbft_Main_Properties
  imports Pbft_Main_Sends Samples "HOL-Library.Multiset"
begin

text \<open>
  The properties of the main thread, each with an instance on the four-replica deployment.
\<close>

section \<open>Evaluation\<close>

text \<open>The facts that evaluate runs of the thread on concrete messages.\<close>

lemma is_primary_new:
  "is_primary (pmain_new common) =
     (if (of_nat (tc_n (rc_config common)) :: u8) = 0 then Inl Div_By_Zero
      else Inr ((of_nat (rc_common_id common) :: u8) = 0))"
  by (simp add: is_primary_def pmain_new_def rem_u8_def)

lemmas main_eval = pmain_new_def handle_request_def do_close_batch_def handle_pre_prepare_def
  handle_prepare_def handle_commit_def receive_pre_prepare_def is_primary_def rem_u8_def
  is_committed_def is_prepared_def log_entry_at_def quorum_len_def quorum_insert_def
  next_entry_number_def execute_batch_def execute_request_def Let_def drain_reorder.simps
  execute.simps

text \<open>Two proposals, and a run of replica 1 that executes the first.\<close>

definition sample_proposals :: "proposal_msg list" where
  "sample_proposals = [(sample_pre_prepare 1 [], [sample_request 1]),
                       (sample_pre_prepare 2 [], [sample_request 2])]"

definition sample_msgs :: "to_main list" where
  "sample_msgs =
     [Verified (PrePrepare (sample_pre_prepare 1 []) [sample_request 1]),
      Signed (Prepare (sample_prepare 1 [] 1)), Verified (Prepare (sample_prepare 1 [] 2)),
      Signed (Commit (sample_commit 1 [] 1)), Verified (Commit (sample_commit 1 [] 2)),
      Verified (Commit (sample_commit 1 [] 0))]"

definition sample_reply :: reply where
  "sample_reply =
     \<lparr>rp_request_number = 1, rp_result = [], rp_replica_id = 1, rp_view_number = 0\<rparr>"

definition sample_out :: "to_crypto list" where
  "sample_out =
     [SendPrepare (sg_inner (sample_prepare 1 [] 1)), SendCommit (sg_inner (sample_commit 1 [] 1)),
      SendReply sample_client_addr sample_reply]"

definition sample_end :: pmain where
  "sample_end = (pmain_new (sample_common 1))
     \<lparr>pm_client_table := [1 \<mapsto> sample_reply], pm_execute_number := 1,
      pm_log := [entry_of (sample_proposals ! 0)],
      pm_prepare_quorums := [(1, []) \<mapsto> [1 \<mapsto> [], 2 \<mapsto> []]],
      pm_commit_quorums := [(1, []) \<mapsto> [1 \<mapsto> [], 2 \<mapsto> [], 0 \<mapsto> []]]\<rparr>"

lemma sample_run: "main_run sample_msgs (pmain_new (sample_common 1)) = Inr (sample_end, sample_out)"
  by (simp add: main_eval sample_defs sample_msgs_def sample_end_def sample_out_def
      sample_reply_def sample_proposals_def entry_of_def)

lemma sample_end_log: "length (pm_log sample_end) < 2 ^ 32"
  by (simp add: sample_end_def)

section \<open>Proposals\<close>

definition proposal_messages :: "proposal_msg list \<Rightarrow> to_main list" where
  "proposal_messages ds = map (\<lambda>d. Verified (PrePrepare (fst d) (snd d))) ds"

lemma main_run_deliver: "main_run (proposal_messages ds) s = deliver ds s"
  by (induction ds arbitrary: s)
     (auto simp: proposal_messages_def bind_res_def split: sum.splits prod.splits)

lemma by_number_entry:
  assumes "distinct (map msg_number ds)" and "d \<in> set ds"
  shows "by_number ds (msg_number d) = Some d"
  unfolding by_number_def by (rule map_of_is_SomeI) (use assms in \<open>simp_all add: comp_def\<close>)

lemma by_number_SomeD: "by_number ds k = Some d \<Longrightarrow> d \<in> set ds \<and> msg_number d = k"
  unfolding by_number_def by (auto dest: map_of_SomeD)

text \<open>When the proposals delivered are numbered 1 to \<open>n\<close>, the finished log holds them all.\<close>

lemma reorder_done_complete:
  assumes "reorder_done (by_number ds) s" and "mset ds = mset ds0"
    and "map msg_number ds0 = map entry_number [0..<length ds0]" and "length ds0 < 2 ^ 32 - 1"
  shows "pm_log s = map entry_of ds0 \<and> pm_reorder_pre_prepare s = Map.empty"
proof -
  let ?n = "length ds0" and ?l = "length (pm_log s)"
  have num: "msg_number (ds0 ! i) = entry_number i" if "i < ?n" for i
    using arg_cong [OF assms(3), of "\<lambda>xs. xs ! i"] that by simp
  have "distinct (map entry_number [0..<?n])"
    using assms(4) by (auto simp: distinct_map inj_on_def entry_number_inj)
  then have "distinct (map msg_number ds0)" by (simp add: assms(3))
  then have "distinct (map msg_number ds)"
    using assms(2) by (metis mset_eq_imp_distinct_iff mset_map)
  moreover have "set ds = set ds0" using assms(2) by (metis set_mset_mset)
  ultimately have at: "by_number ds (entry_number i) = Some (ds0 ! i)" if "i < ?n" for i
    using by_number_entry [of ds "ds0 ! i"] num that by simp
  have only: "k \<in> entry_number ` {..<?n}" if "by_number ds k = Some d" for k d
    using by_number_SomeD [OF that] num \<open>set ds = set ds0\<close> by (auto simp: in_set_conv_nth)
  have inv: "holds_entry (by_number ds) i (pm_log s ! i)" if "i < ?l" for i
    using assms(1) that by (simp add: reorder_done_def reorder_inv_def)
  have buf: "pm_reorder_pre_prepare s k =
      (if k \<in> logged_numbers s then None else by_number ds k)" for k
    using assms(1) by (simp add: reorder_done_def reorder_inv_def)
  have le: "?l \<le> ?n"
  proof (rule ccontr)
    assume "\<not> ?l \<le> ?n"
    with inv [of ?n] obtain d where "by_number ds (entry_number ?n) = Some d"
      by (auto simp: holds_entry_def)
    from only [OF this] assms(4) show False by (auto simp: entry_number_inj)
  qed
  have "\<not> ?l < ?n"
  proof
    assume l: "?l < ?n"
    then have "next_entry_number s \<notin> logged_numbers s"
      using assms(4) by (intro next_entry_number_fresh) simp
    with buf at [OF l] assms(1) show False
      by (simp add: reorder_done_def next_entry_number_eq)
  qed
  with le have l: "?l = ?n" by simp
  have "pm_log s = map entry_of ds0"
    using inv at by (intro nth_equalityI) (auto simp: l holds_entry_def)
  moreover have "pm_reorder_pre_prepare s k = None" for k
    using buf [of k] only [of k] by (cases "by_number ds k") (auto simp: logged_numbers_def l)
  ultimately show ?thesis by auto
qed

lemma reorder_done_new: "reorder_done Map.empty (pmain_new common)"
  by (simp add: reorder_done_def reorder_inv_def pmain_new_def)

text \<open>
  C13. Whatever the order in which the proposals numbered 1 to n of view 0 reach a new replica,
  the main thread accepts them all: its log ends up with exactly these proposals in the order
  of their numbers, and nothing is left in the reorder buffer.
\<close>
theorem proposals_any_order:
  assumes "mset ds = mset ds0"
    and "map msg_number ds0 = map entry_number [0..<length ds0]"
    and "\<forall>d \<in> set ds0. pp_view_number (sg_inner (fst d)) = 0"
    and "length ds0 < 2 ^ 32 - 1"
    and "(of_nat (tc_n (rc_config common)) :: u8) \<noteq> 0"
  shows "\<exists>s out. main_run (proposal_messages ds) (pmain_new common) = Inr (s, out) \<and>
    pm_log s = map entry_of ds0 \<and> pm_reorder_pre_prepare s = Map.empty"
proof -
  have set: "set ds = set ds0" using assms(1) by (metis set_mset_mset)
  have "distinct (map entry_number [0..<length ds0])"
    using assms(4) by (auto simp: distinct_map inj_on_def entry_number_inj)
  then have "distinct (map msg_number ds)"
    using assms(1,2) by (metis mset_eq_imp_distinct_iff mset_map)
  moreover have "proposals_ok (Map.empty ++ by_number ds) (pmain_new common)"
    using assms(3) by (fastforce simp: proposals_ok_def pmain_new_def set dest!: by_number_SomeD)
  moreover obtain b where "is_primary (pmain_new common) = Inr b"
    using assms(5) by (simp add: is_primary_new)
  ultimately obtain s out where "deliver ds (pmain_new common) = Inr (s, out)"
    "reorder_done (by_number ds) s"
    using deliver_done [OF reorder_done_new, of ds common b] by auto
  with reorder_done_complete [OF this(2) assms(1,2,4)] show ?thesis
    by (auto simp: main_run_deliver)
qed

theorem proposals_any_order_witness:
  "\<exists>s out. main_run (proposal_messages (rev sample_proposals)) (pmain_new (sample_common 1)) =
       Inr (s, out) \<and>
     pm_log s = map entry_of sample_proposals \<and> pm_reorder_pre_prepare s = Map.empty"
  by (rule proposals_any_order)
     (simp_all add: sample_proposals_def sample_defs msg_number_def entry_number_def)

text \<open>
  C18. In a run of the thread from its initial state, a backup sends exactly one prepare for
  each entry of its log, in the order of the log and with the digest of that entry; the primary
  sends none.
\<close>
theorem one_prepare_per_entry:
  assumes "main_run msgs (pmain_new common) = Inr (s, out)"
  shows "filter is_send_prepare out =
    (if is_primary s = Inr True then [] else map (prepare_of s) (pm_log s))"
proof -
  note l = main_run_later [OF assms]
  from main_run_prepares [OF assms] later_is_primary [OF l] prepare_of_later [OF l]
  show ?thesis by (simp add: new_prepares_def pmain_new_def)
qed

theorem one_prepare_per_entry_witness:
  "filter is_send_prepare sample_out = [prepare_of sample_end (entry_of (sample_proposals ! 0))]"
  using one_prepare_per_entry [OF sample_run]
  by (simp add: sample_end_def is_primary_def rem_u8_def sample_defs pmain_new_def)

text \<open>
  C17. The log only grows: entries are appended and none is changed or removed. Entry i of the
  log of a replica carries the operation number i + 1 and the view of the replica.
\<close>
theorem log_append_only:
  assumes "main_run msgs (pmain_new common) = Inr (s, out)"
    and "main_run msgs' s = Inr (s', out')"
  shows "(\<exists>es. pm_log s' = pm_log s @ es) \<and>
    (\<forall>i < length (pm_log s'). pp_op_number (sg_inner (le_pre_prepare (pm_log s' ! i))) = of_nat (i + 1) \<and>
       pp_view_number (sg_inner (le_pre_prepare (pm_log s' ! i))) = pm_view_number s')"
proof
  show "\<exists>es. pm_log s' = pm_log s @ es"
    using main_run_later [OF assms(2)] unfolding later_def by blast
  show "\<forall>i < length (pm_log s'). pp_op_number (sg_inner (le_pre_prepare (pm_log s' ! i))) = of_nat (i + 1) \<and>
      pp_view_number (sg_inner (le_pre_prepare (pm_log s' ! i))) = pm_view_number s'"
    using main_run_wf [OF assms(2) main_run_wf [OF assms(1) pmain_new_wf]]
    unfolding pmain_wf_def by blast
qed

theorem log_append_only_witness:
  "pp_op_number (sg_inner (le_pre_prepare (pm_log sample_end ! 0))) = 1 \<and>
   pp_view_number (sg_inner (le_pre_prepare (pm_log sample_end ! 0))) = pm_view_number sample_end"
proof -
  have r: "main_run [] sample_end = Inr (sample_end, [])" "0 < length (pm_log sample_end)"
    by (simp_all add: sample_end_def)
  from log_append_only [OF sample_run r(1)] r(2) show ?thesis by simp
qed

section \<open>Execution\<close>



text \<open>
  C14. A replica executes an entry of its log only after 2f replica numbers have prepared and
  2f + 1 have committed the digest of that very entry at its number.
\<close>
theorem executed_entries_committed:
  assumes "main_run msgs (pmain_new common) = Inr (s, out)" and "length (pm_log s) < 2 ^ 32"
    and "i < unat (pm_execute_number s)"
    and "d = pp_request_digest (sg_inner (le_pre_prepare (pm_log s ! i)))"
  shows "i < length (pm_log s) \<and>
    2 * tc_f (rc_config common) \<le> card (quorum_ids (pm_prepare_quorums s) (entry_number i, d)) \<and>
    2 * tc_f (rc_config common) < card (quorum_ids (pm_commit_quorums s) (entry_number i, d))"
proof -
  have "pmain_executed (rc_app common) s"
    by (rule main_run_executed [OF assms(1) pmain_new_executed assms(2)])
  with assms(3) have "i < length (pm_log s)" and "is_committed s (entry_number i) d"
    by (auto simp: pmain_executed_def entry_number_def assms(4))
  moreover have "pm_config s = rc_config common"
    using main_run_later [OF assms(1)] by (simp add: later_def pmain_new_def)
  ultimately show ?thesis
    by (simp add: is_committed_def is_prepared_def quorum_len_card)
qed

theorem executed_entries_committed_witness:
  "0 < length (pm_log sample_end) \<and>
    2 * tc_f sample_config \<le> card (quorum_ids (pm_prepare_quorums sample_end) (entry_number 0, [])) \<and>
    2 * tc_f sample_config < card (quorum_ids (pm_commit_quorums sample_end) (entry_number 0, []))"
  using executed_entries_committed [OF sample_run sample_end_log, of 0 "[]"]
  by (simp add: sample_end_def sample_common_def sample_proposals_def entry_of_def
      sample_pre_prepare_def)

text \<open>
  C15. Every reply a replica sends, fresh or repeated, carries the number and the result of a
  request of its executed history, and the history is only ever extended.
\<close>
theorem replies_from_history:
  assumes "main_run msgs (pmain_new common) = Inr (s, out)"
    and "main_run msgs' s = Inr (s', out')" and "length (pm_log s') < 2 ^ 32"
  shows "svc_extends (pmain_history (rc_app common) s) (pmain_history (rc_app common) s') \<and>
    (\<forall>a r. SendReply a r \<in> set (out @ out') \<longrightarrow>
       (\<exists>m. (m, rp_result r) \<in> set (svc_done (pmain_history (rc_app common) s')) \<and>
          rq_request_number m = rp_request_number r))"
proof -
  let ?a = "rc_app common"
  have len: "length (pm_log s) < 2 ^ 32"
    using later_log_length [OF main_run_later [OF assms(2)]] assms(3) by simp
  have "main_run (msgs @ msgs') (pmain_new common) = Inr (s', out @ out')"
    using assms(1,2) by (simp add: main_run_append)
  from main_run_replies [OF this pmain_new_executed assms(3)]
  have "\<forall>c \<in> set (out @ out'). reply_from (pmain_history ?a s') c" by (simp add: replies_ok_def)
  then have "\<forall>a r. SendReply a r \<in> set (out @ out') \<longrightarrow> reply_from (pmain_history ?a s') (SendReply a r)"
    by blast
  moreover have "svc_extends (pmain_history ?a s) (pmain_history ?a s')"
    using main_run_replies [OF assms(2) main_run_executed [OF assms(1) pmain_new_executed len] assms(3)]
    by simp
  ultimately show ?thesis by simp
qed

theorem replies_from_history_witness:
  "\<exists>m. (m, rp_result sample_reply) \<in> set (svc_done (pmain_history Null sample_end)) \<and>
     rq_request_number m = rp_request_number sample_reply"
  using replies_from_history [OF sample_run, of "[]" sample_end "[]"] sample_end_log
  by (simp add: sample_common_def sample_out_def)

text \<open>
  The execution loop of a replica returns from every state whose log has fewer than 2 to
  the 32 entries, and when it returns the next entry of the log is not committed.
\<close>
theorem execute_total:
  assumes "length (pm_log s) < 2 ^ 32"
  shows "\<exists>s' rs. execute s out = Some (s', out @ rs) \<and> \<not> next_committed s' \<and> only_replies s rs \<and>
    pm_log s' = pm_log s \<and> unat (pm_execute_number s) \<le> unat (pm_execute_number s')"
proof -
  obtain s' out' where e: "execute s out = Some (s', out')"
    using execute_terminates [OF assms, of out] by auto
  with execute_exec_frame [OF e] execute_number_mono [OF e assms] show ?thesis
    by (auto simp: exec_frame_def Let_def)
qed

theorem execute_total_witness:
  "\<exists>s' rs. execute sample_end [] = Some (s', [] @ rs) \<and> \<not> next_committed s' \<and>
     only_replies sample_end rs \<and> pm_log s' = pm_log sample_end \<and>
     unat (pm_execute_number sample_end) \<le> unat (pm_execute_number s')"
  by (rule execute_total [OF sample_end_log])

end
