(* ===== verification/Pbft_Main_Limits.thy ===== *)
theory Pbft_Main_Limits
  imports Pbft_Main_Properties
begin

text \<open>
  The properties of the main thread about requests, commits and failures, and the behaviours
  in which it differs from what its comments say.
\<close>

section \<open>Requests\<close>

text \<open>
  C16. No request is lost or duplicated on its way into a batch: the requests that a run finds
  new are, in order, the contents of the batches it proposes followed by those still queued.
  The proposals carry consecutive operation numbers.
\<close>
theorem requests_conserved:
  assumes "main_run msgs (pmain_new common) = Inr (s, out)"
  shows "concat (map snd (proposals out)) @ pm_requests s = submitted_run msgs (pmain_new common) \<and>
    map fst (proposals out) = map entry_number [0..<length (proposals out)]"
proof -
  have "pm_requests (pmain_new common) = []" "pm_op_number (pmain_new common) = 0"
    by (simp_all add: pmain_new_def)
  with main_run_batches [OF assms] show ?thesis by (simp add: entry_number_def)
qed

definition sample_request_msgs :: "to_main list" where
  "sample_request_msgs = map (\<lambda>k. Verified (Request (sample_request k))) [1, 2, 3, 4, 5, 6, 7, 8]"

text \<open>Six requests are proposed at once, each in a batch of its own; the next ones wait.\<close>

lemma sample_request_run:
  "main_run sample_request_msgs (pmain_new (sample_common 0)) =
     Inr ((pmain_new (sample_common 0))\<lparr>pm_op_number := 6,
            pm_requests := [sample_request 7, sample_request 8]\<rparr>,
          map (\<lambda>k. SendPrePrepare \<lparr>pp_view_number = 0, pp_op_number = k,
                      pp_request_digest = default_digest\<rparr> [sample_request k]) [1, 2, 3, 4, 5, 6])"
  by (simp add: main_eval sample_defs sample_request_msgs_def)

theorem requests_conserved_witness:
  "submitted_run sample_request_msgs (pmain_new (sample_common 0)) =
     map sample_request [1, 2, 3, 4, 5, 6, 7, 8]"
  using requests_conserved [OF sample_request_run] by (simp add: proposals_def)

text \<open>
  C21. A repeated request never runs again. When the reply table of a replica has a reply to
  the client with the same number, that stored reply is sent to the address in the request and
  the state does not change; when it has one with a higher number, nothing happens at all.
\<close>
theorem repeated_request_not_executed:
  assumes "pm_client_table s (rq_client_id m) = Some rep"
    and "rq_request_number m \<le> rp_request_number rep"
  shows "main_poll (Msg (Verified (Request m))) s =
    Inr (True, s, if rp_request_number rep = rq_request_number m
                  then [SendReply (rq_addr m) rep] else [])"
  using assms handle_request_simps(1,2) [of s m rep] by (auto simp: order.order_iff_strict)

theorem repeated_request_not_executed_witness:
  "main_poll (Msg (Verified (Request (sample_request 1)))) sample_end =
     Inr (True, sample_end, [SendReply sample_client_addr sample_reply])"
  using repeated_request_not_executed [of sample_end "sample_request 1" sample_reply]
  by (simp add: sample_end_def sample_request_def sample_reply_def)

section \<open>Commits\<close>

text \<open>The entries a list of messages to the crypto thread commits to.\<close>

fun commit_key :: "to_crypto \<Rightarrow> (u32 \<times> digest) list" where
  "commit_key (SendCommit c) = [(ct_op_number c, ct_request_digest c)]"
| "commit_key _ = []"

definition sent_commits :: "to_crypto list \<Rightarrow> (u32 \<times> digest) list" where
  "sent_commits out = concat (map commit_key out)"

lemma sent_commits_simps [simp]:
  "sent_commits [] = []" "sent_commits (xs @ ys) = sent_commits xs @ sent_commits ys"
  "sent_commits (c # cs) = commit_key c @ sent_commits cs"
  by (simp_all add: sent_commits_def)

lemma only_replies_commits: "only_replies s out \<Longrightarrow> sent_commits out = []"
  by (auto simp: only_replies_def sent_commits_def)

lemma only_prepares_commits: "only_prepares s out \<Longrightarrow> sent_commits out = []"
  by (auto simp: only_prepares_def sent_commits_def)

definition prepared_keys :: "pmain \<Rightarrow> (u32 \<times> digest) set" where
  "prepared_keys s = {(n, d). is_prepared s n d}"

lemma later_prepared_keys: "later s s' \<Longrightarrow> prepared_keys s \<subseteq> prepared_keys s'"
  by (auto simp: prepared_keys_def later_is_prepared)

lemma main_handle_commits:
  assumes "main_handle msg s = Inr (s', out)"
  shows "distinct (sent_commits out) \<and> set (sent_commits out) \<subseteq> prepared_keys s' - prepared_keys s"
  using assms
proof (cases rule: main_handle_cases)
  case (Request m)
  then show ?thesis
    by (cases rule: request_cases [of s m])
       (auto simp: handle_request_simps do_close_batch_eq split: if_splits)
next
  case (Proposal m rqs)
  then have "only_prepares s' out" by (auto dest: receive_pre_prepare_Inr)
  then show ?thesis by (simp add: only_prepares_commits)
next
  case (Prepare m)
  then show ?thesis
    by (cases rule: handle_prepare_cases [of m s]) (auto simp: prepared_keys_def split: if_splits)
next
  case (Commit m)
  from Commit(2) show ?thesis
  proof (cases rule: handle_commit_Inr)
    case (Executed s1 s2 out1 b)
    have "only_replies s1 out1"
      using execute_exec_frame [OF Executed(3)] by (auto simp: exec_frame_def Let_def)
    with Executed(5) show ?thesis
      by (auto simp: do_close_batch_eq only_replies_commits split: if_splits)
  qed auto
qed

lemma main_run_commits:
  "main_run msgs s = Inr (s', out) \<Longrightarrow>
     distinct (sent_commits out) \<and> set (sent_commits out) \<subseteq> prepared_keys s' - prepared_keys s"
proof (induction msgs arbitrary: s out)
  case (Cons msg msgs)
  from Cons.prems obtain s1 out1 out2 where h: "main_handle msg s = Inr (s1, out1)"
    and r: "main_run msgs s1 = Inr (s', out2)" and o: "out = out1 @ out2"
    unfolding main_run_Cons_Inr by blast
  from Cons.IH [OF r] main_handle_commits [OF h] later_prepared_keys [OF main_handle_later [OF h]]
    later_prepared_keys [OF main_run_later [OF r]]
  show ?case unfolding o by auto
qed simp

text \<open>
  C19. In a run from the initial state a replica sends at most one commit for an operation
  number and digest, and only for pairs that are prepared at the end of the run.
\<close>
theorem commit_sent_once:
  assumes "main_run msgs (pmain_new common) = Inr (s, out)"
  shows "distinct (sent_commits out) \<and>
    (\<forall>(n, d) \<in> set (sent_commits out). is_prepared s n d)"
  using main_run_commits [OF assms] by (auto simp: prepared_keys_def)

theorem commit_sent_once_witness:
  "distinct [(1 :: u32, [] :: digest)] \<and> is_prepared sample_end 1 []"
  using commit_sent_once [OF sample_run] by (simp add: sample_out_def sample_commit_def)

section \<open>Failures\<close>

text \<open>
  C20. The complete list of the ways a poll of the main thread fails after any run: its input
  channel is disconnected; it is given a signed request (which no thread sends); a backup is
  given a request it has no reply to; the configured number of replicas is 0 modulo 256; or its
  log has 2 to the 32 entries. In particular the assertion on the proposal number never fails.
\<close>
theorem main_poll_failures:
  assumes "main_run msgs (pmain_new common) = Inr (s, out)" and "main_poll r s = Inl e"
  shows "r = Disconnected \<and> e = Unreachable \<or>
    (\<exists>m. r = Msg (Signed (Request m)) \<and> e = Todo) \<or>
    (\<exists>m. r = Msg (Verified (Request m)) \<and> request_new s m \<and> is_primary s = Inr False \<and> e = Todo) \<or>
    e = Diverges \<and> 2 ^ 32 \<le> length (pm_log s) \<or>
    e = Div_By_Zero \<and> (of_nat (tc_n (rc_config common)) :: u8) = 0"
proof -
  have wf: "pmain_wf s" by (rule main_run_wf [OF assms(1) pmain_new_wf])
  have "pm_config s = rc_config common"
    using main_run_later [OF assms(1)] by (simp add: later_def pmain_new_def)
  with assms(2) main_handle_Inl [OF _ wf] show ?thesis
    by (cases r) (auto simp: bind_res_eq_Inl)
qed

theorem main_poll_failures_witness:
  "request_new sample_end (sample_request 2) \<and> is_primary sample_end = Inr False"
proof -
  have "main_poll (Msg (Verified (Request (sample_request 2)))) sample_end = Inl Todo"
    by (simp add: handle_request_def is_primary_def rem_u8_def sample_end_def sample_defs
        pmain_new_def sample_reply_def)
  from main_poll_failures [OF sample_run this] show ?thesis by simp
qed

section \<open>Where the thread stalls\<close>

text \<open>
  C33. For a proposal that reaches a replica after 2f prepares for it, this replica never sends a
  commit: the proposal makes the entry prepared without sending one, and every later
  prepare for it, the replica's own included, returns early. So the comment in
  \<open>handle_pre_prepare\<close> that prepared will be checked when the own prepare is ready does not hold.
  The entry can still be committed at this replica, by the commits of 2f+1 others; its own
  vote is missing for all.
\<close>
theorem late_proposal_sends_no_commit:
  assumes "receive_pre_prepare m rqs s = Inr (s1, out1)" and "main_run msgs s1 = Inr (s2, out2)"
    and "pp_view_number (sg_inner m) = pm_view_number s"
    and "pp_op_number (sg_inner m) = next_entry_number s"
    and "2 * tc_f (pm_config s) \<le>
      quorum_len (pm_prepare_quorums s) (pp_op_number (sg_inner m), pp_request_digest (sg_inner m))"
    and "length (pm_log s) < 2 ^ 32"
  shows "is_prepared s1 (pp_op_number (sg_inner m)) (pp_request_digest (sg_inner m)) \<and>
    (pp_op_number (sg_inner m), pp_request_digest (sg_inner m)) \<notin> set (sent_commits (out1 @ out2))"
proof -
  let ?n = "pp_op_number (sg_inner m)" and ?d = "pp_request_digest (sg_inner m)"
  from assms(1,4) obtain s' out' where h: "handle_pre_prepare m rqs s = Inr (s', out')"
    and d: "drain_reorder s' out' = Inr (s1, out1)"
    by (auto simp: receive_pre_prepare_def)
  from h assms(3) have s': "s' = s\<lparr>pm_log := pm_log s @ [\<lparr>le_pre_prepare = m, le_requests = rqs\<rparr>]\<rparr>"
    by (auto elim: handle_pre_prepare_Inr)
  have "log_entry_at (pm_log s') ?n \<noteq> None"
    using assms(6) by (simp add: s' assms(4) next_entry_number_def log_entry_at_def Let_def
        unat_of_nat_u32)
  with assms(5) have "is_prepared s' ?n ?d"
    by (simp add: is_prepared_def s')
  then have p: "is_prepared s1 ?n ?d"
    using drain_reorder_Inr [OF d] by (auto intro: later_is_prepared log_step_later)
  have "sent_commits out1 = []"
    using receive_pre_prepare_Inr [OF assms(1)] by (auto intro: only_prepares_commits)
  with p main_run_commits [OF assms(2)] show ?thesis by (auto simp: prepared_keys_def)
qed

definition late_start :: pmain where
  "late_start = (pmain_new (sample_common 1))
     \<lparr>pm_prepare_quorums := [(1, []) \<mapsto> [2 \<mapsto> [], 3 \<mapsto> []]]\<rparr>"

definition late_logged :: pmain where
  "late_logged = late_start\<lparr>pm_log := [entry_of (sample_proposals ! 0)]\<rparr>"

lemma late_start_run:
  "main_run [Verified (Prepare (sample_prepare 1 [] 2)), Verified (Prepare (sample_prepare 1 [] 3))]
     (pmain_new (sample_common 1)) = Inr (late_start, [])"
  by (simp add: main_eval sample_defs late_start_def)

theorem late_proposal_sends_no_commit_witness:
  "is_prepared late_logged 1 [] \<and>
   main_run [Signed (Prepare (sample_prepare 1 [] 1))] late_logged = Inr (late_logged, []) \<and>
   (1, []) \<notin> set (sent_commits ([SendPrepare (sg_inner (sample_prepare 1 [] 1))] @ []))"
proof -
  have r: "receive_pre_prepare (sample_pre_prepare 1 []) [sample_request 1] late_start =
      Inr (late_logged, [SendPrepare (sg_inner (sample_prepare 1 [] 1))])"
    by (simp add: main_eval sample_defs late_start_def late_logged_def sample_proposals_def
        entry_of_def)
  have m: "main_run [Signed (Prepare (sample_prepare 1 [] 1))] late_logged = Inr (late_logged, [])"
    by (simp add: main_eval sample_defs late_start_def late_logged_def sample_proposals_def
        entry_of_def)
  from late_proposal_sends_no_commit [OF r m] m show ?thesis
    by (simp add: main_eval sample_defs late_start_def)
qed

text \<open>The entry a message commits to.\<close>

fun commit_of :: "to_main \<Rightarrow> (u32 \<times> digest) option" where
  "commit_of (Verified (Commit m)) = Some (ct_op_number (sg_inner m), ct_request_digest (sg_inner m))"
| "commit_of (Signed (Commit m)) = Some (ct_op_number (sg_inner m), ct_request_digest (sg_inner m))"
| "commit_of _ = None"

lemma main_handle_waits:
  assumes "main_handle msg s = Inr (s', out)" and "is_committed s n d"
    and "commit_of msg \<in> {None, Some (n, d)}"
  shows "pm_execute_number s' = pm_execute_number s \<and> pm_client_table s' = pm_client_table s"
  using assms(1)
proof (cases rule: main_handle_cases)
  case (Request m)
  then show ?thesis by (auto dest!: handle_request_frame)
next
  case (Proposal m rqs)
  then have "log_step s s'" by (auto dest: receive_pre_prepare_Inr)
  then show ?thesis by (simp add: log_step_def)
next
  case (Prepare m)
  with handle_prepare_frame [of m s] show ?thesis by auto
next
  case (Commit m)
  with assms(2,3) show ?thesis
    by (auto simp: handle_commit_def Let_def split: if_splits)
qed

text \<open>
  C34. Once an entry is committed, no prepare, proposal, request or further commit for the same
  entry makes the thread execute anything: a replica that gets the last prepare of an entry
  after its commits does not execute it, and stays so until a commit for another entry arrives.
\<close>
theorem committed_entry_waits:
  assumes "is_committed s n d" and "main_run msgs s = Inr (s', out)"
    and "\<forall>msg \<in> set msgs. commit_of msg \<in> {None, Some (n, d)}"
  shows "is_committed s' n d \<and> pm_execute_number s' = pm_execute_number s \<and>
    pm_client_table s' = pm_client_table s"
  using assms
proof (induction msgs arbitrary: s out)
  case (Cons msg msgs)
  from Cons.prems(2) obtain s1 out1 out2 where h: "main_handle msg s = Inr (s1, out1)"
    and r: "main_run msgs s1 = Inr (s', out2)" unfolding main_run_Cons_Inr by blast
  have c: "is_committed s1 n d"
    by (rule later_is_committed [OF main_handle_later [OF h] Cons.prems(1)])
  from Cons.IH [OF c r] Cons.prems(3) main_handle_waits [OF h Cons.prems(1)]
  show ?case by simp
qed simp

definition stalled :: pmain where
  "stalled = sample_end\<lparr>pm_client_table := Map.empty, pm_execute_number := 0\<rparr>"

lemma stalled_run:
  "main_run
     [Verified (PrePrepare (sample_pre_prepare 1 []) [sample_request 1]),
      Signed (Prepare (sample_prepare 1 [] 1)), Verified (Commit (sample_commit 1 [] 1)),
      Verified (Commit (sample_commit 1 [] 2)), Verified (Commit (sample_commit 1 [] 0)),
      Verified (Prepare (sample_prepare 1 [] 2))] (pmain_new (sample_common 1)) =
   Inr (stalled, [SendPrepare (sg_inner (sample_prepare 1 [] 1)),
                  SendCommit (sg_inner (sample_commit 1 [] 1))])"
  by (simp add: main_eval sample_defs stalled_def sample_end_def sample_proposals_def entry_of_def)

theorem committed_entry_waits_witness:
  "next_committed stalled \<and> is_committed stalled 1 [] \<and> pm_execute_number stalled = 0 \<and>
   main_run [Signed (Commit (sample_commit 1 [] 1)), Verified (Commit (sample_commit 1 [] 3))]
     stalled = Inr (stalled, [])"
proof -
  have c: "is_committed stalled 1 []" "pm_execute_number stalled = 0" "next_committed stalled"
    by (simp_all add: main_eval next_committed_def sample_defs stalled_def sample_end_def
        sample_proposals_def entry_of_def)
  have r: "main_run [Signed (Commit (sample_commit 1 [] 1)), Verified (Commit (sample_commit 1 [] 3))]
      stalled = Inr (stalled, [])"
    by (simp add: main_eval sample_defs stalled_def sample_end_def sample_proposals_def entry_of_def)
  from committed_entry_waits [OF c(1) r] c r show ?thesis
    by (simp add: sample_commit_def)
qed

lemma receive_other_number:
  "msg_number d \<noteq> next_entry_number s \<Longrightarrow> receive_pre_prepare (fst d) (snd d) s =
     Inr (s\<lparr>pm_reorder_pre_prepare := (pm_reorder_pre_prepare s)(msg_number d \<mapsto> d)\<rparr>, [])"
  by (simp add: receive_pre_prepare_def msg_number_def)

lemma next_entry_number_log:
  "pm_log t = pm_log s @ [e] \<Longrightarrow> next_entry_number t = next_entry_number s + 1"
  by (simp add: next_entry_number_def add_ac)

lemma handle_current_view:
  assumes "is_primary s = Inr b" and "msg_number d = next_entry_number s"
    and "pp_view_number (sg_inner (fst d)) = pm_view_number s"
  shows "\<exists>out. handle_pre_prepare (fst d) (snd d) s = Inr (s\<lparr>pm_log := pm_log s @ [entry_of d]\<rparr>, out)"
  using assms by (simp add: handle_pre_prepare_def msg_number_def entry_of_def Let_def)

text \<open>
  The next proposal is logged, and the one after it, which is buffered, when it is of the current
  view.  One of another view is only taken out of the buffer.
\<close>

lemma receive_next_with_buffered:
  assumes "is_primary s = Inr b" and "pmain_wf s" and "msg_number g = next_entry_number s"
    and "pp_view_number (sg_inner (fst g)) = pm_view_number s"
    and "pm_reorder_pre_prepare s (next_entry_number s + 1) = Some d"
    and "msg_number d = next_entry_number s + 1"
  shows "\<exists>s1 out1. receive_pre_prepare (fst g) (snd g) s = Inr (s1, out1) \<and>
    (if pp_view_number (sg_inner (fst d)) = pm_view_number s
     then \<exists>es. pm_log s1 = pm_log s @ [entry_of g, entry_of d] @ es
     else pm_log s1 = pm_log s @ [entry_of g] \<and>
       pm_reorder_pre_prepare s1 = (pm_reorder_pre_prepare s)(next_entry_number s + 1 := None))"
proof -
  have "receive_pre_prepare (fst g) (snd g) s \<noteq> Inl e" for e
    using receive_pre_prepare_Inl [OF _ assms(2)] assms(1) by fastforce
  then obtain s1 out1 where r: "receive_pre_prepare (fst g) (snd g) s = Inr (s1, out1)"
    by (cases "receive_pre_prepare (fst g) (snd g) s") auto
  let ?t = "s\<lparr>pm_log := pm_log s @ [entry_of g]\<rparr>"
  let ?u = "?t\<lparr>pm_reorder_pre_prepare := (pm_reorder_pre_prepare s)(next_entry_number s + 1 := None)\<rparr>"
  from handle_current_view [OF assms(1,3,4)] obtain out2 where
    h: "handle_pre_prepare (fst g) (snd g) s = Inr (?t, out2)" by blast
  have n: "next_entry_number ?t = next_entry_number s + 1" "next_entry_number ?u = next_entry_number s + 1"
    by (rule next_entry_number_log, simp)+
  have drain: "drain_reorder ?t out2 = Inr (s1, out1)"
    using r h assms(3) by (simp add: receive_pre_prepare_def msg_number_def)
  have "if pp_view_number (sg_inner (fst d)) = pm_view_number s
     then \<exists>es. pm_log s1 = pm_log s @ [entry_of g, entry_of d] @ es
     else pm_log s1 = pm_log s @ [entry_of g] \<and>
       pm_reorder_pre_prepare s1 = (pm_reorder_pre_prepare s)(next_entry_number s + 1 := None)"
  proof (cases "pp_view_number (sg_inner (fst d)) = pm_view_number s")
    case True
    from handle_current_view [of ?u b d] assms(1,6) True n obtain out3 where
      "handle_pre_prepare (fst d) (snd d) ?u = Inr (?u\<lparr>pm_log := pm_log ?u @ [entry_of d]\<rparr>, out3)"
      by auto
    with drain assms(5) n(1) have "drain_reorder (?u\<lparr>pm_log := pm_log ?u @ [entry_of d]\<rparr>) (out2 @ out3) = Inr (s1, out1)"
      by (simp add: drain_reorder.simps [of ?t] split: prod.splits)
    from drain_reorder_Inr [OF this] True show ?thesis by (auto simp: log_step_def later_def)
  next
    case False
    then have "handle_pre_prepare (fst d) (snd d) ?u = Inr (?u, [])" by (simp add: handle_pre_prepare_def)
    with drain assms(5) n(1) have "drain_reorder ?u out2 = Inr (s1, out1)"
      by (simp add: drain_reorder.simps [of ?t] split: prod.splits)
    with n(2) have "s1 = ?u" by (simp add: drain_reorder.simps [of ?u])
    with False show ?thesis by simp
  qed
  with r show ?thesis by blast
qed

text \<open>
  C39. A proposal of another view overwrites a buffered proposal with the same operation
  number, because the view is only checked when a proposal leaves the reorder buffer: in every
  state a replica can reach, when the proposal \<open>d\<close> of the current view has come before its turn and
  \<open>g\<close>, whose turn it is, comes after it, both are logged; when in between a proposal
  \<open>d'\<close> with the number of \<open>d\<close> but of another view arrives, \<open>d\<close> is lost: the log ends with \<open>g\<close>, and the
  buffer has nothing under the number of \<open>d\<close> any more.
\<close>
theorem reorder_overwritten:
  assumes "main_run msgs (pmain_new common) = Inr (s, out)" and "is_primary s = Inr b"
    and "msg_number g = next_entry_number s" and "msg_number d = next_entry_number s + 1"
    and "msg_number d' = next_entry_number s + 1"
    and "pp_view_number (sg_inner (fst g)) = pm_view_number s"
    and "pp_view_number (sg_inner (fst d)) = pm_view_number s"
    and "pp_view_number (sg_inner (fst d')) \<noteq> pm_view_number s"
  shows "(\<exists>s1 out1 es. main_run (proposal_messages [d, g]) s = Inr (s1, out1) \<and>
      pm_log s1 = pm_log s @ [entry_of g, entry_of d] @ es) \<and>
    (\<exists>s2 out2. main_run (proposal_messages [d, d', g]) s = Inr (s2, out2) \<and>
      pm_log s2 = pm_log s @ [entry_of g] \<and> pm_reorder_pre_prepare s2 (msg_number d) = None)"
proof -
  let ?k = "next_entry_number s + 1"
  let ?s = "\<lambda>d. s\<lparr>pm_reorder_pre_prepare := (pm_reorder_pre_prepare s)(?k \<mapsto> d)\<rparr>"
  have wf: "pmain_wf s" by (rule main_run_wf [OF assms(1) pmain_new_wf])
  have n: "next_entry_number (?s d) = next_entry_number s" for d by (simp add: next_entry_number_def)
  have b: "receive_pre_prepare (fst d) (snd d) s = Inr (?s d, [])" if "msg_number d = ?k" for d
    using receive_other_number [of d s] that by simp
  have b': "receive_pre_prepare (fst d') (snd d') (?s d) = Inr (?s d', [])"
    using receive_other_number [of d' "?s d"] assms(5) n by simp
  have wf': "pmain_wf (?s d)" if "msg_number d = ?k" for d
    using main_handle_wf [OF _ wf, of "Verified (PrePrepare (fst d) (snd d))"] b [OF that] by simp
  have run: "\<exists>s1 out1. receive_pre_prepare (fst g) (snd g) (?s e) = Inr (s1, out1) \<and>
    (if pp_view_number (sg_inner (fst e)) = pm_view_number s
     then \<exists>es. pm_log s1 = pm_log s @ [entry_of g, entry_of e] @ es
     else pm_log s1 = pm_log s @ [entry_of g] \<and> pm_reorder_pre_prepare s1 ?k = None)"
    if "msg_number e = ?k" for e
    using receive_next_with_buffered [of "?s e" b g e] assms(2,3,6) wf' [OF that] that n
    by (auto split: if_splits)
  from run [OF assms(4)] run [OF assms(5)] b [OF assms(4)] b' assms(4,7,8) show ?thesis
    by (auto simp: proposal_messages_def)
qed

theorem reorder_overwritten_witness:
  "\<exists>s2 out2. main_run (proposal_messages
       [sample_proposals ! 1,
        ((sample_pre_prepare 2 [])\<lparr>sg_inner := (sg_inner (sample_pre_prepare 2 []))\<lparr>pp_view_number := 1\<rparr>\<rparr>, []),
        sample_proposals ! 0]) (pmain_new (sample_common 1)) = Inr (s2, out2) \<and>
     pm_log s2 = [entry_of (sample_proposals ! 0)] \<and> pm_reorder_pre_prepare s2 2 = None"
proof -
  let ?s = "pmain_new (sample_common 1)" and ?d = "sample_proposals ! 1" and ?g = "sample_proposals ! 0"
  let ?d' = "((sample_pre_prepare 2 [])\<lparr>sg_inner := (sg_inner (sample_pre_prepare 2 []))\<lparr>pp_view_number := 1\<rparr>\<rparr>,
    []) :: proposal_msg"
  have p: "is_primary ?s = Inr False" by (simp add: is_primary_new sample_defs)
  have "msg_number ?g = next_entry_number ?s"
    "msg_number ?d = next_entry_number ?s + 1" "msg_number ?d' = next_entry_number ?s + 1"
    "pp_view_number (sg_inner (fst ?g)) = pm_view_number ?s"
    "pp_view_number (sg_inner (fst ?d)) = pm_view_number ?s"
    "pp_view_number (sg_inner (fst ?d')) \<noteq> pm_view_number ?s" "main_run [] ?s = Inr (?s, [])"
    by (simp_all add: sample_proposals_def sample_defs msg_number_def pmain_new_def
        next_entry_number_def)
  note hyps = this
  have "pm_log ?s = []" "msg_number ?d = 2"
    by (simp_all add: pmain_new_def sample_proposals_def msg_number_def sample_defs)
  with reorder_overwritten [OF hyps(7) p hyps(1-6)] show ?thesis by simp
qed

end
