(* ===== verification/Pbft_Crypto_Correct.thy ===== *)
theory Pbft_Crypto_Correct
  imports Pbft_Replica Samples
begin

text \<open>
  Correctness of the crypto thread: which messages it lets through to the main thread, that
  what one replica signs the others accept, and what the encoding of the signed structs means
  for the signatures.
\<close>

section \<open>Verification\<close>

text \<open>
  The number of the replica that has to have signed a message, and the message it has to have
  signed.
\<close>

fun signer :: "public_key list \<Rightarrow> to_replica \<Rightarrow> nat" where
  "signer keys (Request m) = 0"
| "signer keys (PrePrepare m rqs) = unat (pp_view_number (sg_inner m)) mod length keys"
| "signer keys (Prepare m) = unat (pr_replica_id (sg_inner m))"
| "signer keys (Commit m) = unat (ct_replica_id (sg_inner m))"

fun signed_bytes :: "externals \<Rightarrow> to_replica \<Rightarrow> bytes option" where
  "signed_bytes X (Request m) = None"
| "signed_bytes X (PrePrepare m rqs) = bc_ser_pre_prepare X (sg_inner m)"
| "signed_bytes X (Prepare m) = bc_ser_prepare X (sg_inner m)"
| "signed_bytes X (Commit m) = bc_ser_commit X (sg_inner m)"

fun signature_of :: "to_replica \<Rightarrow> signature" where
  "signature_of (Request m) = []"
| "signature_of (PrePrepare m rqs) = sg_signature m"
| "signature_of (Prepare m) = sg_signature m"
| "signature_of (Commit m) = sg_signature m"

text \<open>The digest of a proposal is the hash of its requests.\<close>

fun digest_ok :: "externals \<Rightarrow> to_replica \<Rightarrow> bool" where
  "digest_ok X (PrePrepare m rqs) \<longleftrightarrow>
     map_option (sc_hash X) (bc_ser_requests X rqs) = Some (pp_request_digest (sg_inner m))"
| "digest_ok X _ \<longleftrightarrow> True"

definition authentic :: "externals \<Rightarrow> public_key list \<Rightarrow> to_replica \<Rightarrow> bool" where
  "authentic X keys m \<longleftrightarrow> digest_ok X m \<and> signer keys m < length keys \<and>
     (\<exists>b. signed_bytes X m = Some b \<and>
        sc_verify X (sc_hash X b) (signature_of m) (keys ! signer keys m))"

fun is_request :: "to_replica \<Rightarrow> bool" where
  "is_request (Request m) \<longleftrightarrow> True"
| "is_request _ \<longleftrightarrow> False"

text \<open>
  The verification of a message that names a replica there is a key for only fails when the message
  is let through and the main thread is gone.
\<close>

lemma verify_result:
  assumes "pbft_ext_ok X" and "\<not> is_request m" and "signer (py_public_keys y) m < length (py_public_keys y)"
  shows "crypto_handle X y (Verify m) =
    bind_res (chan_send (py_to_main y) (if authentic X (py_public_keys y) m then [Verified m] else []))
      (\<lambda>ms. Inr (ms, []))"
  using assms ser_totalD [of "bc_ser_requests X"] ser_totalD [of "bc_ser_pre_prepare X"]
    ser_totalD [of "bc_ser_prepare X"] ser_totalD [of "bc_ser_commit X"]
  by (cases m)
     (fastforce simp: verify_pre_prepare_def verify_prepare_def verify_commit_def authentic_def
        pbft_ext_ok_def rem_usize_def index_ok)+

lemma verify_unknown_signer:
  assumes "\<not> is_request m" and "length (py_public_keys y) \<le> signer (py_public_keys y) m"
    and "py_public_keys y \<noteq> []"
  shows "crypto_handle X y (Verify m) = Inl Index_Out_Of_Bounds"
  using assms mod_less_divisor [of "length (py_public_keys y)"]
  by (cases m) (auto simp: verify_prepare_def verify_commit_def index_def not_less
      dest!: leD)

lemma verify_Inr:
  "crypto_handle X y (Verify m) = Inr (ms, out) \<Longrightarrow>
     out = [] \<and> (ms = [] \<or> ms = [Verified m] \<and> authentic X (py_public_keys y) m)"
  by (cases m)
     (auto simp: verify_pre_prepare_def verify_prepare_def verify_commit_def authentic_def
        rem_usize_def split: if_splits)

section \<open>Signing\<close>

lemma broadcast_Inr:
  "broadcast X tx b dests = Inr out \<Longrightarrow> out = map (sent_by tx b) dests"
  by (induction dests arbitrary: out) auto

lemma broadcast_ok:
  "tx_ok X tx \<Longrightarrow> broadcast X tx b dests = Inr (map (sent_by tx b) dests)"
  by (induction dests) (simp_all add: send_to_ok)

lemma broadcast_signed_Inr:
  assumes "broadcast_signed X y m = Inr (ms, out)"
  shows "\<exists>payload. bc_ser_to_replica X m = Some payload \<and> ms = [Signed m] \<and>
    out = map (sent_by (py_tx y) payload) (py_broadcast_addresses y)"
  using assms by (auto simp: broadcast_signed_def dest: broadcast_Inr)

lemma broadcast_signed_ok:
  assumes "bc_ser_to_replica X m = Some payload" and "tx_ok X (py_tx y)" and "py_to_main y"
  shows "broadcast_signed X y m =
    Inr ([Signed m], map (sent_by (py_tx y) payload) (py_broadcast_addresses y))"
  using assms by (simp add: broadcast_signed_def broadcast_ok)

text \<open>The replica number in whose name the crypto thread is asked to sign.\<close>

fun claimed_signer :: "public_key list \<Rightarrow> to_crypto \<Rightarrow> nat" where
  "claimed_signer keys (SendPrePrepare p rqs) = unat (pp_view_number p) mod length keys"
| "claimed_signer keys (SendPrepare p) = unat (pr_replica_id p)"
| "claimed_signer keys (SendCommit p) = unat (ct_replica_id p)"
| "claimed_signer keys _ = 0"

fun is_send_signed :: "to_crypto \<Rightarrow> bool" where
  "is_send_signed (Verify m) \<longleftrightarrow> False"
| "is_send_signed (SendReply a r) \<longleftrightarrow> False"
| "is_send_signed _ \<longleftrightarrow> True"

text \<open>The message a request to sign becomes.\<close>

definition signed_as :: "externals \<Rightarrow> secret_key \<Rightarrow> to_crypto \<Rightarrow> to_replica \<Rightarrow> bool" where
  "signed_as X sk c m \<longleftrightarrow> digest_ok X m \<and>
     (\<exists>b. signed_bytes X m = Some b \<and> signature_of m = sc_sign X (sc_hash X b) sk) \<and>
     (case c of
        SendPrePrepare p rqs \<Rightarrow>
          \<exists>q. m = PrePrepare q rqs \<and> p\<lparr>pp_request_digest := pp_request_digest (sg_inner q)\<rparr> = sg_inner q
      | SendPrepare p \<Rightarrow> \<exists>q. m = Prepare q \<and> sg_inner q = p
      | SendCommit p \<Rightarrow> \<exists>q. m = Commit q \<and> sg_inner q = p
      | _ \<Rightarrow> False)"

lemma crypto_handle_signs:
  assumes "crypto_handle X y c = Inr (ms, out)" and "is_send_signed c"
  shows "\<exists>m payload. ms = [Signed m] \<and> bc_ser_to_replica X m = Some payload \<and>
    out = map (sent_by (py_tx y) payload) (py_broadcast_addresses y) \<and>
    signed_as X (py_secret_key y) c m"
  using assms
  by (cases c)
     (auto simp: send_pre_prepare_def send_prepare_def send_commit_def Let_def signed_as_def
        dest!: broadcast_signed_Inr)

lemma signed_as_signer:
  "signed_as X sk c m \<Longrightarrow> signer keys m = claimed_signer keys c"
  by (cases c) (auto simp: signed_as_def dest!: arg_cong [where f = pp_view_number])

lemma signed_as_not_request: "signed_as X sk c m \<Longrightarrow> \<not> is_request m"
  by (cases c) (auto simp: signed_as_def)

lemma signed_as_authentic:
  assumes "pbft_ext_ok X" and "signed_as X sk c m" and "claimed_signer keys c < length keys"
    and "keys ! claimed_signer keys c = sc_public_key X sk"
  shows "authentic X keys m"
  using assms signed_as_signer [OF assms(2), of keys]
  by (auto simp: signed_as_def authentic_def pbft_ext_ok_def sign_ok_def)

lemma crypto_handle_sends_ok:
  assumes "pbft_ext_ok X" and "is_send_signed c" and "tx_ok X (py_tx y)" and "py_to_main y"
  shows "\<exists>io. crypto_handle X y c = Inr io"
proof -
  have ser: "\<exists>b. bc_ser_to_replica X m = Some b" for m
    using assms(1) by (auto simp: pbft_ext_ok_def elim!: codec_okD [of _ _ m])
  then have "\<exists>io. broadcast_signed X y m = Inr io" for m
    using broadcast_signed_ok [OF _ assms(3,4)] by blast
  with assms(1,2) ser_totalD [of "bc_ser_requests X"] ser_totalD [of "bc_ser_pre_prepare X"]
    ser_totalD [of "bc_ser_prepare X"] ser_totalD [of "bc_ser_commit X"]
  show ?thesis
    by (cases c)
       (fastforce simp: send_pre_prepare_def send_prepare_def send_commit_def Let_def
          pbft_ext_ok_def)+
qed

lemma crypto_reply_ok:
  assumes "pbft_ext_ok X" and "tx_ok X (py_tx y)"
  shows "\<exists>b. bc_ser_reply X r = Some b \<and> bc_de_reply X b = Some r \<and>
    crypto_handle X y (SendReply a r) = Inr ([], [sent_by (py_tx y) b a])"
proof -
  from assms(1) obtain b where "bc_ser_reply X r = Some b" "bc_de_reply X b = Some r"
    by (auto simp: pbft_ext_ok_def elim!: codec_okD [of _ _ r])
  with assms(2) show ?thesis by (simp add: send_reply_def send_to_ok)
qed

end
