(* ===== verification/Pbft_Replica_Correct.thy ===== *)
theory Pbft_Replica_Correct
  imports Pbft_Main_Sends Pbft_Crypto_Correct
begin

text \<open>
  The threads of a replica together: the states a replica can reach while it is polled and
  datagrams arrive, the invariant that everything the main thread holds is authentic, and the
  ways a poll fails.
\<close>

section \<open>Certificates\<close>

text \<open>
  Everything the main thread keeps carries a valid signature: the proposals in its log and its
  reorder buffer, and each vote in its quorums.
\<close>

definition prepare_vote :: "pmain \<Rightarrow> u32 \<times> digest \<Rightarrow> u8 \<Rightarrow> signature \<Rightarrow> to_replica" where
  "prepare_vote s key i sig = Prepare
     \<lparr>sg_inner = \<lparr>pr_view_number = pm_view_number s, pr_op_number = fst key,
                  pr_request_digest = snd key, pr_replica_id = i\<rparr>, sg_signature = sig\<rparr>"

definition commit_vote :: "pmain \<Rightarrow> u32 \<times> digest \<Rightarrow> u8 \<Rightarrow> signature \<Rightarrow> to_replica" where
  "commit_vote s key i sig = Commit
     \<lparr>sg_inner = \<lparr>ct_view_number = pm_view_number s, ct_op_number = fst key,
                  ct_request_digest = snd key, ct_replica_id = i\<rparr>, sg_signature = sig\<rparr>"

definition quorums_all :: "(u32 \<times> digest \<Rightarrow> u8 \<Rightarrow> signature \<Rightarrow> bool) \<Rightarrow> quorums \<Rightarrow> bool" where
  "quorums_all P q \<longleftrightarrow> (\<forall>key e i sig. q key = Some e \<longrightarrow> e i = Some sig \<longrightarrow> P key i sig)"

lemma quorums_all_empty [simp]: "quorums_all P Map.empty"
  by (simp add: quorums_all_def)

lemma quorums_all_insert:
  "quorums_all P q \<Longrightarrow> P key i sig \<Longrightarrow> quorums_all P (quorum_insert key i sig q)"
  by (auto simp: quorums_all_def quorum_insert_simps split: option.splits if_splits)

definition proposal_ok :: "(to_replica \<Rightarrow> bool) \<Rightarrow> log_entry \<Rightarrow> bool" where
  "proposal_ok A e \<longleftrightarrow> A (PrePrepare (le_pre_prepare e) (le_requests e))"

definition certified :: "(to_replica \<Rightarrow> bool) \<Rightarrow> pmain \<Rightarrow> bool" where
  "certified A s \<longleftrightarrow>
     (\<forall>e \<in> set (pm_log s). proposal_ok A e) \<and>
     (\<forall>k m rqs. pm_reorder_pre_prepare s k = Some (m, rqs) \<longrightarrow> A (PrePrepare m rqs)) \<and>
     quorums_all (\<lambda>key i sig. A (prepare_vote s key i sig)) (pm_prepare_quorums s) \<and>
     quorums_all (\<lambda>key i sig. A (commit_vote s key i sig)) (pm_commit_quorums s)"

lemma certified_frame:
  "certified A s \<Longrightarrow> pm_log s' = pm_log s \<Longrightarrow> pm_view_number s' = pm_view_number s \<Longrightarrow>
   pm_reorder_pre_prepare s' = pm_reorder_pre_prepare s \<Longrightarrow>
   pm_prepare_quorums s' = pm_prepare_quorums s \<Longrightarrow>
   pm_commit_quorums s' = pm_commit_quorums s \<Longrightarrow> certified A s'"
  by (simp add: certified_def prepare_vote_def commit_vote_def)

lemma certified_new: "certified A (pmain_new common)"
  by (simp add: certified_def pmain_new_def)

lemma handle_pre_prepare_certified:
  assumes "handle_pre_prepare m rqs s = Inr (s', out)" and "certified A s"
    and "A (PrePrepare m rqs)"
  shows "certified A s'"
  using assms(1)
  by (rule handle_pre_prepare_Inr)
     (use assms(2,3) in \<open>auto simp: certified_def proposal_ok_def prepare_vote_def commit_vote_def\<close>)

lemma certified_remove:
  "certified A s \<Longrightarrow>
     certified A (s\<lparr>pm_reorder_pre_prepare := (pm_reorder_pre_prepare s)(k := None)\<rparr>)"
  by (simp add: certified_def prepare_vote_def commit_vote_def)

lemma drain_reorder_certified:
  "drain_reorder s out = Inr (s', out') \<Longrightarrow> certified A s \<Longrightarrow> certified A s'"
proof (induction s out rule: drain_reorder.induct)
  case (1 s out)
  let ?s0 = "s\<lparr>pm_reorder_pre_prepare := (pm_reorder_pre_prepare s)(next_entry_number s := None)\<rparr>"
  show ?case
  proof (cases "pm_reorder_pre_prepare s (next_entry_number s)")
    case None
    with "1.prems" show ?thesis by (simp add: drain_reorder.simps [of s])
  next
    case (Some mr)
    obtain m rqs where mr: "mr = (m, rqs)" by (cases mr)
    with "1.prems" Some obtain s1 out1 where h: "handle_pre_prepare m rqs ?s0 = Inr (s1, out1)"
      and d: "drain_reorder s1 (out @ out1) = Inr (s', out')"
      by (auto simp: drain_reorder.simps [of s] split: sum.splits)
    have "A (PrePrepare m rqs)" using "1.prems"(2) Some mr by (simp add: certified_def)
    with handle_pre_prepare_certified [OF h certified_remove [OF "1.prems"(2)]]
    have "certified A s1" .
    with "1.IH" [OF Some mr [symmetric] h refl d] show ?thesis .
  qed
qed

lemma receive_pre_prepare_certified:
  assumes "receive_pre_prepare m rqs s = Inr (s', out)" and "certified A s"
    and "A (PrePrepare m rqs)"
  shows "certified A s'"
proof (cases "pp_op_number (sg_inner m) = next_entry_number s")
  case False
  with assms show ?thesis
    by (auto simp: receive_pre_prepare_def certified_def prepare_vote_def commit_vote_def
        split: if_splits)
next
  case True
  with assms obtain s1 out1 where "handle_pre_prepare m rqs s = Inr (s1, out1)"
    "drain_reorder s1 out1 = Inr (s', out)"
    by (auto simp: receive_pre_prepare_def)
  with assms(2,3) show ?thesis
    by (blast intro: handle_pre_prepare_certified drain_reorder_certified)
qed

lemma prepare_vote_of:
  "pr_view_number (sg_inner m) = pm_view_number s \<Longrightarrow>
     prepare_vote s (pr_op_number (sg_inner m), pr_request_digest (sg_inner m))
       (pr_replica_id (sg_inner m)) (sg_signature m) = Prepare m"
  by (simp add: prepare_vote_def)

lemma commit_vote_of:
  "ct_view_number (sg_inner m) = pm_view_number s \<Longrightarrow>
     commit_vote s (ct_op_number (sg_inner m), ct_request_digest (sg_inner m))
       (ct_replica_id (sg_inner m)) (sg_signature m) = Commit m"
  by (simp add: commit_vote_def)

lemma certified_prepare:
  "certified A s \<Longrightarrow> A (prepare_vote s key i sig) \<Longrightarrow>
     certified A (s\<lparr>pm_prepare_quorums := quorum_insert key i sig (pm_prepare_quorums s)\<rparr>)"
  by (simp add: certified_def prepare_vote_def commit_vote_def quorums_all_insert)

lemma certified_commit:
  "certified A s \<Longrightarrow> A (commit_vote s key i sig) \<Longrightarrow>
     certified A (s\<lparr>pm_commit_quorums := quorum_insert key i sig (pm_commit_quorums s)\<rparr>)"
  by (simp add: certified_def prepare_vote_def commit_vote_def quorums_all_insert)

lemma exec_frame_certified: "exec_frame (s, out) (s', out') \<Longrightarrow> certified A s \<Longrightarrow> certified A s'"
  by (auto simp: exec_frame_def Let_def intro: certified_frame)

lemma handle_commit_certified:
  assumes "handle_commit m s = Inr (s', out)" and "certified A s" and "A (Commit m)"
  shows "certified A s'"
proof (cases "ct_view_number (sg_inner m) = pm_view_number s")
  case False
  with assms(1,2) show ?thesis by (simp add: handle_commit_def)
next
  case True
  have new: "certified A (s\<lparr>pm_commit_quorums :=
        quorum_insert (ct_op_number (sg_inner m), ct_request_digest (sg_inner m))
          (ct_replica_id (sg_inner m)) (sg_signature m) (pm_commit_quorums s)\<rparr>)"
    using certified_commit [OF assms(2)] commit_vote_of [OF True] assms(3) by metis
  from assms(1) show ?thesis
  proof (cases rule: handle_commit_Inr)
    case (Executed s1 s2 out1 b)
    have "certified A s2"
      using exec_frame_certified execute_exec_frame [OF Executed(3)] new Executed(1) by blast
    with Executed(5) show ?thesis
      by (auto simp: do_close_batch_eq intro: certified_frame split: if_splits)
  qed (use new assms(2) in simp_all)
qed

text \<open>What a message to the main thread has to carry.\<close>

fun to_main_ok :: "(to_replica \<Rightarrow> bool) \<Rightarrow> to_main \<Rightarrow> bool" where
  "to_main_ok A (Verified m) \<longleftrightarrow> is_request m \<or> A m"
| "to_main_ok A (Signed m) \<longleftrightarrow> \<not> is_request m \<and> A m"

lemma main_handle_certified:
  assumes "main_handle msg s = Inr (s', out)" and "certified A s" and "to_main_ok A msg"
  shows "certified A s'"
  using assms(1)
proof (cases rule: main_handle_cases)
  case (Request m)
  with assms(2) show ?thesis by (auto dest!: handle_request_frame intro: certified_frame)
next
  case (Prepare m)
  with assms(3) have "A (Prepare m)" by auto
  with Prepare(2) assms(2) certified_prepare [OF assms(2)] prepare_vote_of [of m s] show ?thesis
    by (cases rule: handle_prepare_cases [of m s]) (metis fst_conv)+
qed (use assms(2,3) in \<open>auto intro: receive_pre_prepare_certified handle_commit_certified\<close>)

section \<open>The replica\<close>

text \<open>
  A configuration that fits: there are fewer than 256 replicas, each with an address and a key
  pair, and the replica is one of them.
\<close>

definition deploy_ok :: "externals \<Rightarrow> replica_common \<Rightarrow> bool" where
  "deploy_ok X common \<longleftrightarrow>
     rc_common_id common < tc_n (rc_config common) \<and> tc_n (rc_config common) < 256 \<and>
     length (tc_public_keys (rc_config common)) = tc_n (rc_config common) \<and>
     length (tc_secret_keys (rc_config common)) = tc_n (rc_config common) \<and>
     length (tc_replica (rc_config common)) = tc_n (rc_config common) \<and>
     (\<forall>i < tc_n (rc_config common). tc_public_keys (rc_config common) ! i =
        sc_public_key X (tc_secret_keys (rc_config common) ! i))"

text \<open>The states of a replica: after \<open>new\<close>, after a poll, and after datagrams have arrived.\<close>

inductive replica_reach :: "externals \<Rightarrow> replica_common \<Rightarrow> preplica \<Rightarrow> bool"
  for X common where
  reach_new: "preplica_new common = Inr r \<Longrightarrow> replica_reach X common r"
| reach_poll: "replica_reach X common r \<Longrightarrow> preplica_poll X r = Inr (again, r', out) \<Longrightarrow>
     replica_reach X common r'"
| reach_arrive: "replica_reach X common r \<Longrightarrow>
     replica_reach X common (r\<lparr>pr_listen := (pr_listen r)\<lparr>pl_rx := rx\<rparr>\<rparr>)"

fun to_crypto_ok :: "public_key list \<Rightarrow> nat \<Rightarrow> to_crypto \<Rightarrow> bool" where
  "to_crypto_ok keys i (Verify m) \<longleftrightarrow> \<not> is_request m"
| "to_crypto_ok keys i (SendReply a r) \<longleftrightarrow> True"
| "to_crypto_ok keys i c \<longleftrightarrow> claimed_signer keys c = i"

abbreviation keys_of :: "replica_common \<Rightarrow> public_key list" where
  "keys_of common \<equiv> tc_public_keys (rc_config common)"

definition crypto_of :: "replica_common \<Rightarrow> pcrypto" where
  "crypto_of common =
     \<lparr>py_public_keys = keys_of common,
      py_secret_key = tc_secret_keys (rc_config common) ! rc_common_id common,
      py_tx = rc_tx common,
      py_broadcast_addresses =
        broadcast_addresses_of (rc_common_id common) (tc_replica (rc_config common)),
      py_to_main = True\<rparr>"

lemma crypto_of_to_main [simp]: "py_to_main (crypto_of common)"
  by (simp add: crypto_of_def)

definition replica_inv :: "externals \<Rightarrow> replica_common \<Rightarrow> preplica \<Rightarrow> bool" where
  "replica_inv X common r \<longleftrightarrow>
     later (pmain_new common) (pr_main r) \<and> pmain_wf (pr_main r) \<and>
     certified (authentic X (keys_of common)) (pr_main r) \<and>
     pr_crypto r = crypto_of common \<and> length (pl_buffer (pr_listen r)) = 65000 \<and>
     pl_to_main (pr_listen r) \<and> pl_to_crypto (pr_listen r) \<and>
     (\<forall>m \<in> set (pr_to_main r). to_main_ok (authentic X (keys_of common)) m) \<and>
     (\<forall>c \<in> set (pr_to_crypto r). to_crypto_ok (keys_of common) (rc_common_id common) c)"

text \<open>The threads one after the other.\<close>

lemma listen_dispatch_ok:
  "listen_dispatch m = (ms, cs) \<Longrightarrow>
     (\<forall>m \<in> set ms. to_main_ok A m) \<and> (\<forall>c \<in> set cs. to_crypto_ok keys i c)"
  by (cases m rule: listen_dispatch.cases) auto

lemma plisten_poll_Inr:
  assumes "plisten_poll X l = Inr (again, l', ms, cs)"
  shows "length (pl_buffer l') = length (pl_buffer l) \<and> pl_to_main l' = pl_to_main l \<and>
    pl_to_crypto l' = pl_to_crypto l \<and> (\<forall>m \<in> set ms. to_main_ok A m) \<and>
    (\<forall>c \<in> set cs. to_crypto_ok keys i c)"
proof -
  obtain r rx buf where rcv: "receive_from (pl_rx l) (pl_buffer l) = Inr (r, rx, buf)"
    using assms by (auto simp: plisten_poll_def)
  have "length buf = length (pl_buffer l)"
    using rcv receive_from_None [of "pl_rx l" "pl_buffer l" rx buf]
    by (cases r) (auto elim: receive_from_Some)
  with assms rcv show ?thesis
    by (cases r) (auto simp: plisten_poll_def Let_def
        dest: listen_dispatch_ok [of _ _ _ A keys i] split: prod.splits)
qed

lemma chan_recv_set:
  "chan_recv q = (Msg m, q') \<Longrightarrow> q = m # q'"
  "chan_recv q = (Empty, q') \<Longrightarrow> q = [] \<and> q' = []"
  "chan_recv q \<noteq> (Disconnected, q')"
  by (cases q; simp)+

lemma crypto_shared_poll_Inr:
  assumes "crypto_shared_poll X c (crypto_of common) = Inr (again, ms, out)"
    and "deploy_ok X common" and "pbft_ext_ok X"
    and "\<forall>m. c = Msg m \<longrightarrow> to_crypto_ok (keys_of common) (rc_common_id common) m"
  shows "\<forall>m \<in> set ms. to_main_ok (authentic X (keys_of common)) m"
proof (cases c)
  case (Msg cm)
  with assms(1) have h: "crypto_handle X (crypto_of common) cm = Inr (ms, out)"
    by (auto split: prod.splits)
  have ok: "to_crypto_ok (keys_of common) (rc_common_id common) cm" using assms(4) Msg by simp
  show ?thesis
  proof (cases "is_send_signed cm")
    case True
    with crypto_handle_signs [OF h] obtain m where ms: "ms = [Signed m]"
      and s: "signed_as X (py_secret_key (crypto_of common)) cm m" by blast
    from ok True have "claimed_signer (keys_of common) cm = rc_common_id common" by (cases cm) auto
    with assms(2) signed_as_authentic [OF assms(3) s, of "keys_of common"]
    have "authentic X (keys_of common) m" by (auto simp: deploy_ok_def crypto_of_def)
    with ms signed_as_not_request [OF s] show ?thesis by simp
  next
    case False
    show ?thesis
    proof (cases cm)
      case (Verify m)
      with verify_Inr [of X "crypto_of common" m ms out] h ok show ?thesis
        by (auto simp: crypto_of_def)
    next
      case (SendReply a r)
      with h show ?thesis by (auto simp: send_reply_def)
    qed (use False in auto)
  qed
qed (use assms(1) in auto)

lemma later_new_id:
  assumes "later (pmain_new common) s"
  shows "pm_id s = of_nat (rc_common_id common)" "pm_config s = rc_config common"
    "pm_view_number s = 0"
  using assms by (simp_all add: later_def pmain_new_def)

lemma send_ok_to_crypto:
  assumes "send_ok s c" and "later (pmain_new common) s" and "deploy_ok X common"
  shows "to_crypto_ok (keys_of common) (rc_common_id common) c"
proof -
  have "unat (of_nat (rc_common_id common) :: u8) = rc_common_id common"
    using assms(3) by (simp add: deploy_ok_def unsigned_of_nat take_bit_nat_def)
  with assms(1) later_new_id [OF assms(2)] show ?thesis
    by (cases c) (auto simp: is_primary_def rem_u8_def prepare_for_log_def split: if_splits)
qed

lemma main_poll_Inr:
  assumes "main_poll m s = Inr (again, s', out)" and "later (pmain_new common) s"
    and "pmain_wf s" and "certified A s" and "\<forall>msg. m = Msg msg \<longrightarrow> to_main_ok A msg"
    and "deploy_ok X common"
  shows "later (pmain_new common) s' \<and> pmain_wf s' \<and> certified A s' \<and>
    (\<forall>c \<in> set out. to_crypto_ok (keys_of common) (rc_common_id common) c)"
proof (cases m)
  case (Msg msg)
  with assms(1) have h: "main_handle msg s = Inr (s', out)" by auto
  have l: "later (pmain_new common) s'"
    by (rule later_trans [OF assms(2) main_handle_later [OF h]])
  have "to_main_ok A msg" using assms(5) Msg by simp
  with main_handle_certified [OF h assms(4)] main_handle_wf [OF h assms(3)]
    main_handle_sends [OF h] send_ok_to_crypto [OF _ l assms(6)] l
  show ?thesis by blast
qed (use assms in auto)

text \<open>A poll of the replica, taken apart.\<close>

lemma preplica_poll_Inr:
  assumes "preplica_poll X r = Inr (again, r', out)"
  obtains b1 listen ms1 cs1 c to_crypto b2 ms2 m to_main b3 main cs2 where
    "plisten_poll X (pr_listen r) = Inr (b1, listen, ms1, cs1)"
    "chan_recv (pr_to_crypto r @ cs1) = (c, to_crypto)"
    "crypto_shared_poll X c (pr_crypto r) = Inr (b2, ms2, out)"
    "chan_recv (pr_to_main r @ ms1 @ ms2) = (m, to_main)"
    "main_poll m (pr_main r) = Inr (b3, main, cs2)"
    "r' = r\<lparr>pr_main := main, pr_listen := listen, pr_to_main := to_main,
            pr_to_crypto := to_crypto @ cs2\<rparr>"
    "again = (b1 \<or> b2 \<or> b3)"
proof -
  from assms obtain b1 listen ms1 cs1 where 1: "plisten_poll X (pr_listen r) = Inr (b1, listen, ms1, cs1)"
    unfolding preplica_poll_def by auto
  obtain c to_crypto where 2: "chan_recv (pr_to_crypto r @ cs1) = (c, to_crypto)"
    by (cases "chan_recv (pr_to_crypto r @ cs1)")
  from assms 1 2 obtain b2 ms2 out' where
    3: "crypto_shared_poll X c (pr_crypto r) = Inr (b2, ms2, out')"
    unfolding preplica_poll_def Let_def by auto
  obtain m to_main where 4: "chan_recv (pr_to_main r @ ms1 @ ms2) = (m, to_main)"
    by (cases "chan_recv (pr_to_main r @ ms1 @ ms2)")
  from assms 1 2 3 4 obtain b3 main cs2 where 5: "main_poll m (pr_main r) = Inr (b3, main, cs2)"
    unfolding preplica_poll_def Let_def by auto
  from assms 1 2 3 4 5 show ?thesis
    by (intro that [of b1 listen ms1 cs1 c to_crypto b2 ms2 m to_main b3 main cs2])
       (auto simp: preplica_poll_def Let_def)
qed

lemma chan_recv_all:
  assumes "chan_recv q = (m, q')" and "\<forall>x \<in> set q. P x"
  shows "(\<forall>x \<in> set q'. P x) \<and> (\<forall>x. m = Msg x \<longrightarrow> P x)"
  using assms by (cases q) auto

lemma replica_inv_poll:
  assumes "preplica_poll X r = Inr (again, r', out)" and "replica_inv X common r"
    and "deploy_ok X common" and "pbft_ext_ok X"
  shows "replica_inv X common r'"
  using assms(1)
proof (rule preplica_poll_Inr)
  fix b1 listen ms1 cs1 c to_crypto b2 ms2 m to_main b3 main cs2
  assume l: "plisten_poll X (pr_listen r) = Inr (b1, listen, ms1, cs1)"
    and cc: "chan_recv (pr_to_crypto r @ cs1) = (c, to_crypto)"
    and y: "crypto_shared_poll X c (pr_crypto r) = Inr (b2, ms2, out)"
    and mm: "chan_recv (pr_to_main r @ ms1 @ ms2) = (m, to_main)"
    and mp: "main_poll m (pr_main r) = Inr (b3, main, cs2)"
    and r': "r' = r\<lparr>pr_main := main, pr_listen := listen, pr_to_main := to_main,
            pr_to_crypto := to_crypto @ cs2\<rparr>"
  let ?A = "authentic X (keys_of common)" and ?i = "rc_common_id common"
  have inv: "later (pmain_new common) (pr_main r)" "pmain_wf (pr_main r)"
    "certified ?A (pr_main r)" "pr_crypto r = crypto_of common"
    "\<forall>m \<in> set (pr_to_main r). to_main_ok ?A m"
    "\<forall>c \<in> set (pr_to_crypto r). to_crypto_ok (keys_of common) ?i c"
    "length (pl_buffer (pr_listen r)) = 65000" "pl_to_main (pr_listen r)" "pl_to_crypto (pr_listen r)"
    using assms(2) by (simp_all add: replica_inv_def)
  note lp = plisten_poll_Inr [OF l, of ?A "keys_of common" ?i]
  have "\<forall>c \<in> set (pr_to_crypto r @ cs1). to_crypto_ok (keys_of common) ?i c"
    using lp inv(6) by auto
  note c1 = chan_recv_all [OF cc this]
  have "\<forall>m \<in> set ms2. to_main_ok ?A m"
    using crypto_shared_poll_Inr [OF y [unfolded inv(4)] assms(3,4)] c1 by blast
  then have "\<forall>m \<in> set (pr_to_main r @ ms1 @ ms2). to_main_ok ?A m"
    using lp inv(5) by auto
  note m1 = chan_recv_all [OF mm this]
  note mr = main_poll_Inr [OF mp inv(1,2,3) _ assms(3)]
  have "later (pmain_new common) main" "pmain_wf main" "certified ?A main"
    "\<forall>c \<in> set cs2. to_crypto_ok (keys_of common) ?i c"
    using mr m1 by blast+
  moreover have "\<forall>c \<in> set (to_crypto @ cs2). to_crypto_ok (keys_of common) ?i c"
    using c1 calculation(4) by auto
  moreover have "length (pl_buffer listen) = 65000" "pl_to_main listen" "pl_to_crypto listen"
    using lp inv(7-9) by simp_all
  ultimately show ?thesis
    unfolding r' replica_inv_def using m1 inv(4) by simp
qed

lemma replica_inv_new:
  assumes "preplica_new common = Inr r"
  shows "replica_inv X common r"
  using assms
  by (auto simp: preplica_new_def replica_inv_def crypto_of_def certified_new pmain_new_wf)

lemma replica_inv_reach:
  assumes "replica_reach X common r" and "deploy_ok X common" and "pbft_ext_ok X"
  shows "replica_inv X common r"
  using assms(1)
proof induction
  case (reach_arrive r rx)
  then show ?case by (simp add: replica_inv_def)
qed (use assms(2,3) in \<open>auto intro: replica_inv_new replica_inv_poll\<close>)

text \<open>The main thread of a reachable replica is the end of a run of main-thread steps.\<close>

lemma main_poll_run:
  assumes "main_poll m s = Inr (b, s', out)"
  shows "\<exists>msgs. main_run msgs s = Inr (s', out)"
proof (cases m)
  case (Msg msg)
  with assms have "main_run [msg] s = Inr (s', out)" by auto
  then show ?thesis by blast
qed (use assms in \<open>auto intro: exI [of _ "[]"]\<close>)

lemma preplica_poll_main:
  assumes "preplica_poll X r = Inr (again, r', out)"
  shows "\<exists>msgs out2. main_run msgs (pr_main r) = Inr (pr_main r', out2)"
  using assms
proof (rule preplica_poll_Inr)
  fix m b3 main cs2 listen to_main to_crypto
  assume "main_poll m (pr_main r) = Inr (b3, main, cs2)"
    and "r' = r\<lparr>pr_main := main, pr_listen := listen, pr_to_main := to_main,
            pr_to_crypto := to_crypto @ cs2\<rparr>"
  then show ?thesis using main_poll_run [of m "pr_main r" b3 main cs2] by auto
qed

lemma replica_reach_run:
  assumes "replica_reach X common r"
  shows "\<exists>msgs out. main_run msgs (pmain_new common) = Inr (pr_main r, out)"
  using assms
proof induction
  case (reach_new r)
  then have "main_run [] (pmain_new common) = Inr (pr_main r, [])"
    by (auto simp: preplica_new_def)
  then show ?case by blast
next
  case (reach_poll r again r' out)
  then obtain msgs out1 where 1: "main_run msgs (pmain_new common) = Inr (pr_main r, out1)" by blast
  from preplica_poll_main [OF reach_poll.hyps(2)]
  obtain msgs' out2 where "main_run msgs' (pr_main r) = Inr (pr_main r', out2)" by blast
  with 1 have "main_run (msgs @ msgs') (pmain_new common) = Inr (pr_main r', out1 @ out2)"
    by (simp add: main_run_append)
  then show ?case by blast
qed simp

lemma quorum_ids_authentic:
  assumes "quorums_all P q" and "i \<in> quorum_ids q key"
  shows "\<exists>sig. P key i sig"
proof -
  from assms(2) obtain e sig where "q key = Some e" "e i = Some sig"
    by (auto simp: quorum_ids_def split: option.splits)
  with assms(1) show ?thesis unfolding quorums_all_def by blast
qed

end
