(* ===== verification/Pbft_Replica_Demo.thy ===== *)
theory Pbft_Replica_Demo
  imports Pbft_Replica_Correct Pbft_Main_Properties
begin

text \<open>
  A concrete replica of the four-replica deployment that receives a proposal and votes and
  executes a request.  The properties of replicas are instantiated on it.
\<close>

section \<open>A replica at work\<close>

text \<open>Replica 1 is sent a proposal, a prepare and two commits.  The last message names no replica.\<close>

definition demo_requests :: "request list" where
  "demo_requests = [sample_request 1]"

definition demo_digest :: digest where
  "demo_digest = unary (to_nat demo_requests)"

definition demo_key :: "u8 \<Rightarrow> bytes" where
  "demo_key i = [10 + i]"

definition demo_proposal :: to_replica where
  "demo_proposal = PrePrepare
     \<lparr>sg_inner = sg_inner (sample_pre_prepare 1 demo_digest),
      sg_signature = [10] @ 0 # unary (to_nat (sg_inner (sample_pre_prepare 1 demo_digest)))\<rparr>
     demo_requests"

definition demo_prepare :: "u8 \<Rightarrow> to_replica" where
  "demo_prepare i = Prepare
     \<lparr>sg_inner = sg_inner (sample_prepare 1 demo_digest i),
      sg_signature = [10 + i] @ 1 # unary (to_nat (0 :: u8, 1 :: u32, demo_digest, i))\<rparr>"

definition demo_commit :: "u8 \<Rightarrow> to_replica" where
  "demo_commit i = Commit
     \<lparr>sg_inner = sg_inner (sample_commit 1 demo_digest i),
      sg_signature = [10 + i] @ 1 # unary (to_nat (0 :: u8, 1 :: u32, demo_digest, i))\<rparr>"

definition demo_reply :: reply where
  "demo_reply =
     \<lparr>rp_request_number = 1, rp_result = [], rp_replica_id = 1, rp_view_number = 0\<rparr>"

definition demo_messages :: "to_replica list" where
  "demo_messages =
     [demo_proposal, demo_prepare 2, demo_commit 0, demo_commit 2, demo_prepare 1, demo_commit 1,
      demo_prepare 9]"

definition demo_ext :: externals where
  "demo_ext = sample_ext demo_requests [demo_reply] demo_messages"

definition demo_common :: replica_common where
  "demo_common = (sample_common 1)
     \<lparr>rc_rx := Rx_Simulated (map (\<lambda>b. (sample_addr 1, [b])) [0, 1, 2, 3]) True\<rparr>"

fun preplica_polls :: "externals \<Rightarrow> nat \<Rightarrow> preplica \<Rightarrow> (preplica \<times> sent list) res" where
  "preplica_polls X 0 r = Inr (r, [])"
| "preplica_polls X (Suc k) r =
     bind_res (preplica_poll X r) (\<lambda>(again, r, out).
     bind_res (preplica_polls X k r) (\<lambda>(r, out'). Inr (r, out @ out')))"

lemma preplica_polls_reach:
  "preplica_polls X k r = Inr (r', out) \<Longrightarrow> replica_reach X common r \<Longrightarrow> replica_reach X common r'"
  by (induction k arbitrary: r out) (auto intro: reach_poll)

lemma demo_decode:
  "untagged demo_messages (0 # r) = Some demo_proposal"
  "untagged demo_messages (1 # r) = Some (demo_prepare 2)"
  "untagged demo_messages (2 # r) = Some (demo_commit 0)"
  "untagged demo_messages (3 # r) = Some (demo_commit 2)"
  by (simp_all add: untagged_def demo_messages_def)

lemma demo_encode:
  "tagged demo_messages (demo_prepare 1) = [4]"
  "tagged demo_messages (demo_commit 1) = [5]"
  "tagged demo_messages (demo_prepare 9) = [6]"
  "tagged [demo_reply] demo_reply = [0]"
  by (simp_all add: tagged_def demo_messages_def demo_proposal_def demo_prepare_def demo_commit_def
      sample_defs)

lemma demo_ext_simps:
  "bc_de_to_replica demo_ext = untagged demo_messages"
  "bc_ser_to_replica demo_ext m = Some (tagged demo_messages m)"
  "bc_ser_reply demo_ext r = Some (tagged [demo_reply] r)"
  "bc_ser_requests demo_ext rqs = Some (unary (to_nat rqs))"
  "bc_ser_pre_prepare demo_ext pp = Some (0 # unary (to_nat pp))"
  "bc_ser_prepare demo_ext p = Some (1 # unary (to_nat
     (pr_view_number p, pr_op_number p, pr_request_digest p, pr_replica_id p)))"
  "bc_ser_commit demo_ext c = Some (1 # unary (to_nat
     (ct_view_number c, ct_op_number c, ct_request_digest c, ct_replica_id c)))"
  "sc_hash demo_ext b = b" "sc_sign demo_ext h sk = sk @ h"
  "sc_verify demo_ext h s pk \<longleftrightarrow> s = pk @ h"
  by (simp_all add: demo_ext_def sample_ext_def)

lemma demo_fold:
  "Prepare \<lparr>sg_inner = \<lparr>pr_view_number = 0, pr_op_number = 1, pr_request_digest = demo_digest,
       pr_replica_id = 1\<rparr>, sg_signature = 11 # 1 # unary (to_nat (0 :: u8, 1 :: u32, demo_digest, 1 :: u8))\<rparr> =
     demo_prepare 1"
  "Commit \<lparr>sg_inner = \<lparr>ct_view_number = 0, ct_op_number = 1, ct_request_digest = demo_digest,
       ct_replica_id = 1\<rparr>, sg_signature = 11 # 1 # unary (to_nat (0 :: u8, 1 :: u32, demo_digest, 1 :: u8))\<rparr> =
     demo_commit 1"
  by (simp_all add: demo_prepare_def demo_commit_def sample_defs)

text \<open>The states of its main thread, one for each message.\<close>

definition demo_entry :: log_entry where
  "demo_entry = (case demo_proposal of
     PrePrepare m rqs \<Rightarrow> \<lparr>le_pre_prepare = m, le_requests = rqs\<rparr>)"

definition demo_vote :: "u8 \<Rightarrow> signature" where
  "demo_vote i = signature_of (demo_prepare i)"

definition demo_main :: "(u8 \<rightharpoonup> signature) option \<Rightarrow> (u8 \<rightharpoonup> signature) option \<Rightarrow> pmain" where
  "demo_main prepares commits = (pmain_new demo_common)
     \<lparr>pm_log := [demo_entry],
      pm_prepare_quorums := (\<lambda>key. if key = (1, demo_digest) then prepares else None),
      pm_commit_quorums := (\<lambda>key. if key = (1, demo_digest) then commits else None)\<rparr>"

definition demo_main_end :: pmain where
  "demo_main_end = (demo_main (Some [1 \<mapsto> demo_vote 1, 2 \<mapsto> demo_vote 2])
       (Some [0 \<mapsto> demo_vote 0, 1 \<mapsto> demo_vote 1, 2 \<mapsto> demo_vote 2]))
     \<lparr>pm_execute_number := 1, pm_client_table := [1 \<mapsto> demo_reply]\<rparr>"

lemmas demo_defs = demo_main_def demo_main_end_def demo_entry_def demo_vote_def demo_proposal_def
  demo_prepare_def demo_commit_def demo_requests_def demo_reply_def demo_common_def sample_defs

lemma demo_main_steps:
  "main_poll (Msg (Verified demo_proposal)) (pmain_new demo_common) =
     Inr (True, demo_main None None, [SendPrepare (sg_inner (sample_prepare 1 demo_digest 1))])"
  "main_poll (Msg (Signed (demo_prepare 1))) (demo_main None None) =
     Inr (True, demo_main (Some [1 \<mapsto> demo_vote 1]) None, [])"
  "main_poll (Msg (Verified (demo_prepare 2))) (demo_main (Some [1 \<mapsto> demo_vote 1]) None) =
     Inr (True, demo_main (Some [1 \<mapsto> demo_vote 1, 2 \<mapsto> demo_vote 2]) None,
          [SendCommit (sg_inner (sample_commit 1 demo_digest 1))])"
  "main_poll (Msg (Verified (demo_commit 0)))
     (demo_main (Some [1 \<mapsto> demo_vote 1, 2 \<mapsto> demo_vote 2]) None) =
     Inr (True, demo_main (Some [1 \<mapsto> demo_vote 1, 2 \<mapsto> demo_vote 2]) (Some [0 \<mapsto> demo_vote 0]), [])"
  "main_poll (Msg (Signed (demo_commit 1)))
     (demo_main (Some [1 \<mapsto> demo_vote 1, 2 \<mapsto> demo_vote 2]) (Some [0 \<mapsto> demo_vote 0])) =
     Inr (True, demo_main (Some [1 \<mapsto> demo_vote 1, 2 \<mapsto> demo_vote 2])
            (Some [0 \<mapsto> demo_vote 0, 1 \<mapsto> demo_vote 1]), [])"
  "main_poll (Msg (Verified (demo_commit 2)))
     (demo_main (Some [1 \<mapsto> demo_vote 1, 2 \<mapsto> demo_vote 2])
        (Some [0 \<mapsto> demo_vote 0, 1 \<mapsto> demo_vote 1])) =
     Inr (True, demo_main_end, [SendReply sample_client_addr demo_reply])"
  by (simp_all add: main_eval demo_defs fun_eq_iff)

text \<open>The steps of its crypto thread and of its listening thread.\<close>

lemma demo_digest_eq: "unary (to_nat demo_requests) = demo_digest"
  by (simp add: demo_digest_def)

definition demo_sent :: "u8 \<Rightarrow> sent list" where
  "demo_sent b = map (\<lambda>i. Sim_Sent (sample_addr 2) (sample_addr i) [b]) [1, 3, 4]"

lemmas crypto_eval = verify_pre_prepare_def verify_prepare_def verify_commit_def
  send_prepare_def send_commit_def send_reply_def broadcast_signed_def broadcast_addresses_of_def
  rem_usize_def index_def Let_def

lemma demo_crypto_verify:
  "crypto_shared_poll demo_ext (Msg (Verify demo_proposal)) (crypto_of demo_common) =
     Inr (True, [Verified demo_proposal], [])"
  "crypto_shared_poll demo_ext (Msg (Verify (demo_prepare 2))) (crypto_of demo_common) =
     Inr (True, [Verified (demo_prepare 2)], [])"
  "crypto_shared_poll demo_ext (Msg (Verify (demo_commit 0))) (crypto_of demo_common) =
     Inr (True, [Verified (demo_commit 0)], [])"
  "crypto_shared_poll demo_ext (Msg (Verify (demo_commit 2))) (crypto_of demo_common) =
     Inr (True, [Verified (demo_commit 2)], [])"
  by (simp_all add: crypto_eval demo_ext_simps demo_digest_eq crypto_of_def demo_common_def
      demo_proposal_def demo_prepare_def demo_commit_def sample_defs)

lemma demo_crypto_send:
  "crypto_shared_poll demo_ext (Msg (SendPrepare (sg_inner (sample_prepare 1 demo_digest 1))))
     (crypto_of demo_common) = Inr (True, [Signed (demo_prepare 1)], demo_sent 4)"
  "crypto_shared_poll demo_ext (Msg (SendCommit (sg_inner (sample_commit 1 demo_digest 1))))
     (crypto_of demo_common) = Inr (True, [Signed (demo_commit 1)], demo_sent 5)"
  by (simp_all add: crypto_eval demo_ext_simps crypto_of_def demo_common_def demo_encode
      demo_fold sample_defs demo_sent_def)

definition demo_listen :: "u8 list \<Rightarrow> u8 \<Rightarrow> plisten" where
  "demo_listen ns c =
     \<lparr>pl_rx = Rx_Simulated (map (\<lambda>b. (sample_addr 1, [b])) ns) True,
      pl_buffer = c # replicate 64999 0, pl_to_main = True, pl_to_crypto = True\<rparr>"

lemma demo_listen_steps:
  "plisten_poll demo_ext (demo_listen [0, 1, 2, 3] c) =
     Inr (True, demo_listen [1, 2, 3] 0, [], [Verify demo_proposal])"
  "plisten_poll demo_ext (demo_listen [1, 2, 3] c) =
     Inr (True, demo_listen [2, 3] 1, [], [Verify (demo_prepare 2)])"
  "plisten_poll demo_ext (demo_listen [2, 3] c) =
     Inr (True, demo_listen [3] 2, [], [Verify (demo_commit 0)])"
  "plisten_poll demo_ext (demo_listen [3] c) =
     Inr (True, demo_listen [] 3, [], [Verify (demo_commit 2)])"
  "plisten_poll demo_ext (demo_listen [] c) = Inr (False, demo_listen [] c, [], [])"
  by (simp_all add: plisten_poll_def demo_listen_def demo_ext_simps demo_decode)
     (simp_all add: demo_proposal_def demo_prepare_def demo_commit_def)

definition demo_at :: "u8 list \<Rightarrow> u8 \<Rightarrow> pmain \<Rightarrow> to_crypto list \<Rightarrow> preplica" where
  "demo_at ns c main cs =
     \<lparr>pr_main = main, pr_listen = demo_listen ns c, pr_crypto = crypto_of demo_common,
      pr_to_main = [], pr_to_crypto = cs\<rparr>"

lemma replicate_buffer: "replicate 65000 (0 :: u8) = 0 # replicate 64999 0"
  using replicate_Suc [of 64999 "0 :: u8"] by simp

lemma demo_new: "preplica_new demo_common = Inr (demo_at [0, 1, 2, 3] 0 (pmain_new demo_common) [])"
  by (simp add: demo_at_def demo_listen_def preplica_new_def demo_common_def crypto_of_def
      sample_defs index_def replicate_buffer)

text \<open>Six polls take the replica from its initial state to the execution of the request.\<close>

definition demo_end :: preplica where
  "demo_end = demo_at [] 3 demo_main_end [SendReply sample_client_addr demo_reply]"

lemma demo_run:
  "preplica_polls demo_ext (Suc (Suc (Suc (Suc (Suc (Suc 0))))))
     (demo_at [0, 1, 2, 3] 0 (pmain_new demo_common) []) = Inr (demo_end, demo_sent 4 @ demo_sent 5)"
  by (simp add: preplica_poll_def demo_at_def demo_end_def demo_listen_steps demo_crypto_verify
      demo_crypto_send demo_main_steps del: main_poll.simps crypto_shared_poll.simps)

lemma demo_reach: "replica_reach demo_ext demo_common demo_end"
  by (rule preplica_polls_reach [OF demo_run reach_new [OF demo_new]])

lemma demo_ok: "deploy_ok demo_ext demo_common" "pbft_ext_ok demo_ext"
proof -
  show "deploy_ok demo_ext demo_common"
    by (simp add: deploy_ok_def demo_common_def sample_defs demo_ext_def sample_ext_def)
  show "pbft_ext_ok demo_ext"
    unfolding demo_ext_def by (rule sample_pbft_ext_ok) (simp_all add: demo_messages_def)
qed

text \<open>A state of the replica in which the message that names no replica has arrived.\<close>

definition demo_attacked :: preplica where
  "demo_attacked = demo_at [6] 0 (pmain_new demo_common) []"

lemma demo_attacked_reach: "replica_reach demo_ext demo_common demo_attacked"
proof -
  have "demo_attacked = (demo_at [0, 1, 2, 3] 0 (pmain_new demo_common) [])
      \<lparr>pr_listen := (pr_listen (demo_at [0, 1, 2, 3] 0 (pmain_new demo_common) []))
         \<lparr>pl_rx := Rx_Simulated [(sample_addr 1, [6])] True\<rparr>\<rparr>"
    by (simp add: demo_attacked_def demo_at_def demo_listen_def)
  then show ?thesis using reach_arrive [OF reach_new [OF demo_new]] by metis
qed

end
