(* ===== verification/Pbft_Replica_Properties.thy ===== *)
theory Pbft_Replica_Properties
  imports Pbft_Replica_Demo
begin

text \<open>
  The properties of the listening and the crypto thread and of the replica as a whole.
\<close>

section \<open>Certificates\<close>

text \<open>
  C1. A replica executes a batch only with a certificate: whatever datagrams arrive and however
  often it is polled, for every executed entry of its log the proposal is signed by the primary
  of its view and its digest is the hash of the batch, and in its two quorums for exactly this
  number and digest the replica holds the signatures of at least 2f and of more than 2f replicas
  (the quorums are maps from replica numbers, so these are different ones), each of which is a valid
  signature of that replica on the prepare or the commit.  Only with f = 0 there may be no quorum of
  prepares.
\<close>
theorem executed_with_certificate:
  assumes "replica_reach X common r" and "deploy_ok X common" and "pbft_ext_ok X"
    and "length (pm_log (pr_main r)) < 2 ^ 32" and "i < unat (pm_execute_number (pr_main r))"
  shows "\<exists>e d p c. i < length (pm_log (pr_main r)) \<and> e = pm_log (pr_main r) ! i \<and>
    authentic X (keys_of common) (PrePrepare (le_pre_prepare e) (le_requests e)) \<and>
    d = pp_request_digest (sg_inner (le_pre_prepare e)) \<and>
    (pm_prepare_quorums (pr_main r) (entry_number i, d) = Some p \<or>
       tc_f (rc_config common) = 0 \<and> p = Map.empty) \<and>
    2 * tc_f (rc_config common) \<le> card (dom p) \<and>
    (\<forall>j sig. p j = Some sig \<longrightarrow> authentic X (keys_of common) (Prepare
       \<lparr>sg_inner = \<lparr>pr_view_number = 0, pr_op_number = entry_number i, pr_request_digest = d,
                    pr_replica_id = j\<rparr>, sg_signature = sig\<rparr>)) \<and>
    pm_commit_quorums (pr_main r) (entry_number i, d) = Some c \<and>
    2 * tc_f (rc_config common) < card (dom c) \<and>
    (\<forall>j sig. c j = Some sig \<longrightarrow> authentic X (keys_of common) (Commit
       \<lparr>sg_inner = \<lparr>ct_view_number = 0, ct_op_number = entry_number i, ct_request_digest = d,
                    ct_replica_id = j\<rparr>, sg_signature = sig\<rparr>))"
proof -
  let ?s = "pr_main r" and ?A = "authentic X (keys_of common)" and ?f = "tc_f (rc_config common)"
  define e where "e = pm_log ?s ! i"
  let ?d = "pp_request_digest (sg_inner (le_pre_prepare e))"
  let ?key = "(entry_number i, ?d)"
  have inv: "later (pmain_new common) ?s" "certified ?A ?s"
    using replica_inv_reach [OF assms(1-3)] by (simp_all add: replica_inv_def)
  note view = later_new_id(3) [OF inv(1)]
  obtain msgs out where "main_run msgs (pmain_new common) = Inr (?s, out)"
    using replica_reach_run [OF assms(1)] by blast
  from main_run_executed [OF this pmain_new_executed assms(4)]
  have i: "i < length (pm_log ?s)" and c: "is_committed ?s (entry_number i) ?d"
    using assms(5) by (auto simp: pmain_executed_def entry_number_def e_def)
  have entry: "?A (PrePrepare (le_pre_prepare e) (le_requests e))"
    using inv(2) i by (auto simp: certified_def proposal_ok_def e_def)
  have len: "2 * ?f \<le> quorum_len (pm_prepare_quorums ?s) ?key" "2 * ?f < quorum_len (pm_commit_quorums ?s) ?key"
    using c later_new_id(2) [OF inv(1)] by (simp_all add: is_committed_def is_prepared_def)
  then obtain cq where cq: "pm_commit_quorums ?s ?key = Some cq" "2 * ?f < card (dom cq)"
    by (auto simp: quorum_len_def hm_len_def split: option.splits)
  obtain pq where pq: "pm_prepare_quorums ?s ?key = Some pq \<or> ?f = 0 \<and> pq = Map.empty" "2 * ?f \<le> card (dom pq)"
    using len(1) by (cases "pm_prepare_quorums ?s ?key") (auto simp: quorum_len_def hm_len_def)
  have "?A (prepare_vote ?s ?key j sig)" if "pq j = Some sig" for j sig
    using inv(2) pq(1) that by (auto simp: certified_def quorums_all_def)
  moreover have "?A (commit_vote ?s ?key j sig)" if "cq j = Some sig" for j sig
    using inv(2) cq(1) that by (auto simp: certified_def quorums_all_def)
  ultimately show ?thesis using i entry cq pq view
    by (intro exI [of _ e] exI [of _ ?d] exI [of _ pq] exI [of _ cq])
       (simp add: e_def [symmetric] prepare_vote_def commit_vote_def)
qed

theorem executed_with_certificate_witness:
  "\<exists>c. pm_commit_quorums (pr_main demo_end) (1, demo_digest) = Some c \<and> 2 < card (dom c) \<and>
     dom c \<subseteq> {j. authentic demo_ext (keys_of demo_common) (Commit
       \<lparr>sg_inner = \<lparr>ct_view_number = 0, ct_op_number = 1, ct_request_digest = demo_digest,
                    ct_replica_id = j\<rparr>, sg_signature = the (c j)\<rparr>)}"
proof -
  have "length (pm_log (pr_main demo_end)) < 2 ^ 32"
    and i: "0 < unat (pm_execute_number (pr_main demo_end))"
    and d: "pp_request_digest (sg_inner (le_pre_prepare (pm_log (pr_main demo_end) ! 0))) = demo_digest"
    and f: "tc_f (rc_config demo_common) = 1"
    by (simp_all add: demo_end_def demo_at_def demo_defs)
  from executed_with_certificate [OF demo_reach demo_ok this(1) i]
  show ?thesis by (auto simp: d f entry_number_def)
qed

section \<open>The crypto thread\<close>

text \<open>
  C25. The crypto thread lets a protocol message through to the main thread exactly when it is
  authentic: for a proposal the digest is the hash of its requests, and the signature is one of
  the primary of its view, or of the replica it names, over the encoded message. Everything else
  is dropped, nothing is sent, and the thread fails exactly when a message names a replica
  without a key, or an authentic message is to go to a main thread that is gone.
\<close>
theorem crypto_admits_authentic:
  assumes "pbft_ext_ok X" and "py_public_keys y \<noteq> []" and "\<not> is_request m"
  shows "crypto_shared_poll X (Msg (Verify m)) y =
    (if signer (py_public_keys y) m < length (py_public_keys y)
     then if authentic X (py_public_keys y) m
          then if py_to_main y then Inr (True, [Verified m], []) else Inl Unwrap_Err
          else Inr (True, [], [])
     else Inl Index_Out_Of_Bounds)"
  using verify_result [OF assms(1,3), of y] verify_unknown_signer [OF assms(3) _ assms(2)]
  by (cases "py_to_main y") (simp_all add: not_less)

theorem crypto_admits_authentic_witness:
  "crypto_shared_poll demo_ext (Msg (Verify (demo_commit 0))) (crypto_of demo_common) =
     Inr (True, [Verified (demo_commit 0)], []) \<and>
   crypto_shared_poll demo_ext (Msg (Verify (demo_commit 0))) (crypto_of demo_common\<lparr>py_to_main := False\<rparr>) =
     Inl Unwrap_Err \<and>
   crypto_shared_poll demo_ext (Msg (Verify (demo_commit 9))) (crypto_of demo_common) =
     Inl Index_Out_Of_Bounds"
  using crypto_admits_authentic [OF demo_ok(2), of "crypto_of demo_common" "demo_commit 0"]
    crypto_admits_authentic [OF demo_ok(2), of "crypto_of demo_common\<lparr>py_to_main := False\<rparr>" "demo_commit 0"]
    crypto_admits_authentic [OF demo_ok(2), of "crypto_of demo_common" "demo_commit 9"]
  by (simp add: authentic_def crypto_of_def demo_common_def demo_commit_def sample_defs
      demo_ext_simps)

lemma broadcast_addresses_of_eq:
  "broadcast_addresses_of i replica =
     map ((!) replica) (filter (\<lambda>j. j \<noteq> i) [0..<length replica])"
proof -
  have "List.enumerate 0 replica = map (\<lambda>j. (j, replica ! j)) [0..<length replica]"
    by (intro nth_equalityI) (simp_all add: enumerate_eq_zip)
  then show ?thesis by (simp add: broadcast_addresses_of_def filter_map comp_def)
qed

text \<open>
  C26. What a replica signs, its peers accept: when the crypto thread of replica i is asked to
  send a proposal as primary, a prepare or a commit of its own, it hands the signed message to
  its own main thread and sends one datagram to every other replica in the order of their
  numbers; a peer decodes the datagram to the same message, and its crypto thread passes it on
  as verified.
\<close>
theorem signed_accepted_by_peers:
  assumes "deploy_ok X common" and "pbft_ext_ok X" and "rc_config peer = rc_config common"
    and "to_crypto_ok (keys_of common) (rc_common_id common) c" and "is_send_signed c"
    and "crypto_shared_poll X (Msg c) (crypto_of common) = Inr (again, ms, out)"
  shows "\<exists>m. ms = [Signed m] \<and>
    map sent_dest out = map ((!) (tc_replica (rc_config common)))
      (filter (\<lambda>j. j \<noteq> rc_common_id common) [0..<tc_n (rc_config common)]) \<and>
    (\<forall>s \<in> set out. listen_dispatch (bc_de_to_replica X (sent_payload s)) = ([], [Verify m])) \<and>
    crypto_shared_poll X (Msg (Verify m)) (crypto_of peer) = Inr (True, [Verified m], [])"
proof -
  from assms(6) have h: "crypto_handle X (crypto_of common) c = Inr (ms, out)"
    by (auto split: prod.splits)
  from crypto_handle_signs [OF h assms(5)] obtain m payload where ms: "ms = [Signed m]"
    and p: "bc_ser_to_replica X m = Some payload"
    and out: "out = map (sent_by (py_tx (crypto_of common)) payload)
      (py_broadcast_addresses (crypto_of common))"
    and s: "signed_as X (py_secret_key (crypto_of common)) c m" by blast
  have cl: "claimed_signer (keys_of common) c = rc_common_id common"
    using assms(4,5) by (cases c) auto
  have auth: "authentic X (keys_of common) m"
    by (rule signed_as_authentic [OF assms(2) s])
       (use assms(1) cl in \<open>auto simp: deploy_ok_def crypto_of_def\<close>)
  have de: "bc_de_to_replica X payload = Some m"
    using assms(2) p by (auto simp: pbft_ext_ok_def elim!: codec_okD [of _ _ m])
  have nr: "\<not> is_request m" by (rule signed_as_not_request [OF s])
  have disp: "listen_dispatch (Some m) = ([], [Verify m])" using nr by (cases m) auto
  have v: "crypto_shared_poll X (Msg (Verify m)) (crypto_of peer) = Inr (True, [Verified m], [])"
    using verify_result [OF assms(2) nr, of "crypto_of peer"] auth
    by (simp add: crypto_of_def assms(3) authentic_def)
  have len: "length (tc_replica (rc_config common)) = tc_n (rc_config common)"
    using assms(1) by (simp add: deploy_ok_def)
  show ?thesis
    using ms de disp v
    by (auto simp: out crypto_of_def broadcast_addresses_of_eq comp_def len)
qed

theorem signed_accepted_by_peers_witness:
  "crypto_shared_poll demo_ext (Msg (Verify (demo_prepare 1))) (crypto_of (sample_common 3)) =
     Inr (True, [Verified (demo_prepare 1)], []) \<and>
   map sent_dest (demo_sent 4) = [sample_addr 1, sample_addr 3, sample_addr 4]"
proof -
  have "to_crypto_ok (keys_of demo_common) (rc_common_id demo_common)
      (SendPrepare (sg_inner (sample_prepare 1 demo_digest 1)))"
    by (simp add: demo_common_def sample_defs)
  from signed_accepted_by_peers [OF demo_ok _ this _ demo_crypto_send(1), of "sample_common 3"]
  show ?thesis by (simp add: demo_common_def demo_sent_def sample_common_def)
qed

text \<open>
  C35. The signature a replica puts on a prepare is also a valid signature of that replica on the
  commit with the same view, number and digest, when the two structs have the same encoding, as
  they have in a format that writes the fields in order without names. Nothing in what is signed
  tells the phases of the protocol apart.
\<close>
theorem prepare_signature_is_commit_signature:
  assumes "\<forall>v n d i. bc_ser_commit X \<lparr>ct_view_number = v, ct_op_number = n, ct_request_digest = d,
        ct_replica_id = i\<rparr> =
      bc_ser_prepare X \<lparr>pr_view_number = v, pr_op_number = n, pr_request_digest = d, pr_replica_id = i\<rparr>"
    and "crypto_shared_poll X (Msg (Verify (Prepare \<lparr>sg_inner = p, sg_signature = sig\<rparr>))) y =
      Inr (again, [Verified (Prepare \<lparr>sg_inner = p, sg_signature = sig\<rparr>)], [])"
  shows "crypto_shared_poll X (Msg (Verify (Commit \<lparr>sg_inner =
        \<lparr>ct_view_number = pr_view_number p, ct_op_number = pr_op_number p,
         ct_request_digest = pr_request_digest p, ct_replica_id = pr_replica_id p\<rparr>,
        sg_signature = sig\<rparr>))) y =
      Inr (True, [Verified (Commit \<lparr>sg_inner =
        \<lparr>ct_view_number = pr_view_number p, ct_op_number = pr_op_number p,
         ct_request_digest = pr_request_digest p, ct_replica_id = pr_replica_id p\<rparr>,
        sg_signature = sig\<rparr>)], [])"
proof -
  have p: "\<lparr>pr_view_number = pr_view_number p, pr_op_number = pr_op_number p,
      pr_request_digest = pr_request_digest p, pr_replica_id = pr_replica_id p\<rparr> = p" by simp
  from assms(2) show ?thesis
    by (auto simp: verify_prepare_def verify_commit_def assms(1) p index_ok split: if_splits)
qed

theorem prepare_signature_is_commit_signature_witness:
  "crypto_shared_poll demo_ext (Msg (Verify (demo_commit 2))) (crypto_of demo_common) =
     Inr (True, [Verified (demo_commit 2)], [])"
proof -
  let ?p = "sg_inner (sample_prepare 1 demo_digest 2)"
  have c: "demo_commit 2 = Commit \<lparr>sg_inner =
        \<lparr>ct_view_number = pr_view_number ?p, ct_op_number = pr_op_number ?p,
         ct_request_digest = pr_request_digest ?p, ct_replica_id = pr_replica_id ?p\<rparr>,
        sg_signature = demo_vote 2\<rparr>"
    and p: "demo_prepare 2 = Prepare \<lparr>sg_inner = ?p, sg_signature = demo_vote 2\<rparr>"
    by (simp_all add: demo_commit_def demo_prepare_def demo_vote_def sample_defs)
  show ?thesis
    unfolding c
    by (rule prepare_signature_is_commit_signature [OF _ demo_crypto_verify(2) [unfolded p]])
       (simp add: demo_ext_simps)
qed

section \<open>Polls of the replica\<close>

lemma plisten_poll_idle:
  assumes "plisten_poll X l = Inr (False, l', ms, cs)"
  shows "\<exists>rx buf. receive_from (pl_rx l) (pl_buffer l) = Inr (None, rx, buf) \<and>
    l' = l\<lparr>pl_rx := rx, pl_buffer := buf\<rparr> \<and> ms = [] \<and> cs = []"
proof -
  from assms obtain r rx buf where r: "receive_from (pl_rx l) (pl_buffer l) = Inr (r, rx, buf)"
    by (auto simp: plisten_poll_def)
  with assms show ?thesis by (cases r) (auto simp: plisten_poll_def Let_def split: prod.splits)
qed

lemma chan_recv_no_msg:
  "chan_recv q = (c, q') \<Longrightarrow> \<forall>x. c \<noteq> Msg x \<Longrightarrow> q = [] \<and> q' = [] \<and> c = Empty"
  by (cases q) auto

text \<open>
  A poll of a replica that returns false has left nothing to do: nothing was received,
  nothing was sent, the main thread did not move and both channels between the threads are
  empty.
\<close>
theorem poll_false_is_idle:
  assumes "preplica_poll X r = Inr (False, r', out)"
  shows "out = [] \<and> pr_main r' = pr_main r \<and> pr_to_main r' = [] \<and> pr_to_crypto r' = [] \<and>
    pr_to_main r = [] \<and> pr_to_crypto r = [] \<and>
    (\<exists>rx buf. receive_from (pl_rx (pr_listen r)) (pl_buffer (pr_listen r)) = Inr (None, rx, buf))"
  using assms
proof (rule preplica_poll_Inr)
  fix b1 listen ms1 cs1 c to_crypto b2 ms2 m to_main b3 main cs2
  assume l: "plisten_poll X (pr_listen r) = Inr (b1, listen, ms1, cs1)"
    and cc: "chan_recv (pr_to_crypto r @ cs1) = (c, to_crypto)"
    and y: "crypto_shared_poll X c (pr_crypto r) = Inr (b2, ms2, out)"
    and mm: "chan_recv (pr_to_main r @ ms1 @ ms2) = (m, to_main)"
    and mp: "main_poll m (pr_main r) = Inr (b3, main, cs2)"
    and r': "r' = r\<lparr>pr_main := main, pr_listen := listen, pr_to_main := to_main,
            pr_to_crypto := to_crypto @ cs2\<rparr>"
    and b: "False = (b1 \<or> b2 \<or> b3)"
  from l b have "\<not> b1" by simp
  with l obtain rx buf where
    rcv: "receive_from (pl_rx (pr_listen r)) (pl_buffer (pr_listen r)) = Inr (None, rx, buf)"
    and lp: "ms1 = [] \<and> cs1 = []"
    using plisten_poll_idle [of X "pr_listen r" listen ms1 cs1] by auto
  have "\<forall>x. c \<noteq> Msg x" using y b by auto
  from chan_recv_no_msg [OF cc this] lp
  have c: "pr_to_crypto r = []" "to_crypto = []" "c = Empty" by simp_all
  have "\<forall>x. m \<noteq> Msg x" using mp b by auto
  from chan_recv_no_msg [OF mm this]
  have m: "pr_to_main r = []" "to_main = []" "m = Empty" by simp_all
  from c(3) m(3) y mp have "out = []" "main = pr_main r" "cs2 = []" by simp_all
  with c m rcv show ?thesis by (simp add: r')
qed

theorem poll_false_is_idle_witness:
  "preplica_poll demo_ext (demo_at [] 3 demo_main_end []) =
     Inr (False, demo_at [] 3 demo_main_end [], []) \<and>
   pr_to_crypto (demo_at [] 3 demo_main_end []) = []"
proof -
  have p: "preplica_poll demo_ext (demo_at [] 3 demo_main_end []) =
      Inr (False, demo_at [] 3 demo_main_end [], [])"
    by (simp add: preplica_poll_def demo_at_def demo_listen_steps)
  from poll_false_is_idle [OF p] p show ?thesis by simp
qed

lemma crypto_shared_poll_Inl:
  assumes "crypto_shared_poll X c (crypto_of common) = Inl e"
    and "deploy_ok X common" and "pbft_ext_ok X" and "tx_ok X (rc_tx common)"
    and "c \<noteq> Disconnected"
    and "\<forall>m. c = Msg m \<longrightarrow> to_crypto_ok (keys_of common) (rc_common_id common) m"
  shows "e = Index_Out_Of_Bounds \<and>
    (\<exists>m. c = Msg (Verify m) \<and> tc_n (rc_config common) \<le> signer (keys_of common) m)"
proof (cases c)
  case (Msg cm)
  with assms(1) have h: "crypto_handle X (crypto_of common) cm = Inl e"
    by (auto simp: bind_res_eq_Inl)
  have ok: "to_crypto_ok (keys_of common) (rc_common_id common) cm" using assms(6) Msg by simp
  have len: "length (keys_of common) = tc_n (rc_config common)" "keys_of common \<noteq> []"
    using assms(2) by (auto simp: deploy_ok_def)
  have tx: "tx_ok X (py_tx (crypto_of common))" "py_to_main (crypto_of common)"
    using assms(4) by (simp_all add: crypto_of_def)
  show ?thesis
  proof (cases cm)
    case (Verify m)
    with ok have "\<not> is_request m" by simp
    with h Verify len verify_result [OF assms(3), of m "crypto_of common"]
      verify_unknown_signer [of m "crypto_of common" X]
    show ?thesis
      by (cases "signer (keys_of common) m < length (keys_of common)")
         (auto simp: crypto_of_def Msg not_less)
  next
    case (SendReply a r)
    with h crypto_reply_ok [OF assms(3) tx(1), of r a] show ?thesis by auto
  qed (use h crypto_handle_sends_ok [OF assms(3) _ tx, of cm] in auto)
qed (use assms(1,5) in simp_all)

lemma plisten_poll_Inl:
  assumes "plisten_poll X l = Inl e" and "pl_to_main l" and "pl_to_crypto l"
  shows "receive_from (pl_rx l) (pl_buffer l) = Inl e"
  using assms
  by (auto simp: plisten_poll_def bind_res_eq_Inl Let_def split: option.splits prod.splits)

text \<open>
  The messages in the queue of the crypto thread, and in that of the main thread, when it is the
  turn of this thread in a poll of the replica.
\<close>

definition crypto_queue :: "externals \<Rightarrow> preplica \<Rightarrow> to_crypto list \<Rightarrow> bool" where
  "crypto_queue X r q \<longleftrightarrow> (\<exists>b listen ms cs.
     plisten_poll X (pr_listen r) = Inr (b, listen, ms, cs) \<and> q = pr_to_crypto r @ cs)"

definition main_queue :: "externals \<Rightarrow> preplica \<Rightarrow> to_main list \<Rightarrow> bool" where
  "main_queue X r q \<longleftrightarrow> (\<exists>b listen ms cs c rest b' ms' out.
     plisten_poll X (pr_listen r) = Inr (b, listen, ms, cs) \<and>
     chan_recv (pr_to_crypto r @ cs) = (c, rest) \<and>
     crypto_shared_poll X c (pr_crypto r) = Inr (b', ms', out) \<and> q = pr_to_main r @ ms @ ms')"

text \<open>Only the handling of a commit can run into the end of the numbers.\<close>

lemma main_handle_Diverges:
  assumes "main_handle msg s = Inl Diverges" and "pmain_wf s"
    and "(of_nat (tc_n (pm_config s)) :: u8) \<noteq> 0"
  shows "\<exists>m. msg = Verified (Commit m) \<or> msg = Signed (Commit m)"
  using assms is_primary_Inl [of s Diverges]
  by (cases "(msg, s)" rule: main_handle.cases)
     (auto dest: receive_pre_prepare_Inl handle_request_Inl)

text \<open>
  C27. The complete list of the ways a poll of a reachable replica fails, when the operating
  system accepts what it sends: the receiving end fails; the message at the head of the crypto
  thread's queue, when this thread is polled, names a replica number there is no key for; the message
  at the head of the main thread's queue, when this thread is polled, is a request, new to it, and
  this replica is a backup; or that message is a commit and the log has 2 to the 32 entries. In
  particular no \<open>unreachable!\<close> is reached, no signed request is handled, and no other message
  meets a \<open>todo!\<close>.
\<close>
theorem replica_poll_failures:
  assumes "replica_reach X common r" and "deploy_ok X common" and "pbft_ext_ok X"
    and "tx_ok X (rc_tx common)" and "preplica_poll X r = Inl e"
  shows "receive_from (pl_rx (pr_listen r)) (pl_buffer (pr_listen r)) = Inl e \<or>
    (\<exists>m rest. crypto_queue X r (Verify m # rest) \<and>
       tc_n (rc_config common) \<le> signer (keys_of common) m \<and> e = Index_Out_Of_Bounds) \<or>
    (\<exists>m rest. main_queue X r (Verified (Request m) # rest) \<and>
       request_new (pr_main r) m \<and> is_primary (pr_main r) = Inr False \<and> e = Todo) \<or>
    (\<exists>m rest. (main_queue X r (Verified (Commit m) # rest) \<or> main_queue X r (Signed (Commit m) # rest)) \<and>
       2 ^ 32 \<le> length (pm_log (pr_main r)) \<and> e = Diverges)"
proof -
  let ?A = "authentic X (keys_of common)" and ?i = "rc_common_id common"
  have inv: "later (pmain_new common) (pr_main r)" "pmain_wf (pr_main r)"
    "pr_crypto r = crypto_of common" "\<forall>m \<in> set (pr_to_main r). to_main_ok ?A m"
    "\<forall>c \<in> set (pr_to_crypto r). to_crypto_ok (keys_of common) ?i c"
    "pl_to_main (pr_listen r)" "pl_to_crypto (pr_listen r)"
    using replica_inv_reach [OF assms(1-3)] by (simp_all add: replica_inv_def)
  show ?thesis
  proof (cases "plisten_poll X (pr_listen r)")
    case (Inl e')
    with assms(5) have "plisten_poll X (pr_listen r) = Inl e" by (simp add: preplica_poll_def)
    from plisten_poll_Inl [OF this inv(6,7)] show ?thesis by simp
  next
    case (Inr l)
    then obtain b1 listen ms1 cs1 where l: "plisten_poll X (pr_listen r) = Inr (b1, listen, ms1, cs1)"
      by (cases l) auto
    note lp = plisten_poll_Inr [OF l, of ?A "keys_of common" ?i]
    obtain c to_crypto where cc: "chan_recv (pr_to_crypto r @ cs1) = (c, to_crypto)"
      by (cases "chan_recv (pr_to_crypto r @ cs1)")
    have "\<forall>x \<in> set (pr_to_crypto r @ cs1). to_crypto_ok (keys_of common) ?i x"
      using lp inv(5) by auto
    from chan_recv_all [OF cc this] have c1: "\<forall>m. c = Msg m \<longrightarrow> to_crypto_ok (keys_of common) ?i m"
      by blast
    show ?thesis
    proof (cases "crypto_shared_poll X c (crypto_of common)")
      case (Inl e')
      with assms(5) l cc have "crypto_shared_poll X c (crypto_of common) = Inl e"
        by (simp add: preplica_poll_def inv(3))
      moreover have "c \<noteq> Disconnected" using cc chan_recv_set(3) by metis
      ultimately obtain m where "e = Index_Out_Of_Bounds" "c = Msg (Verify m)"
        "tc_n (rc_config common) \<le> signer (keys_of common) m"
        using crypto_shared_poll_Inl [OF _ assms(2,3,4) _ c1] by blast
      moreover have "crypto_queue X r (Verify m # to_crypto)"
        using l chan_recv_set(1) [of _ "Verify m" to_crypto] cc \<open>c = Msg (Verify m)\<close>
        by (auto simp: crypto_queue_def)
      ultimately show ?thesis by blast
    next
      case (Inr io)
      then obtain b2 ms2 out where y: "crypto_shared_poll X c (crypto_of common) = Inr (b2, ms2, out)"
        by (cases io) auto
      have "\<forall>m \<in> set ms2. to_main_ok ?A m" by (rule crypto_shared_poll_Inr [OF y assms(2,3) c1])
      then have tm: "\<forall>m \<in> set (pr_to_main r @ ms1 @ ms2). to_main_ok ?A m"
        using lp inv(4) by auto
      obtain m to_main where mm: "chan_recv (pr_to_main r @ ms1 @ ms2) = (m, to_main)"
        by (cases "chan_recv (pr_to_main r @ ms1 @ ms2)")
      from assms(5) l cc y mm have f: "main_poll m (pr_main r) = Inl e"
        by (auto simp: preplica_poll_def inv(3) bind_res_eq_Inl)
      then obtain msg where msg: "m = Msg msg"
        using mm chan_recv_set(3) by (cases m) auto
      with f have h: "main_handle msg (pr_main r) = Inl e" by (auto simp: bind_res_eq_Inl)
      have "to_main_ok ?A msg" using chan_recv_all [OF mm tm] msg by simp
      then have ns: "msg \<noteq> Signed (Request q)" for q by auto
      have "(of_nat (tc_n (pm_config (pr_main r))) :: u8) \<noteq> 0"
        using assms(2) later_new_id(2) [OF inv(1)]
        by (auto simp: deploy_ok_def unat_of_nat dest!: arg_cong [where f = unat])
      note nz = this
      have q: "main_queue X r (msg # to_main)"
        unfolding main_queue_def inv(3) chan_recv_set(1) [OF mm [unfolded msg], symmetric]
        using l cc y by blast
      from main_handle_Inl [OF h inv(2)] ns nz show ?thesis
        using main_handle_Diverges [OF _ inv(2) nz, of msg] h q by blast
    qed
  qed
qed

theorem replica_poll_failures_witness:
  "\<exists>m rest. crypto_queue demo_ext demo_attacked (Verify m # rest) \<and> 4 \<le> signer (keys_of demo_common) m"
proof -
  have d: "untagged demo_messages (6 # r) = Some (demo_prepare 9)" for r
    by (simp add: untagged_def demo_messages_def)
  have "crypto_shared_poll demo_ext (Msg (Verify (demo_prepare 9))) (crypto_of demo_common) =
      Inl Index_Out_Of_Bounds"
    by (simp add: demo_prepare_def verify_prepare_def crypto_of_def demo_common_def sample_defs index_def)
  then have p: "preplica_poll demo_ext demo_attacked = Inl Index_Out_Of_Bounds"
    by (simp add: preplica_poll_def demo_attacked_def demo_at_def demo_listen_def plisten_poll_def
        demo_ext_simps d demo_prepare_def del: crypto_shared_poll.simps)
  have tx: "tx_ok demo_ext (rc_tx demo_common)" by (simp add: demo_ext_def sample_tx_ok)
  from replica_poll_failures [OF demo_attacked_reach demo_ok tx p]
  show ?thesis
    by (simp add: demo_attacked_def demo_at_def demo_listen_def demo_common_def sample_defs)
qed

section \<open>Messages that stop a replica\<close>

lemma preplica_poll_crypto:
  "preplica_poll X r = Inr (again, r', out) \<Longrightarrow> pr_crypto r' = pr_crypto r"
  by (erule preplica_poll_Inr) auto

text \<open>A message the crypto thread panics on comes to its turn when those before it have been handled.\<close>

lemma queued_panic:
  assumes "pr_to_crypto r = before @ c # behind" and "\<exists>e. crypto_handle X (pr_crypto r) c = Inl e"
  shows "\<exists>e. preplica_polls X (Suc (length before)) r = Inl e"
  using assms
proof (induction before arbitrary: r behind)
  case Nil
  then have "preplica_poll X r \<noteq> Inr (again, r', out)" for again r' out
    by (auto elim!: preplica_poll_Inr)
  then show ?case by (cases "preplica_poll X r") auto
next
  case (Cons d before)
  show ?case
  proof (cases "preplica_poll X r")
    case (Inr x)
    obtain again r' out where p: "preplica_poll X r = Inr (again, r', out)" using Inr by (cases x) auto
    then have "\<exists>behind'. pr_to_crypto r' = before @ c # behind'"
      by (rule preplica_poll_Inr) (use Cons.prems(1) in auto)
    with Cons.IH Cons.prems(2) preplica_poll_crypto [OF p]
    have "\<exists>e. preplica_polls X (Suc (length before)) r' = Inl e" by auto
    with p show ?thesis by auto
  qed simp
qed

text \<open>
  C36. One datagram from anyone stops a replica that is polled, on UDP as on the simulated network:
  when the next datagram to be received is a prepare that names a replica number without a key, then,
  whatever its signature is and whatever arrives after it, the replica panics not later than in the
  poll in which its crypto thread has handled the messages that were queued before; with none
  queued, this very poll panics with an index out of bounds.
\<close>
theorem forged_replica_id_stops_replica:
  assumes "replica_reach X common r" and "deploy_ok X common" and "pbft_ext_ok X"
    and "arrives_next (pl_rx (pr_listen r)) payload"
    and "length payload \<le> 65000" and "bc_ser_to_replica X (Prepare m) = Some payload"
    and "tc_n (rc_config common) \<le> unat (pr_replica_id (sg_inner m))"
  shows "(\<exists>e. preplica_polls X (Suc (length (pr_to_crypto r))) r = Inl e) \<and>
    (pr_to_crypto r = [] \<longrightarrow> preplica_poll X r = Inl Index_Out_Of_Bounds)"
proof -
  have inv: "pr_crypto r = crypto_of common" "length (pl_buffer (pr_listen r)) = 65000"
    "pl_to_crypto (pr_listen r)"
    using replica_inv_reach [OF assms(1-3)] by (simp_all add: replica_inv_def)
  have "bc_de_to_replica X payload = Some (Prepare m)"
    using assms(3,6) by (auto simp: pbft_ext_ok_def elim!: codec_okD [of _ _ "Prepare m"])
  then obtain listen where l: "plisten_poll X (pr_listen r) = Inr (True, listen, [], [Verify (Prepare m)])"
    using receive_arrives_next [OF assms(4), of "pl_buffer (pr_listen r)"] assms(5) inv(2,3)
    by (auto simp: plisten_poll_def)
  have "length (keys_of common) \<le> unat (pr_replica_id (sg_inner m))" "keys_of common \<noteq> []"
    using assms(2,7) by (auto simp: deploy_ok_def)
  then have v: "crypto_handle X (crypto_of common) (Verify (Prepare m)) = Inl Index_Out_Of_Bounds"
    using verify_unknown_signer [of "Prepare m" "crypto_of common" X]
    by (simp add: crypto_of_def)
  show ?thesis
  proof (cases "pr_to_crypto r")
    case Nil
    with l v show ?thesis by (auto simp: preplica_poll_def inv(1))
  next
    case (Cons c cs)
    have "\<exists>e. preplica_polls X (Suc (Suc (length cs))) r = Inl e"
    proof (cases "preplica_poll X r")
      case (Inr x)
      obtain again r' out where p: "preplica_poll X r = Inr (again, r', out)" using Inr by (cases x) auto
      then have "\<exists>behind. pr_to_crypto r' = cs @ Verify (Prepare m) # behind"
        by (rule preplica_poll_Inr) (use l Cons in auto)
      with queued_panic [of r' cs "Verify (Prepare m)" _ X] v preplica_poll_crypto [OF p] inv(1) p
      show ?thesis by auto
    qed simp
    with Cons show ?thesis by simp
  qed
qed

text \<open>A replica on a UDP socket, in which the message that names no replica has arrived.\<close>

definition demo_udp_common :: replica_common where
  "demo_udp_common = demo_common\<lparr>rc_tx := Tx_Udp, rc_rx := Rx_Udp (then_silent [Udp_Packet [6] (sample_addr 1)])\<rparr>"

theorem forged_replica_id_stops_replica_witness:
  "\<exists>r. preplica_new demo_udp_common = Inr r \<and> preplica_poll demo_ext r = Inl Index_Out_Of_Bounds"
proof -
  have ok: "deploy_ok demo_ext demo_udp_common"
    using demo_ok(1) by (simp add: deploy_ok_def demo_udp_common_def)
  obtain r where r: "preplica_new demo_udp_common = Inr r" "pr_to_crypto r = []"
    "pl_rx (pr_listen r) = Rx_Udp (then_silent [Udp_Packet [6] (sample_addr 1)])"
    by (simp add: preplica_new_def demo_udp_common_def demo_common_def sample_defs index_def)
  have "bc_ser_to_replica demo_ext (Prepare \<lparr>sg_inner = sg_inner (sample_prepare 1 demo_digest 9),
      sg_signature = demo_vote 9\<rparr>) = Some [6]"
    using demo_encode(3) by (simp add: demo_ext_simps demo_prepare_def demo_vote_def)
  from forged_replica_id_stops_replica [OF reach_new [OF r(1)] ok demo_ok(2) _ _ this] r
  have "preplica_poll demo_ext r = Inl Index_Out_Of_Bounds"
    by (simp add: demo_udp_common_def demo_common_def sample_defs)
  with r(1) show ?thesis by blast
qed

end
