(* ===== verification/Pbft_System.thy ===== *)
theory Pbft_System
  imports Pbft_Replica_Correct "HOL-Library.Multiset"
begin

text \<open>
  Several replicas with their threads running concurrently, among faulty replicas that may send
  anything they can sign.  A step is the handling of one message by one thread.  The crypto
  threads of a replica are a pool, so messages overtake each other between the threads, and the
  channels are multisets.  The network delivers any message at any time, as often as it likes;
  only a signature of a correct replica cannot be made by anybody else.
\<close>

section \<open>The system\<close>

text \<open>
  A replica: its main thread, the messages on the way to the main and to the crypto thread, and
  all messages the main thread has sent so far.
\<close>

record node =
  nd_main :: pmain
  nd_to_main :: "to_main multiset"
  nd_to_crypto :: "to_crypto multiset"
  nd_sent :: "to_crypto list"

text \<open>\<open>sy_signed s i\<close> are the hashes replica \<open>i\<close> has signed.\<close>

record system =
  sy_node :: "nat \<Rightarrow> node"
  sy_signed :: "nat \<Rightarrow> digest set"

definition node_new :: "replica_common \<Rightarrow> node" where
  "node_new common =
     \<lparr>nd_main = pmain_new common, nd_to_main = {#}, nd_to_crypto = {#}, nd_sent = []\<rparr>"

definition system_new :: "(nat \<Rightarrow> replica_common) \<Rightarrow> system" where
  "system_new common = \<lparr>sy_node = (\<lambda>i. node_new (common i)), sy_signed = (\<lambda>i. {})\<rparr>"

text \<open>
  A message with a valid signature of a correct replica carries a hash this replica has signed.
\<close>

definition signed_before :: "externals \<Rightarrow> public_key list \<Rightarrow> nat set \<Rightarrow> system \<Rightarrow> to_replica \<Rightarrow> bool" where
  "signed_before X keys H s m \<longleftrightarrow>
     (signer keys m \<in> H \<longrightarrow>
        (\<exists>b. signed_bytes X m = Some b \<and> sc_hash X b \<in> sy_signed s (signer keys m)))"

definition unforged :: "externals \<Rightarrow> public_key list \<Rightarrow> nat set \<Rightarrow> system \<Rightarrow> to_replica \<Rightarrow> bool" where
  "unforged X keys H s m \<longleftrightarrow> (authentic X keys m \<longrightarrow> signed_before X keys H s m)"

definition signed_hashes :: "externals \<Rightarrow> to_main list \<Rightarrow> digest set" where
  "signed_hashes X ms = {sc_hash X b |m b. Signed m \<in> set ms \<and> signed_bytes X m = Some b}"

text \<open>The three steps of a replica.\<close>

definition listen_step :: "to_replica \<Rightarrow> node \<Rightarrow> node" where
  "listen_step m nd =
     nd\<lparr>nd_to_main := nd_to_main nd + mset (fst (listen_dispatch (Some m))),
        nd_to_crypto := nd_to_crypto nd + mset (snd (listen_dispatch (Some m)))\<rparr>"

definition crypto_step :: "to_crypto \<Rightarrow> to_main list \<Rightarrow> node \<Rightarrow> node" where
  "crypto_step c ms nd =
     nd\<lparr>nd_to_crypto := nd_to_crypto nd - {#c#}, nd_to_main := nd_to_main nd + mset ms\<rparr>"

definition main_step :: "to_main \<Rightarrow> main_io \<Rightarrow> node \<Rightarrow> node" where
  "main_step m io nd =
     nd\<lparr>nd_main := fst io, nd_to_main := nd_to_main nd - {#m#},
        nd_to_crypto := nd_to_crypto nd + mset (snd io), nd_sent := nd_sent nd @ snd io\<rparr>"

abbreviation set_node :: "system \<Rightarrow> nat \<Rightarrow> node \<Rightarrow> system" where
  "set_node s i nd \<equiv> s\<lparr>sy_node := (sy_node s)(i := nd)\<rparr>"

text \<open>\<open>H\<close> are the correct replicas; all have the configuration \<open>cfg\<close>.\<close>

inductive sys_reach ::
  "externals \<Rightarrow> transport_config \<Rightarrow> (nat \<Rightarrow> replica_common) \<Rightarrow> nat set \<Rightarrow> system \<Rightarrow> bool"
  for X cfg common H where
  sys_init: "sys_reach X cfg common H (system_new common)"
| sys_listen: "sys_reach X cfg common H s \<Longrightarrow> i \<in> H \<Longrightarrow>
     unforged X (tc_public_keys cfg) H s m \<Longrightarrow>
     sys_reach X cfg common H (set_node s i (listen_step m (sy_node s i)))"
| sys_crypto: "sys_reach X cfg common H s \<Longrightarrow> i \<in> H \<Longrightarrow> c \<in># nd_to_crypto (sy_node s i) \<Longrightarrow>
     crypto_handle X (crypto_of (common i)) c = Inr (ms, out) \<Longrightarrow>
     sys_reach X cfg common H
       ((set_node s i (crypto_step c ms (sy_node s i)))
          \<lparr>sy_signed := (sy_signed s)(i := sy_signed s i \<union> signed_hashes X ms)\<rparr>)"
| sys_main: "sys_reach X cfg common H s \<Longrightarrow> i \<in> H \<Longrightarrow> m \<in># nd_to_main (sy_node s i) \<Longrightarrow>
     main_handle m (nd_main (sy_node s i)) = Inr io \<Longrightarrow>
     sys_reach X cfg common H (set_node s i (main_step m io (sy_node s i)))"

section \<open>Assumptions\<close>

text \<open>A deployment: the correct replicas are configured alike and among the first \<open>n\<close>.\<close>

definition system_ok ::
  "externals \<Rightarrow> transport_config \<Rightarrow> (nat \<Rightarrow> replica_common) \<Rightarrow> nat set \<Rightarrow> bool" where
  "system_ok X cfg common H \<longleftrightarrow> H \<subseteq> {..<tc_n cfg} \<and>
     (\<forall>i \<in> H. rc_common_id (common i) = i \<and> rc_config (common i) = cfg \<and>
        rc_app (common i) = Null \<and> deploy_ok X (common i))"

text \<open>
  What a signature or a digest says is determined by its hash: the hash has no collisions on the
  encodings in use.  A prepare and a commit with the same fields may have the same hash.
\<close>

fun statement :: "to_replica \<Rightarrow> (u8 \<times> u32 \<times> digest \<times> u8 option) option" where
  "statement (Request m) = None"
| "statement (PrePrepare m rqs) =
     Some (pp_view_number (sg_inner m), pp_op_number (sg_inner m), pp_request_digest (sg_inner m), None)"
| "statement (Prepare m) =
     Some (pr_view_number (sg_inner m), pr_op_number (sg_inner m), pr_request_digest (sg_inner m),
           Some (pr_replica_id (sg_inner m)))"
| "statement (Commit m) =
     Some (ct_view_number (sg_inner m), ct_op_number (sg_inner m), ct_request_digest (sg_inner m),
           Some (ct_replica_id (sg_inner m)))"

definition hash_binds :: "externals \<Rightarrow> bool" where
  "hash_binds X \<longleftrightarrow>
     (\<forall>m m' b b'. signed_bytes X m = Some b \<longrightarrow> signed_bytes X m' = Some b' \<longrightarrow>
        sc_hash X b = sc_hash X b' \<longrightarrow> statement m = statement m') \<and>
     (\<forall>rqs rqs' b b'. bc_ser_requests X rqs = Some b \<longrightarrow> bc_ser_requests X rqs' = Some b' \<longrightarrow>
        sc_hash X b = sc_hash X b' \<longrightarrow> rqs = rqs')"

lemma hash_binds_statement:
  "hash_binds X \<Longrightarrow> signed_bytes X m = Some b \<Longrightarrow> signed_bytes X m' = Some b' \<Longrightarrow>
     sc_hash X b = sc_hash X b' \<Longrightarrow> statement m = statement m'"
  unfolding hash_binds_def by blast

lemma hash_binds_requests:
  assumes "hash_binds X" and "map_option (sc_hash X) (bc_ser_requests X rqs) = Some d"
    and "map_option (sc_hash X) (bc_ser_requests X rqs') = Some d"
  shows "rqs = rqs'"
proof -
  from assms(2,3) obtain b b' where "bc_ser_requests X rqs = Some b" "bc_ser_requests X rqs' = Some b'"
    "sc_hash X b = sc_hash X b'" by auto
  with assms(1) show ?thesis unfolding hash_binds_def by blast
qed

section \<open>The invariant\<close>

text \<open>What a message held by a correct replica satisfies.\<close>

definition vouched :: "externals \<Rightarrow> public_key list \<Rightarrow> nat set \<Rightarrow> system \<Rightarrow> to_replica \<Rightarrow> bool" where
  "vouched X keys H s m \<longleftrightarrow> authentic X keys m \<and> signed_before X keys H s m"

definition sent_or_unforged ::
  "(to_replica \<Rightarrow> bool) \<Rightarrow> to_crypto list \<Rightarrow> to_crypto \<Rightarrow> bool" where
  "sent_or_unforged U sent c \<longleftrightarrow>
     (case c of Verify m \<Rightarrow> \<not> is_request m \<and> U m | _ \<Rightarrow> c \<in> set sent)"

text \<open>Every hash a correct replica signed is that of a message its main thread asked to sign.\<close>

definition signed_for :: "externals \<Rightarrow> secret_key \<Rightarrow> to_crypto list \<Rightarrow> digest \<Rightarrow> bool" where
  "signed_for X sk sent h \<longleftrightarrow>
     (\<exists>c \<in> set sent. \<exists>m b. signed_as X sk c m \<and> signed_bytes X m = Some b \<and> h = sc_hash X b)"

lemma signed_for_mono: "signed_for X sk sent h \<Longrightarrow> set sent \<subseteq> set sent' \<Longrightarrow> signed_for X sk sent' h"
  unfolding signed_for_def by blast

definition node_inv ::
  "externals \<Rightarrow> replica_common \<Rightarrow> (to_replica \<Rightarrow> bool) \<Rightarrow> (to_replica \<Rightarrow> bool) \<Rightarrow> digest set \<Rightarrow> node \<Rightarrow> bool"
  where
  "node_inv X common A U hs nd \<longleftrightarrow>
     (\<exists>msgs. main_run msgs (pmain_new common) = Inr (nd_main nd, nd_sent nd)) \<and>
     certified A (nd_main nd) \<and>
     (\<forall>m \<in># nd_to_main nd. to_main_ok A m) \<and>
     (\<forall>c \<in># nd_to_crypto nd. sent_or_unforged U (nd_sent nd) c) \<and>
     (\<forall>h \<in> hs. signed_for X (py_secret_key (crypto_of common)) (nd_sent nd) h)"

definition sys_inv ::
  "externals \<Rightarrow> transport_config \<Rightarrow> (nat \<Rightarrow> replica_common) \<Rightarrow> nat set \<Rightarrow> system \<Rightarrow> bool" where
  "sys_inv X cfg common H s \<longleftrightarrow>
     (\<forall>i \<in> H. node_inv X (common i) (vouched X (tc_public_keys cfg) H s)
        (unforged X (tc_public_keys cfg) H s) (sy_signed s i) (sy_node s i))"

lemma certified_mono:
  "certified A s \<Longrightarrow> (\<And>m. A m \<Longrightarrow> B m) \<Longrightarrow> certified B s"
  unfolding certified_def quorums_all_def proposal_ok_def by blast

lemma to_main_ok_mono: "to_main_ok A m \<Longrightarrow> (\<And>m. A m \<Longrightarrow> B m) \<Longrightarrow> to_main_ok B m"
  by (cases m) auto

lemma sent_or_unforged_mono:
  "sent_or_unforged U sent c \<Longrightarrow> (\<And>m. U m \<Longrightarrow> U' m) \<Longrightarrow> set sent \<subseteq> set sent' \<Longrightarrow>
     sent_or_unforged U' sent' c"
  by (cases c) (auto simp: sent_or_unforged_def)

lemma node_inv_mono:
  assumes "node_inv X common A U hs nd" and "\<And>m. A m \<Longrightarrow> B m" and "\<And>m. U m \<Longrightarrow> V m"
  shows "node_inv X common B V hs nd"
  using assms certified_mono [of A _ B] to_main_ok_mono [of A _ B]
    sent_or_unforged_mono [of U _ _ V "nd_sent nd"]
  unfolding node_inv_def by blast

text \<open>A larger set of signed hashes supports every message it supported before.\<close>

lemma signed_before_mono:
  "signed_before X keys H s m \<Longrightarrow> (\<And>i. sy_signed s i \<subseteq> sy_signed s' i) \<Longrightarrow>
     signed_before X keys H s' m"
  unfolding signed_before_def by blast

lemma vouched_mono:
  "vouched X keys H s m \<Longrightarrow> (\<And>i. sy_signed s i \<subseteq> sy_signed s' i) \<Longrightarrow> vouched X keys H s' m"
  unfolding vouched_def using signed_before_mono by blast

lemma unforged_mono:
  "unforged X keys H s m \<Longrightarrow> (\<And>i. sy_signed s i \<subseteq> sy_signed s' i) \<Longrightarrow> unforged X keys H s' m"
  unfolding unforged_def using signed_before_mono by blast

lemma vouched_signed:
  "sy_signed s' = sy_signed s \<Longrightarrow> vouched X keys H s' = vouched X keys H s"
  "sy_signed s' = sy_signed s \<Longrightarrow> unforged X keys H s' = unforged X keys H s"
  by (auto simp: vouched_def unforged_def signed_before_def fun_eq_iff)

subsection \<open>Each step keeps it\<close>

lemma send_ok_later: "send_ok s c \<Longrightarrow> later s s' \<Longrightarrow> send_ok s' c"
proof (cases c)
  case (SendPrepare p)
  assume "send_ok s c" "later s s'"
  with SendPrepare later_only_prepares [of s s' "[c]"] show ?thesis
    by (auto simp: only_prepares_def)
qed (auto simp: later_is_primary later_is_prepared, auto simp: later_def)

lemma main_run_sends:
  "main_run msgs s = Inr (s', out) \<Longrightarrow> c \<in> set out \<Longrightarrow> send_ok s' c"
proof (induction msgs arbitrary: s out)
  case (Cons msg msgs)
  from Cons.prems(1) obtain s1 out1 out2 where h: "main_handle msg s = Inr (s1, out1)"
    and r: "main_run msgs s1 = Inr (s', out2)" and o: "out = out1 @ out2"
    unfolding main_run_Cons_Inr by blast
  show ?case
  proof (cases "c \<in> set out1")
    case True
    with main_handle_sends [OF h] main_run_later [OF r] show ?thesis
      by (blast intro: send_ok_later)
  qed (use Cons.IH [OF r] Cons.prems(2) o in auto)
qed simp

lemma node_inv_send_ok:
  assumes "node_inv X common A U hs nd" and "c \<in> set (nd_sent nd)"
  shows "send_ok (nd_main nd) c"
  using assms main_run_sends unfolding node_inv_def by blast

lemma node_inv_later: "node_inv X common A U hs nd \<Longrightarrow> later (pmain_new common) (nd_main nd)"
  unfolding node_inv_def by (blast dest: main_run_later)

lemma listen_step_inv:
  assumes "node_inv X common A U hs nd" and "U m"
  shows "node_inv X common A U hs (listen_step m nd)"
  using assms unfolding node_inv_def listen_step_def
  by (cases m) (auto simp: sent_or_unforged_def)

lemma main_step_inv:
  assumes "node_inv X common A U hs nd" and "m \<in># nd_to_main nd"
    and "main_handle m (nd_main nd) = Inr io"
  shows "node_inv X common A U hs (main_step m io nd)"
proof -
  obtain main out where io: "io = (main, out)" by (cases io)
  from assms(1) obtain msgs where run: "main_run msgs (pmain_new common) = Inr (nd_main nd, nd_sent nd)"
    unfolding node_inv_def by blast
  have "main_run (msgs @ [m]) (pmain_new common) = Inr (main, nd_sent nd @ out)"
    using run assms(3) by (simp add: main_run_append io)
  moreover have "certified A main"
    using assms main_handle_certified [of m "nd_main nd" main out A]
    unfolding node_inv_def io by blast
  moreover have "sent_or_unforged U (nd_sent nd @ out) c" if "c \<in> set out" for c
  proof (cases c)
    case (Verify q)
    with main_handle_sends [OF assms(3) [unfolded io]] that show ?thesis by force
  qed (use that in \<open>auto simp: sent_or_unforged_def\<close>)
  moreover have "sent_or_unforged U (nd_sent nd @ out) c" if "c \<in># nd_to_crypto nd" for c
    using assms(1) that sent_or_unforged_mono [of U "nd_sent nd" c U "nd_sent nd @ out"]
    unfolding node_inv_def by auto
  moreover have "\<forall>h \<in> hs. signed_for X (py_secret_key (crypto_of common)) (nd_sent nd @ out) h"
    using assms(1) signed_for_mono [of X _ "nd_sent nd" _ "nd_sent nd @ out"]
    unfolding node_inv_def by auto
  ultimately show ?thesis
    using assms(1) unfolding node_inv_def main_step_def io
    by (auto dest: in_diffD)
qed

lemma crypto_step_inv:
  assumes inv: "node_inv X common A U hs nd" and c: "c \<in># nd_to_crypto nd"
    and h: "crypto_handle X (crypto_of common) c = Inr (ms, out)"
    and "\<And>m. ms = [Verified m] \<Longrightarrow> authentic X (keys_of common) m \<Longrightarrow> U m \<Longrightarrow> A m"
    and "\<And>m. ms = [Signed m] \<Longrightarrow> signed_as X (py_secret_key (crypto_of common)) c m \<Longrightarrow>
      c \<in> set (nd_sent nd) \<Longrightarrow> A m"
  shows "node_inv X common A U (hs \<union> signed_hashes X ms) (crypto_step c ms nd)"
proof -
  let ?sk = "py_secret_key (crypto_of common)"
  have cs: "sent_or_unforged U (nd_sent nd) c" using inv c unfolding node_inv_def by blast
  have ms: "(\<forall>m \<in> set ms. to_main_ok A m) \<and> (\<forall>k \<in> signed_hashes X ms. signed_for X ?sk (nd_sent nd) k)"
  proof (cases "is_send_signed c")
    case True
    then have sent: "c \<in> set (nd_sent nd)" using cs by (cases c) (auto simp: sent_or_unforged_def)
    from crypto_handle_signs [OF h True] obtain m where m: "ms = [Signed m]" "signed_as X ?sk c m" by blast
    with assms(5) sent signed_as_not_request [OF m(2)] show ?thesis
      unfolding signed_hashes_def signed_for_def by auto
  next
    case False
    show ?thesis
    proof (cases c)
      case (Verify m)
      with cs have "\<not> is_request m" "U m" by (auto simp: sent_or_unforged_def)
      with verify_Inr [of X "crypto_of common" m ms out] h Verify assms(4) show ?thesis
        by (auto simp: crypto_of_def signed_hashes_def)
    qed (use False h in \<open>auto simp: send_reply_def signed_hashes_def\<close>)
  qed
  with inv show ?thesis unfolding node_inv_def crypto_step_def by (auto dest: in_diffD)
qed

lemma system_okD:
  assumes "system_ok X cfg common H" and "i \<in> H"
  shows "rc_common_id (common i) = i" "rc_config (common i) = cfg" "rc_app (common i) = Null"
    "deploy_ok X (common i)" "i < tc_n cfg"
  using assms by (auto simp: system_ok_def)

lemma send_ok_claims:
  assumes "send_ok s c" and "later (pmain_new common) s" and "deploy_ok X common" and "is_send_signed c"
  shows "claimed_signer (keys_of common) c = rc_common_id common"
  using send_ok_to_crypto [OF assms(1-3)] assms(4) by (cases c) auto

text \<open>What a correct replica signs is vouched for once it is signed.\<close>

lemma signed_vouched:
  assumes "system_ok X cfg common H" and "pbft_ext_ok X" and "i \<in> H"
    and "node_inv X (common i) A U hs nd" and "c \<in> set (nd_sent nd)"
    and "signed_as X (py_secret_key (crypto_of (common i))) c m"
    and "signed_bytes X m = Some b" and "sc_hash X b \<in> sy_signed s i"
  shows "vouched X (tc_public_keys cfg) H s m"
proof -
  note ok = system_okD [OF assms(1,3)]
  have c: "is_send_signed c" using assms(6) by (cases c) (auto simp: signed_as_def)
  have cl: "claimed_signer (tc_public_keys cfg) c = i"
    using send_ok_claims [OF node_inv_send_ok [OF assms(4,5)] node_inv_later [OF assms(4)] ok(4) c] ok
    by simp
  have "authentic X (tc_public_keys cfg) m"
    by (rule signed_as_authentic [OF assms(2,6)])
       (use ok cl in \<open>auto simp: deploy_ok_def crypto_of_def\<close>)
  moreover have "signer (tc_public_keys cfg) m = i"
    using signed_as_signer [OF assms(6)] cl by simp
  ultimately show ?thesis
    using assms(7,8) by (auto simp: vouched_def signed_before_def)
qed

lemma sys_inv_new: "sys_inv X cfg common H (system_new common)"
proof -
  have "main_run [] (pmain_new (common i)) = Inr (pmain_new (common i), [])" for i by simp
  then show ?thesis
    unfolding sys_inv_def node_inv_def system_new_def node_new_def
    by (auto simp: certified_new simp del: main_run.simps)
qed

text \<open>A step of one node that leaves the signed hashes alone.\<close>

lemma sys_inv_node:
  assumes "sys_inv X cfg common H s"
    and "node_inv X (common i) (vouched X (tc_public_keys cfg) H s)
      (unforged X (tc_public_keys cfg) H s) (sy_signed s i) nd"
  shows "sys_inv X cfg common H (set_node s i nd)"
proof -
  have "vouched X keys H (set_node s i nd) = vouched X keys H s"
    "unforged X keys H (set_node s i nd) = unforged X keys H s" for keys
    by (rule vouched_signed; simp)+
  with assms show ?thesis unfolding sys_inv_def by simp
qed

lemma sys_inv_crypto:
  assumes inv: "sys_inv X cfg common H s" and i: "i \<in> H" and c: "c \<in># nd_to_crypto (sy_node s i)"
    and h: "crypto_handle X (crypto_of (common i)) c = Inr (ms, out)"
    and ok: "system_ok X cfg common H" "pbft_ext_ok X"
  shows "sys_inv X cfg common H
    ((set_node s i (crypto_step c ms (sy_node s i)))
       \<lparr>sy_signed := (sy_signed s)(i := sy_signed s i \<union> signed_hashes X ms)\<rparr>)"
    (is "sys_inv X cfg common H ?s'")
proof -
  let ?A = "\<lambda>s. vouched X (tc_public_keys cfg) H s" and ?U = "\<lambda>s. unforged X (tc_public_keys cfg) H s"
  have mono: "sy_signed s j \<subseteq> sy_signed ?s' j" for j by simp
  have old: "node_inv X (common j) (?A ?s') (?U ?s') (sy_signed s j) (sy_node s j)" if "j \<in> H" for j
    using inv that vouched_mono [OF _ mono] unforged_mono [OF _ mono]
    unfolding sys_inv_def by (blast intro: node_inv_mono)
  have "node_inv X (common i) (?A ?s') (?U ?s') (sy_signed s i \<union> signed_hashes X ms)
      (crypto_step c ms (sy_node s i))"
  proof (rule crypto_step_inv [OF old [OF i] c h])
    fix m
    assume "authentic X (keys_of (common i)) m" "?U ?s' m"
    then show "?A ?s' m"
      using system_okD(2) [OF ok(1) i] by (simp add: vouched_def unforged_def)
  next
    fix m
    assume m: "ms = [Signed m]" "signed_as X (py_secret_key (crypto_of (common i))) c m"
      "c \<in> set (nd_sent (sy_node s i))"
    then obtain b where "signed_bytes X m = Some b" by (auto simp: signed_as_def)
    moreover from this m have "sc_hash X b \<in> sy_signed ?s' i" by (auto simp: signed_hashes_def)
    ultimately show "?A ?s' m" by (rule signed_vouched [OF ok i old [OF i] m(3,2)])
  qed
  with old show ?thesis unfolding sys_inv_def by simp
qed

lemma sys_reach_inv:
  assumes "sys_reach X cfg common H s" and "system_ok X cfg common H" and "pbft_ext_ok X"
  shows "sys_inv X cfg common H s"
  using assms(1)
proof induction
  case sys_init
  show ?case by (rule sys_inv_new)
next
  case (sys_listen s i m)
  then have "node_inv X (common i) (vouched X (tc_public_keys cfg) H s)
      (unforged X (tc_public_keys cfg) H s) (sy_signed s i) (sy_node s i)"
    unfolding sys_inv_def by blast
  from sys_inv_node [OF sys_listen.IH listen_step_inv [OF this]] sys_listen.hyps(3) show ?case .
next
  case (sys_crypto s i c ms out)
  show ?case by (rule sys_inv_crypto [OF sys_crypto.IH sys_crypto.hyps(2-4) assms(2,3)])
next
  case (sys_main s i m io)
  then have "node_inv X (common i) (vouched X (tc_public_keys cfg) H s)
      (unforged X (tc_public_keys cfg) H s) (sy_signed s i) (sy_node s i)"
    unfolding sys_inv_def by blast
  from sys_inv_node [OF sys_main.IH main_step_inv [OF this sys_main.hyps(3,4)]] show ?case .
qed

end
