(* ===== verification/Pbft_Agreement.thy ===== *)
theory Pbft_Agreement
  imports Pbft_System
begin

text \<open>
  Agreement: what correct replicas execute is the same, when the primary is correct or when the
  faulty replicas are few enough for two sets of prepares to share a correct replica.
\<close>

section \<open>Where signatures come from\<close>

text \<open>The runs are short enough for the 32-bit counters not to wrap.\<close>

definition sys_small :: "nat set \<Rightarrow> system \<Rightarrow> bool" where
  "sys_small H s \<longleftrightarrow> (\<forall>i \<in> H. length (nd_sent (sy_node s i)) < 2 ^ 32 - 1 \<and>
     length (pm_log (nd_main (sy_node s i))) < 2 ^ 32 - 1)"

lemma sys_inv_node_inv:
  "sys_inv X cfg common H s \<Longrightarrow> i \<in> H \<Longrightarrow>
     node_inv X (common i) (vouched X (tc_public_keys cfg) H s)
       (unforged X (tc_public_keys cfg) H s) (sy_signed s i) (sy_node s i)"
  unfolding sys_inv_def by blast

lemma node_inv_run:
  "node_inv X common A U hs nd \<Longrightarrow>
     \<exists>msgs. main_run msgs (pmain_new common) = Inr (nd_main nd, nd_sent nd)"
  unfolding node_inv_def by blast

lemma node_inv_wf: "node_inv X common A U hs nd \<Longrightarrow> pmain_wf (nd_main nd)"
  using main_run_wf [OF _ pmain_new_wf] node_inv_run by blast

lemma node_inv_certified: "node_inv X common A U hs nd \<Longrightarrow> certified A (nd_main nd)"
  unfolding node_inv_def by blast

text \<open>A vouched message of a correct replica says what this replica asked to sign.\<close>

lemma vouched_origin:
  assumes "sys_inv X cfg common H s" and "hash_binds X"
    and "vouched X (tc_public_keys cfg) H s m" and "signer (tc_public_keys cfg) m \<in> H"
  shows "\<exists>c m'. c \<in> set (nd_sent (sy_node s (signer (tc_public_keys cfg) m))) \<and>
    signed_as X (py_secret_key (crypto_of (common (signer (tc_public_keys cfg) m)))) c m' \<and>
    statement m' = statement m"
proof -
  let ?j = "signer (tc_public_keys cfg) m"
  from assms(3,4) obtain b where b: "signed_bytes X m = Some b" "sc_hash X b \<in> sy_signed s ?j"
    by (auto simp: vouched_def signed_before_def)
  with sys_inv_node_inv [OF assms(1,4)]
  have "signed_for X (py_secret_key (crypto_of (common ?j))) (nd_sent (sy_node s ?j)) (sc_hash X b)"
    unfolding node_inv_def by blast
  then obtain c m' b' where c: "c \<in> set (nd_sent (sy_node s ?j))"
    "signed_as X (py_secret_key (crypto_of (common ?j))) c m'"
    "signed_bytes X m' = Some b'" "sc_hash X b = sc_hash X b'"
    unfolding signed_for_def by blast
  with hash_binds_statement [OF assms(2) c(3) b(1)] show ?thesis by auto
qed

section \<open>A correct primary\<close>

text \<open>Its proposals are numbered from 1, so each number has one batch.\<close>

lemma proposals_numbered:
  assumes "node_inv X common A U hs nd"
  shows "map fst (proposals (nd_sent nd)) = map entry_number [0..<length (proposals (nd_sent nd))]"
proof -
  obtain msgs where "main_run msgs (pmain_new common) = Inr (nd_main nd, nd_sent nd)"
    using node_inv_run [OF assms] by blast
  from main_run_batches(2) [OF this] show ?thesis by (simp add: pmain_new_def entry_number_def)
qed

lemma proposals_length: "length (proposals out) \<le> length out"
proof (induction out)
  case (Cons c out)
  then show ?case by (cases c) auto
qed simp

lemma proposal_at:
  assumes "node_inv X common A U hs nd" and "length (nd_sent nd) < 2 ^ 32 - 1"
    and "(entry_number k, rqs) \<in> set (proposals (nd_sent nd))" and "k < 2 ^ 32 - 1"
  shows "k < length (proposals (nd_sent nd)) \<and> rqs = snd (proposals (nd_sent nd) ! k)"
proof -
  let ?ps = "proposals (nd_sent nd)"
  from assms(3) obtain i where i: "i < length ?ps" "?ps ! i = (entry_number k, rqs)"
    by (auto simp: in_set_conv_nth)
  have "map fst ?ps ! i = entry_number i"
    unfolding proposals_numbered [OF assms(1)] using i(1) by simp
  with i have "entry_number i = entry_number k" by simp
  with entry_number_inj [of i k] i(1) assms(2,4) proposals_length [of "nd_sent nd"]
  have "i = k" by simp
  with i show ?thesis by simp
qed

lemma in_proposals: "c \<in> set out \<Longrightarrow> x \<in> set (proposal c) \<Longrightarrow> x \<in> set (proposals out)"
  by (auto simp: proposals_def)

lemma signed_proposal:
  assumes "signed_as X sk c m'" and "statement m' = statement (PrePrepare m rqs)"
    and "hash_binds X" and "digest_ok X (PrePrepare m rqs)"
  shows "proposal c = [(pp_op_number (sg_inner m), rqs)]"
proof -
  from assms(2) obtain q rqs' where q: "m' = PrePrepare q rqs'"
    "pp_op_number (sg_inner q) = pp_op_number (sg_inner m)"
    "pp_request_digest (sg_inner q) = pp_request_digest (sg_inner m)" by (cases m') auto
  with assms(1) obtain p where p: "c = SendPrePrepare p rqs'"
    "p\<lparr>pp_request_digest := pp_request_digest (sg_inner q)\<rparr> = sg_inner q"
    by (cases c) (auto simp: signed_as_def)
  have "digest_ok X m'" using assms(1) by (simp add: signed_as_def)
  with assms(3,4) q have "rqs' = rqs" by (auto intro: hash_binds_requests)
  with p q(2) show ?thesis by (auto dest!: arg_cong [where f = pp_op_number])
qed

lemma log_from_primary:
  assumes "sys_inv X cfg common H s" and "system_ok X cfg common H" and "hash_binds X"
    and "sys_small H s" and "0 \<in> H" and "i \<in> H" and "k < length (pm_log (nd_main (sy_node s i)))"
  shows "le_requests (pm_log (nd_main (sy_node s i)) ! k) =
    snd (proposals (nd_sent (sy_node s 0)) ! k)"
proof -
  let ?s = "nd_main (sy_node s i)" and ?keys = "tc_public_keys cfg"
  let ?e = "pm_log ?s ! k"
  let ?m = "PrePrepare (le_pre_prepare ?e) (le_requests ?e)"
  note ni = sys_inv_node_inv [OF assms(1)]
  have view: "pm_view_number ?s = 0" by (rule later_new_id(3) [OF node_inv_later [OF ni [OF assms(6)]]])
  have wf: "pp_op_number (sg_inner (le_pre_prepare ?e)) = entry_number k"
    "pp_view_number (sg_inner (le_pre_prepare ?e)) = 0"
    using node_inv_wf [OF ni [OF assms(6)]] assms(7) view
    by (simp_all add: pmain_wf_def entry_number_def)
  have v: "vouched X ?keys H s ?m"
    using node_inv_certified [OF ni [OF assms(6)]] assms(7)
    by (auto simp: certified_def proposal_ok_def)
  have sg: "signer ?keys ?m = 0" using wf by simp
  from vouched_origin [OF assms(1,3) v] sg assms(5) obtain c m' where
    c: "c \<in> set (nd_sent (sy_node s 0))"
    "signed_as X (py_secret_key (crypto_of (common 0))) c m'" "statement m' = statement ?m" by auto
  have "digest_ok X ?m" using v by (simp add: vouched_def authentic_def)
  from signed_proposal [OF c(2,3) assms(3) this] c(1) wf(1)
  have "(entry_number k, le_requests ?e) \<in> set (proposals (nd_sent (sy_node s 0)))"
    by (metis in_proposals list.set_intros(1))
  from proposal_at [OF ni [OF assms(5)] _ this] assms(4-7) show ?thesis
    by (force simp: sys_small_def)
qed

section \<open>Few faulty replicas\<close>

text \<open>The correct replicas that have sent a prepare for a number and digest.\<close>

definition prepared_by :: "nat set \<Rightarrow> system \<Rightarrow> u32 \<times> digest \<Rightarrow> nat set" where
  "prepared_by H s key = {j \<in> H. \<exists>p. SendPrepare p \<in> set (nd_sent (sy_node s j)) \<and>
     (pr_op_number p, pr_request_digest p) = key}"

definition backed :: "transport_config \<Rightarrow> nat set \<Rightarrow> system \<Rightarrow> u32 \<times> digest \<Rightarrow> bool" where
  "backed cfg H s key \<longleftrightarrow> 2 * tc_f cfg \<le> card (prepared_by H s key) + card ({..<tc_n cfg} - H)"

lemma backed_mono:
  assumes "backed cfg H s key" and "finite H"
    and "\<And>j. set (nd_sent (sy_node s j)) \<subseteq> set (nd_sent (sy_node s' j))"
  shows "backed cfg H s' key"
proof -
  have "prepared_by H s key \<subseteq> prepared_by H s' key"
    using assms(3) unfolding prepared_by_def by blast
  then have "card (prepared_by H s key) \<le> card (prepared_by H s' key)"
    using assms(2) by (intro card_mono) (auto simp: prepared_by_def)
  with assms(1) show ?thesis by (simp add: backed_def)
qed

text \<open>
  A vote of a correct replica in a quorum of prepares is its prepare, or a commit it made because
  it was prepared.
\<close>

lemma prepare_vote_origin:
  assumes "sys_inv X cfg common H s" and "hash_binds X"
    and "vouched X (tc_public_keys cfg) H s (prepare_vote t key i sig)" and "unat i \<in> H"
  shows "unat i \<in> prepared_by H s key \<or>
    is_prepared (nd_main (sy_node s (unat i))) (fst key) (snd key)"
proof -
  let ?m = "prepare_vote t key i sig"
  have sg: "signer (tc_public_keys cfg) ?m = unat i" by (simp add: prepare_vote_def)
  from vouched_origin [OF assms(1-3)] sg assms(4) obtain c m' where
    c: "c \<in> set (nd_sent (sy_node s (unat i)))"
    "signed_as X (py_secret_key (crypto_of (common (unat i)))) c m'" "statement m' = statement ?m"
    by auto
  from node_inv_send_ok [OF sys_inv_node_inv [OF assms(1,4)] c(1)]
  have ok: "send_ok (nd_main (sy_node s (unat i))) c" .
  show ?thesis
  proof (cases m')
    case (Prepare q)
    with c(2,3) have "c = SendPrepare (sg_inner q)" "(pr_op_number (sg_inner q), pr_request_digest (sg_inner q)) = key"
      by (cases c; auto simp: signed_as_def prepare_vote_def)+
    with c(1) assms(4) show ?thesis by (auto simp: prepared_by_def)
  next
    case (Commit q)
    with c(2,3) have "c = SendCommit (sg_inner q)" "(ct_op_number (sg_inner q), ct_request_digest (sg_inner q)) = key"
      by (cases c; auto simp: signed_as_def prepare_vote_def)+
    with ok show ?thesis by auto
  qed (use c(3) in \<open>auto simp: prepare_vote_def\<close>)
qed

lemma card_unat_image: "card (unat ` (Q :: u8 set)) = card Q"
  by (rule card_image) (simp add: inj_on_def word_unat_eq_iff)

lemma prepared_backed:
  assumes inv: "sys_inv X cfg common H s" and bind: "hash_binds X"
    and ok: "system_ok X cfg common H" and fin: "finite H" and i: "i \<in> H"
    and cert: "certified (vouched X (tc_public_keys cfg) H s) t"
    and cfg: "pm_config t = cfg" and p: "is_prepared t (fst key) (snd key)"
    and IH: "\<And>j. j \<in> H \<Longrightarrow> is_prepared (nd_main (sy_node s j)) (fst key) (snd key) \<Longrightarrow> backed cfg H s key"
  shows "backed cfg H s key"
proof (cases "\<exists>j \<in> H. is_prepared (nd_main (sy_node s j)) (fst key) (snd key)")
  case True
  with IH show ?thesis by blast
next
  case False
  let ?Q = "quorum_ids (pm_prepare_quorums t) key" and ?F = "{..<tc_n cfg} - H"
  have len: "length (tc_public_keys cfg) = tc_n cfg"
    using system_okD(2,4) [OF ok i] by (auto simp: deploy_ok_def)
  have "unat j \<in> ?F \<union> prepared_by H s key" if "j \<in> ?Q" for j
  proof -
    have "quorums_all (\<lambda>key i sig. vouched X (tc_public_keys cfg) H s (prepare_vote t key i sig))
        (pm_prepare_quorums t)"
      using cert unfolding certified_def by blast
    from quorum_ids_authentic [OF this that] obtain sig
      where v: "vouched X (tc_public_keys cfg) H s (prepare_vote t key j sig)" by blast
    then have "unat j < tc_n cfg" using len by (auto simp: vouched_def authentic_def prepare_vote_def)
    with prepare_vote_origin [OF inv bind v] False show ?thesis by auto
  qed
  then have "unat ` ?Q \<subseteq> ?F \<union> prepared_by H s key" by blast
  moreover have "finite (?F \<union> prepared_by H s key)" using fin by (simp add: prepared_by_def)
  ultimately have "card ?Q \<le> card (?F \<union> prepared_by H s key)"
    using card_mono card_unat_image by metis
  also have "\<dots> \<le> card ?F + card (prepared_by H s key)" by (rule card_Un_le)
  finally show ?thesis
    using p cfg by (simp add: backed_def is_prepared_def quorum_len_card)
qed

text \<open>Whatever is prepared at a correct replica has been prepared by many.\<close>

lemma sys_reach_backed:
  assumes "sys_reach X cfg common H s" and "system_ok X cfg common H" and "pbft_ext_ok X"
    and "hash_binds X" and "i \<in> H" and "is_prepared (nd_main (sy_node s i)) (fst key) (snd key)"
  shows "backed cfg H s key"
  using assms(1,5,6)
proof (induction arbitrary: i)
  case sys_init
  then show ?case by (simp add: system_new_def node_new_def pmain_new_def is_prepared_def log_entry_at_def Let_def)
next
  case (sys_listen s j m)
  have fin: "finite H" using assms(2) by (auto simp: system_ok_def intro: finite_subset)
  have "backed cfg H s key"
    by (rule sys_listen.IH [OF sys_listen.prems(1)])
       (use sys_listen.prems(2) in \<open>auto simp: listen_step_def split: if_splits\<close>)
  then show ?case by (rule backed_mono [OF _ fin]) (simp add: listen_step_def)
next
  case (sys_crypto s j c ms out)
  have fin: "finite H" using assms(2) by (auto simp: system_ok_def intro: finite_subset)
  have "backed cfg H s key"
    by (rule sys_crypto.IH [OF sys_crypto.prems(1)])
       (use sys_crypto.prems(2) in \<open>auto simp: crypto_step_def split: if_splits\<close>)
  then show ?case by (rule backed_mono [OF _ fin]) (simp add: crypto_step_def)
next
  case (sys_main s j m io)
  have fin: "finite H" using assms(2) by (auto simp: system_ok_def intro: finite_subset)
  let ?s' = "set_node s j (main_step m io (sy_node s j))"
  have inv: "sys_inv X cfg common H s" by (rule sys_reach_inv [OF sys_main.hyps(1) assms(2,3)])
  have inv': "sys_inv X cfg common H ?s'"
    by (rule sys_reach_inv [OF sys_reach.sys_main [OF sys_main.hyps(1-4)] assms(2,3)])
  note ni = sys_inv_node_inv [OF inv' sys_main.prems(1)]
  have "vouched X (tc_public_keys cfg) H ?s' = vouched X (tc_public_keys cfg) H s"
    by (rule vouched_signed) simp
  with node_inv_certified [OF ni]
  have cert: "certified (vouched X (tc_public_keys cfg) H s) (nd_main (sy_node ?s' i))" by metis
  have "pm_config (nd_main (sy_node ?s' i)) = cfg"
    using later_new_id(2) [OF node_inv_later [OF ni]] system_okD(2) [OF assms(2) sys_main.prems(1)]
    by metis
  from prepared_backed [OF inv assms(4,2) fin sys_main.prems(1) cert this sys_main.prems(2) sys_main.IH]
  have "backed cfg H s key" .
  then show ?case by (rule backed_mono [OF _ fin]) (simp add: main_step_def)
qed

lemma log_numbers_unique:
  assumes "pmain_wf t" and "length (pm_log t) < 2 ^ 32 - 1" and "e \<in> set (pm_log t)"
    and "e' \<in> set (pm_log t)"
    and "pp_op_number (sg_inner (le_pre_prepare e)) = pp_op_number (sg_inner (le_pre_prepare e'))"
  shows "e = e'"
proof -
  from assms(3,4) obtain a b where ab: "a < length (pm_log t)" "e = pm_log t ! a"
    "b < length (pm_log t)" "e' = pm_log t ! b" by (auto simp: in_set_conv_nth)
  with assms(1,5) have "entry_number a = entry_number b"
    by (simp add: pmain_wf_def entry_number_def)
  with entry_number_inj [of a b] ab assms(2) show ?thesis by simp
qed

lemma prepared_by_disjoint:
  assumes "sys_inv X cfg common H s" and "sys_small H s" and "d \<noteq> d'"
  shows "prepared_by H s (k, d) \<inter> prepared_by H s (k, d') = {}"
proof -
  have False if j: "j \<in> H" and p: "SendPrepare p \<in> set (nd_sent (sy_node s j))"
      "pr_op_number p = k" "pr_request_digest p = d"
    and q: "SendPrepare q \<in> set (nd_sent (sy_node s j))"
      "pr_op_number q = k" "pr_request_digest q = d'" for j p q
  proof -
    let ?t = "nd_main (sy_node s j)"
    note ni = sys_inv_node_inv [OF assms(1) j]
    from node_inv_send_ok [OF ni p(1)] node_inv_send_ok [OF ni q(1)] p q
    obtain e e' where "e \<in> set (pm_log ?t)" "pp_op_number (sg_inner (le_pre_prepare e)) = k"
      "pp_request_digest (sg_inner (le_pre_prepare e)) = d"
      "e' \<in> set (pm_log ?t)" "pp_op_number (sg_inner (le_pre_prepare e')) = k"
      "pp_request_digest (sg_inner (le_pre_prepare e')) = d'"
      by (auto simp: prepare_for_log_def)
    with log_numbers_unique [OF node_inv_wf [OF ni], of e e'] assms(2,3) j show False
      by (auto simp: sys_small_def)
  qed
  then show ?thesis unfolding prepared_by_def by blast
qed

lemma backed_unique:
  assumes "sys_inv X cfg common H s" and "sys_small H s" and "H \<subseteq> {..<tc_n cfg}"
    and "backed cfg H s (k, d)" and "backed cfg H s (k, d')"
    and "tc_n cfg + card ({..<tc_n cfg} - H) < 4 * tc_f cfg"
  shows "d = d'"
proof (rule ccontr)
  assume "d \<noteq> d'"
  let ?P = "prepared_by H s (k, d)" and ?P' = "prepared_by H s (k, d')"
  have fin: "finite H" using assms(3) by (rule finite_subset) simp
  have "card ?P + card ?P' = card (?P \<union> ?P')"
    using prepared_by_disjoint [OF assms(1,2) \<open>d \<noteq> d'\<close>] fin
    by (intro card_Un_disjoint [symmetric]) (auto simp: prepared_by_def)
  also have "\<dots> \<le> card H" using fin by (intro card_mono) (auto simp: prepared_by_def)
  finally have "card ?P + card ?P' \<le> card H" .
  moreover have "card H + card ({..<tc_n cfg} - H) = tc_n cfg"
    using assms(3) fin card_Un_disjoint [of H "{..<tc_n cfg} - H"] by (simp add: Un_absorb1)
  ultimately show False using assms(4-6) by (simp add: backed_def)
qed

section \<open>Agreement\<close>

lemma executed_prepared:
  assumes "node_inv X common A U hs nd" and "length (pm_log (nd_main nd)) < 2 ^ 32 - 1"
    and "k < unat (pm_execute_number (nd_main nd))"
  shows "k < length (pm_log (nd_main nd)) \<and> is_prepared (nd_main nd) (entry_number k)
    (pp_request_digest (sg_inner (le_pre_prepare (pm_log (nd_main nd) ! k))))"
proof -
  obtain msgs where "main_run msgs (pmain_new common) = Inr (nd_main nd, nd_sent nd)"
    using node_inv_run [OF assms(1)] by blast
  from main_run_executed [OF this pmain_new_executed] assms(2,3) show ?thesis
    by (auto simp: pmain_executed_def entry_number_def is_committed_def)
qed

lemma executed_requests_agree:
  assumes reach: "sys_reach X cfg common H s" and ok: "system_ok X cfg common H"
    and ext: "pbft_ext_ok X" and bind: "hash_binds X" and small: "sys_small H s"
    and few: "0 \<in> H \<or> tc_n cfg + card ({..<tc_n cfg} - H) < 4 * tc_f cfg"
    and ij: "i \<in> H" "j \<in> H"
    and ki: "k < unat (pm_execute_number (nd_main (sy_node s i)))"
    and kj: "k < unat (pm_execute_number (nd_main (sy_node s j)))"
  shows "le_requests (pm_log (nd_main (sy_node s i)) ! k) = le_requests (pm_log (nd_main (sy_node s j)) ! k)"
proof -
  have inv: "sys_inv X cfg common H s" by (rule sys_reach_inv [OF reach ok ext])
  note ni = sys_inv_node_inv [OF inv]
  have len: "length (pm_log (nd_main (sy_node s l))) < 2 ^ 32 - 1" if "l \<in> H" for l
    using small that by (simp add: sys_small_def)
  note xi = executed_prepared [OF ni [OF ij(1)] len [OF ij(1)] ki]
    and xj = executed_prepared [OF ni [OF ij(2)] len [OF ij(2)] kj]
  show ?thesis
  proof (cases "0 \<in> H")
    case True
    with log_from_primary [OF inv ok bind small True] ij xi xj show ?thesis by metis
  next
    case False
    let ?ei = "pm_log (nd_main (sy_node s i)) ! k" and ?ej = "pm_log (nd_main (sy_node s j)) ! k"
    let ?di = "pp_request_digest (sg_inner (le_pre_prepare ?ei))"
    let ?dj = "pp_request_digest (sg_inner (le_pre_prepare ?ej))"
    have "backed cfg H s (entry_number k, ?di)" "backed cfg H s (entry_number k, ?dj)"
      using sys_reach_backed [OF reach ok ext bind] ij xi xj by (metis fst_conv snd_conv)+
    with backed_unique [OF inv small _ this] False few ok have d: "?di = ?dj"
      by (simp add: system_ok_def)
    have "digest_ok X (PrePrepare (le_pre_prepare ?ei) (le_requests ?ei))"
      "digest_ok X (PrePrepare (le_pre_prepare ?ej) (le_requests ?ej))"
      using node_inv_certified [OF ni [OF ij(1)]] node_inv_certified [OF ni [OF ij(2)]] xi xj
      by (auto simp: certified_def proposal_ok_def vouched_def authentic_def)
    with d hash_binds_requests [OF bind] show ?thesis by simp
  qed
qed

lemma batch_ops_cong:
  "(\<And>i. i < k \<Longrightarrow> le_requests (es ! i) = le_requests (es' ! i)) \<Longrightarrow> batch_ops es k = batch_ops es' k"
  unfolding batch_ops_def by (intro arg_cong [where f = concat] map_cong) auto

lemma log_history_prefix:
  assumes "k \<le> k'" and "k \<le> length es"
    and "\<And>i. i < k \<Longrightarrow> le_requests (es ! i) = le_requests (es' ! i)" and "k' \<le> length es'"
  shows "svc_extends (log_history a es k) (log_history a es' k')"
proof -
  have "log_history a es k = log_history a es' k"
    using batch_ops_cong [of k es es', OF assms(3)] by (simp add: log_history_def)
  with svc_extends_log [OF assms(1), of es' a "[]"] assms(1,4) show ?thesis by simp
qed

end
