(* ===== verification/Pbft_System_Runs.thy ===== *)
theory Pbft_System_Runs
  imports Pbft_Agreement
begin

text \<open>
  Schedules of the system in which a replica handles one message after the other and all its
  answers are signed in between.  They give reachable states from runs of the main threads.
\<close>

section \<open>Schedules\<close>

text \<open>The hashes the crypto thread signs for the messages \<open>cs\<close> of the main thread.\<close>

definition node_hashes :: "externals \<Rightarrow> replica_common \<Rightarrow> to_crypto list \<Rightarrow> digest set" where
  "node_hashes X common cs =
     (\<Union>c \<in> set cs. case crypto_handle X (crypto_of common) c of
        Inl _ \<Rightarrow> {} | Inr io \<Rightarrow> signed_hashes X (fst io))"

text \<open>The messages the crypto thread signs and passes back for the messages \<open>cs\<close>.\<close>

definition own_signed :: "externals \<Rightarrow> replica_common \<Rightarrow> to_crypto list \<Rightarrow> to_main list" where
  "own_signed X common cs =
     concat (map (\<lambda>c. case crypto_handle X (crypto_of common) c of
        Inl _ \<Rightarrow> [] | Inr io \<Rightarrow> fst io) cs)"

lemma signs_nothing [simp]: "own_signed X common [] = []" "node_hashes X common [] = {}"
  by (simp_all add: own_signed_def node_hashes_def)

lemma own_signed_append [simp]: "own_signed X common (xs @ ys) = own_signed X common xs @ own_signed X common ys"
  by (simp add: own_signed_def)

lemma node_hashes_append [simp]: "node_hashes X common (xs @ ys) = node_hashes X common xs \<union> node_hashes X common ys"
  by (simp add: node_hashes_def)

definition all_signed :: "externals \<Rightarrow> replica_common \<Rightarrow> to_crypto list \<Rightarrow> nat \<Rightarrow> system \<Rightarrow> system" where
  "all_signed X common cs i s =
     s\<lparr>sy_node := (sy_node s)(i := (sy_node s i)\<lparr>nd_to_crypto := {#},
          nd_to_main := nd_to_main (sy_node s i) + mset (own_signed X common cs)\<rparr>),
       sy_signed := (sy_signed s)(i := sy_signed s i \<union> node_hashes X common cs)\<rparr>"

lemma sign_all:
  assumes "sys_reach X cfg common H s" and "i \<in> H" and "nd_to_crypto (sy_node s i) = mset cs"
    and "\<And>c. c \<in> set cs \<Longrightarrow> \<exists>io. crypto_handle X (crypto_of (common i)) c = Inr io"
  shows "sys_reach X cfg common H (all_signed X (common i) cs i s)"
  using assms
proof (induction cs arbitrary: s)
  case Nil
  then have "all_signed X (common i) [] i s = s"
    by (simp add: all_signed_def node_hashes_def own_signed_def fun_upd_idem)
  with Nil show ?case by simp
next
  case (Cons c cs)
  from Cons.prems(4) [of c] obtain ms out where
    h: "crypto_handle X (crypto_of (common i)) c = Inr (ms, out)" by auto
  let ?s = "(set_node s i (crypto_step c ms (sy_node s i)))
    \<lparr>sy_signed := (sy_signed s)(i := sy_signed s i \<union> signed_hashes X ms)\<rparr>"
  have r: "sys_reach X cfg common H ?s"
    by (rule sys_crypto [OF Cons.prems(1,2) _ h]) (simp add: Cons.prems(3))
  have t: "nd_to_crypto (sy_node ?s i) = mset cs"
    by (simp add: crypto_step_def Cons.prems(3))
  have "all_signed X (common i) cs i ?s = all_signed X (common i) (c # cs) i s"
    by (simp add: all_signed_def crypto_step_def node_hashes_def own_signed_def h fun_upd_def
        fun_eq_iff Un_assoc ac_simps)
  with Cons.IH [OF r Cons.prems(2) t] Cons.prems(4) show ?case by simp
qed

text \<open>A message the network can deliver to a replica and the replica accepts.\<close>

definition acceptable ::
  "externals \<Rightarrow> public_key list \<Rightarrow> nat set \<Rightarrow> (nat \<Rightarrow> digest set) \<Rightarrow> to_replica \<Rightarrow> bool" where
  "acceptable X keys H hs m \<longleftrightarrow> is_request m \<or>
     (authentic X keys m \<and>
      (signer keys m \<in> H \<longrightarrow>
         (\<exists>b. signed_bytes X m = Some b \<and> sc_hash X b \<in> hs (signer keys m))))"

lemma accept:
  assumes "sys_reach X cfg common H s" and "i \<in> H" and "system_ok X cfg common H"
    and "pbft_ext_ok X" and "acceptable X (tc_public_keys cfg) H (sy_signed s) m"
  shows "sys_reach X cfg common H
    (set_node s i ((sy_node s i)\<lparr>nd_to_main := nd_to_main (sy_node s i) + {#Verified m#}\<rparr>))"
proof -
  let ?nd = "sy_node s i" and ?keys = "tc_public_keys cfg"
  have keys: "py_public_keys (crypto_of (common i)) = ?keys"
    using system_okD(2) [OF assms(3,2)] by (simp add: crypto_of_def)
  have unforged: "unforged X ?keys H s m"
    using assms(5) by (auto simp: acceptable_def unforged_def signed_before_def authentic_def elim: is_request.elims)
  note reach = sys_listen [OF assms(1,2) this]
  show ?thesis
  proof (cases "is_request m")
    case True
    then have "listen_step m ?nd = ?nd\<lparr>nd_to_main := nd_to_main ?nd + {#Verified m#}\<rparr>"
      by (cases m) (simp_all add: listen_step_def)
    with reach show ?thesis by simp
  next
    case False
    with assms(5) have a: "authentic X ?keys m" by (simp add: acceptable_def)
    let ?l = "?nd\<lparr>nd_to_crypto := nd_to_crypto ?nd + {#Verify m#}\<rparr>"
    from False have "listen_step m ?nd = ?l" by (cases m) (simp_all add: listen_step_def)
    with reach have r: "sys_reach X cfg common H (set_node s i ?l)" by simp
    have "crypto_handle X (crypto_of (common i)) (Verify m) = Inr ([Verified m], [])"
      using verify_result [OF assms(4) False, of "crypto_of (common i)"] a
      by (simp add: keys authentic_def)
    from sys_crypto [OF r assms(2) _ this]
    show ?thesis by (simp add: crypto_step_def signed_hashes_def fun_upd_idem)
  qed
qed

text \<open>
  A replica handles the messages \<open>msgs\<close>, verified ones from the network and signed ones of its own,
  and has signed all it sends.
\<close>

fun is_own :: "to_main \<Rightarrow> bool" where
  "is_own (Verified m) \<longleftrightarrow> False"
| "is_own (Signed m) \<longleftrightarrow> True"

definition node_ran ::
  "externals \<Rightarrow> replica_common \<Rightarrow> to_main list \<Rightarrow> main_io \<Rightarrow> node \<Rightarrow> node" where
  "node_ran X common msgs io nd =
     nd\<lparr>nd_main := fst io,
        nd_to_main := nd_to_main nd - mset (filter is_own msgs) + mset (own_signed X common (snd io)),
        nd_to_crypto := {#}, nd_sent := nd_sent nd @ snd io\<rparr>"

definition sys_ran ::
  "externals \<Rightarrow> (nat \<Rightarrow> replica_common) \<Rightarrow> to_main list \<Rightarrow> main_io \<Rightarrow> nat \<Rightarrow> system \<Rightarrow> system" where
  "sys_ran X common msgs io i s =
     s\<lparr>sy_node := (sy_node s)(i := node_ran X (common i) msgs io (sy_node s i)),
       sy_signed := (sy_signed s)(i := sy_signed s i \<union> node_hashes X (common i) (snd io))\<rparr>"

lemma main_send_handled:
  assumes "pbft_ext_ok X" and "send_ok t c" and "tx_ok X (py_tx y)" and "py_to_main y"
  shows "\<exists>io. crypto_handle X y c = Inr io"
  using assms crypto_handle_sends_ok [OF assms(1) _ assms(3,4), of c] crypto_reply_ok [OF assms(1,3)]
  by (cases c) (fastforce)+

lemma sys_ran_step:
  assumes "sys_reach X cfg common H s" and "i \<in> H" and "system_ok X cfg common H"
    and "pbft_ext_ok X" and "tx_ok X (rc_tx (common i))" and "nd_to_crypto (sy_node s i) = {#}"
    and "\<And>m. msg = Verified m \<Longrightarrow> acceptable X (tc_public_keys cfg) H (sy_signed s) m"
    and "is_own msg \<Longrightarrow> msg \<in># nd_to_main (sy_node s i)"
    and "main_handle msg (nd_main (sy_node s i)) = Inr io"
  shows "sys_reach X cfg common H (sys_ran X common [msg] io i s)"
proof -
  obtain main out where io: "io = (main, out)" by (cases io)
  let ?M = "nd_to_main (sy_node s i)"
  let ?s1 = "set_node s i ((sy_node s i)\<lparr>nd_to_main := ?M - mset (filter is_own [msg]) + {#msg#}\<rparr>)"
  have "sys_reach X cfg common H ?s1"
  proof (cases msg)
    case (Verified m)
    with accept [OF assms(1-4) assms(7)] show ?thesis by simp
  next
    case (Signed m)
    with assms(1,8) show ?thesis by simp
  qed
  then have r: "sys_reach X cfg common H (set_node ?s1 i (main_step msg io (sy_node ?s1 i)))"
      (is "sys_reach _ _ _ _ ?s2")
    by (rule sys_main [OF _ assms(2)]) (simp_all add: assms(9))
  have c: "nd_to_crypto (sy_node ?s2 i) = mset out" using assms(6) by (simp add: main_step_def io)
  have h: "\<exists>io. crypto_handle X (crypto_of (common i)) c = Inr io" if "c \<in> set out" for c
    using main_send_handled [OF assms(4) bspec [OF main_handle_sends [OF assms(9) [unfolded io]] that]] assms(5)
    by (simp add: crypto_of_def)
  have "all_signed X (common i) out i ?s2 = sys_ran X common [msg] io i s"
    by (auto simp: all_signed_def sys_ran_def node_ran_def main_step_def io intro!: system.equality node.equality)
  with sign_all [OF r assms(2) c h] show ?thesis by simp
qed

lemma acceptable_mono:
  "acceptable X keys H hs m \<Longrightarrow> (\<And>j. hs j \<subseteq> hs' j) \<Longrightarrow> acceptable X keys H hs' m"
  unfolding acceptable_def by blast

lemma sys_ran_signed: "sy_signed s j \<subseteq> sy_signed (sys_ran X common msgs io i s) j"
  by (simp add: sys_ran_def)

lemma sys_ran_run:
  assumes "sys_reach X cfg common H s" and "i \<in> H" and "system_ok X cfg common H"
    and "pbft_ext_ok X" and "tx_ok X (rc_tx (common i))" and "nd_to_crypto (sy_node s i) = {#}"
    and "\<And>m. Verified m \<in> set msgs \<Longrightarrow> acceptable X (tc_public_keys cfg) H (sy_signed s) m"
    and "mset (filter is_own msgs) \<subseteq># nd_to_main (sy_node s i)"
    and "main_run msgs (nd_main (sy_node s i)) = Inr io"
  shows "sys_reach X cfg common H (sys_ran X common msgs io i s)"
  using assms(1,6-9)
proof (induction msgs arbitrary: s io)
  case Nil
  have "sys_ran X common [] io i s = s"
  proof (cases "sy_node s i")
    case (fields main to_main to_crypto sent)
    with Nil.prems(2,5) show ?thesis
      by (auto simp: sys_ran_def node_ran_def own_signed_def node_hashes_def intro!: system.equality)
  qed
  with Nil show ?case by simp
next
  case (Cons msg msgs)
  obtain main out where "io = (main, out)" by (cases io)
  then obtain main1 out1 out2 where h: "main_handle msg (nd_main (sy_node s i)) = Inr (main1, out1)"
    and r: "main_run msgs main1 = Inr (main, out2)" and io: "io = (main, out1 @ out2)"
    using Cons.prems(5) by (auto simp: main_run_Cons_Inr simp del: main_run.simps)
  let ?M = "nd_to_main (sy_node s i)"
  let ?s1 = "sys_ran X common [msg] (main1, out1) i s"
  have "is_own msg \<Longrightarrow> msg \<in># ?M"
    using Cons.prems(4) mset_subset_eqD by fastforce
  with sys_ran_step [OF Cons.prems(1) assms(2-5) Cons.prems(2) _ _ h] Cons.prems(3)
  have "sys_reach X cfg common H ?s1" by simp
  moreover have "nd_to_crypto (sy_node ?s1 i) = {#}" by (simp add: sys_ran_def node_ran_def)
  moreover have "acceptable X (tc_public_keys cfg) H (sy_signed ?s1) m" if "Verified m \<in> set msgs" for m
    using Cons.prems(3) [of m] that acceptable_mono [OF _ sys_ran_signed] by simp
  moreover have sub: "mset (filter is_own msgs) \<subseteq># ?M - mset (filter is_own [msg])"
    using Cons.prems(4) by (cases "is_own msg") (auto simp: insert_subset_eq_iff)
  have "mset (filter is_own msgs) \<subseteq># nd_to_main (sy_node ?s1 i)"
    using subset_mset.order_trans [OF sub mset_subset_eq_add_left] by (simp add: sys_ran_def node_ran_def)
  moreover have "main_run msgs (nd_main (sy_node ?s1 i)) = Inr (main, out2)"
    using r by (simp add: sys_ran_def node_ran_def)
  ultimately have "sys_reach X cfg common H (sys_ran X common msgs (main, out2) i ?s1)"
    by (rule Cons.IH)
  moreover have "sys_ran X common msgs (main, out2) i ?s1 = sys_ran X common (msg # msgs) io i s"
  proof -
    have "?M - mset (filter is_own [msg]) + mset (own_signed X (common i) out1) - mset (filter is_own msgs) =
        ?M - mset (filter is_own (msg # msgs)) + mset (own_signed X (common i) out1)"
      using subset_mset.add_diff_assoc2 [OF sub, symmetric, of "mset (own_signed X (common i) out1)"]
      by (cases "is_own msg") simp_all
    then show ?thesis by (simp add: sys_ran_def node_ran_def io Un_assoc add.assoc del: filter.simps)
  qed
  ultimately show ?case by simp
qed

text \<open>
  \<open>served T\<close>: there is a reachable state in which each replica \<open>i\<close> has handled the messages
  \<open>T i\<close> and has signed all it was asked to.
\<close>

definition served ::
  "externals \<Rightarrow> transport_config \<Rightarrow> (nat \<Rightarrow> replica_common) \<Rightarrow> nat set \<Rightarrow> (nat \<Rightarrow> to_replica list) \<Rightarrow>
   system \<Rightarrow> bool" where
  "served X cfg common H T s \<longleftrightarrow> sys_reach X cfg common H s \<and>
     (\<forall>i. main_run (map Verified (T i)) (pmain_new (common i)) =
            Inr (nd_main (sy_node s i), nd_sent (sy_node s i)) \<and>
          nd_to_crypto (sy_node s i) = {#} \<and>
          sy_signed s i = node_hashes X (common i) (nd_sent (sy_node s i)))"

lemma served_new: "served X cfg common H (\<lambda>i. []) (system_new common)"
  unfolding served_def using sys_init [of X cfg common H]
  by (simp add: system_new_def node_new_def node_hashes_def)

lemma serve_list:
  assumes "served X cfg common H T s" and "i \<in> H" and "system_ok X cfg common H"
    and "pbft_ext_ok X" and "tx_ok X (rc_tx (common i))"
    and "\<And>m. m \<in> set ms \<Longrightarrow> acceptable X (tc_public_keys cfg) H (sy_signed s) m"
    and "main_run (map Verified (T i @ ms)) (pmain_new (common i)) = Inr io"
  shows "\<exists>s'. served X cfg common H (T(i := T i @ ms)) s'"
proof -
  from assms(1) have r: "sys_reach X cfg common H s"
    and t: "\<And>j. main_run (map Verified (T j)) (pmain_new (common j)) =
        Inr (nd_main (sy_node s j), nd_sent (sy_node s j))"
    and e: "\<And>j. nd_to_crypto (sy_node s j) = {#}"
    and g: "\<And>j. sy_signed s j = node_hashes X (common j) (nd_sent (sy_node s j))"
    by (auto simp: served_def)
  from assms(7) t [of i] obtain main out where
    h: "main_run (map Verified ms) (nd_main (sy_node s i)) = Inr (main, out)"
    and io: "io = (main, nd_sent (sy_node s i) @ out)"
    by (cases "main_run (map Verified ms) (nd_main (sy_node s i))") (auto simp: main_run_append)
  have "sys_reach X cfg common H (sys_ran X common (map Verified ms) (main, out) i s)"
    using assms(6) by (intro sys_ran_run [OF r assms(2-5) e _ _ h]) (auto simp: filter_empty_conv)
  then show ?thesis
    using t e g assms(7) io
    by (intro exI [of _ "sys_ran X common (map Verified ms) (main, out) i s"])
       (auto simp: served_def sys_ran_def node_ran_def)
qed

end
