(* ===== verification/Pbft_System_Demo.thy ===== *)
theory Pbft_System_Demo
  imports Pbft_System_Runs Pbft_Main_Properties
begin

text \<open>
  Concrete systems of four replicas: one in which two correct replicas execute a request, and
  one in which a faulty primary makes two correct replicas execute different requests.
\<close>

section \<open>Messages\<close>

definition demo_sys_ext :: externals where
  "demo_sys_ext = sample_ext [] [] []"

definition batch_digest :: "request list \<Rightarrow> digest" where
  "batch_digest rqs = unary (to_nat rqs)"

definition proposal_hash :: "request list \<Rightarrow> digest" where
  "proposal_hash rqs = 0 # unary (to_nat (sg_inner (sample_pre_prepare 1 (batch_digest rqs))))"

definition vote_hash :: "request list \<Rightarrow> u8 \<Rightarrow> digest" where
  "vote_hash rqs i = 1 # unary (to_nat (0 :: u8, 1 :: u32, batch_digest rqs, i))"

definition proposal_by :: "request list \<Rightarrow> to_replica" where
  "proposal_by rqs = PrePrepare
     ((sample_pre_prepare 1 (batch_digest rqs))\<lparr>sg_signature := 10 # proposal_hash rqs\<rparr>) rqs"

definition prepare_by :: "request list \<Rightarrow> u8 \<Rightarrow> to_replica" where
  "prepare_by rqs i = Prepare
     ((sample_prepare 1 (batch_digest rqs) i)\<lparr>sg_signature := (10 + i) # vote_hash rqs i\<rparr>)"

definition commit_by :: "request list \<Rightarrow> u8 \<Rightarrow> to_replica" where
  "commit_by rqs i = Commit
     ((sample_commit 1 (batch_digest rqs) i)\<lparr>sg_signature := (10 + i) # vote_hash rqs i\<rparr>)"

lemmas demo_sys_messages = proposal_by_def prepare_by_def commit_by_def sample_pre_prepare_def
  sample_prepare_def sample_commit_def

lemma demo_sys_ext_simps:
  "bc_ser_to_replica demo_sys_ext m = Some (tagged [] m)"
  "bc_ser_requests demo_sys_ext rqs = Some (unary (to_nat rqs))"
  "bc_ser_pre_prepare demo_sys_ext pp = Some (0 # unary (to_nat pp))"
  "bc_ser_prepare demo_sys_ext p = Some (1 # unary (to_nat
     (pr_view_number p, pr_op_number p, pr_request_digest p, pr_replica_id p)))"
  "bc_ser_commit demo_sys_ext c = Some (1 # unary (to_nat
     (ct_view_number c, ct_op_number c, ct_request_digest c, ct_replica_id c)))"
  "sc_hash demo_sys_ext b = b" "sc_sign demo_sys_ext h sk = sk @ h"
  "sc_verify demo_sys_ext h s pk \<longleftrightarrow> s = pk @ h"
  by (simp_all add: demo_sys_ext_def sample_ext_def)

lemma demo_sys_ext_ok: "pbft_ext_ok demo_sys_ext"
  unfolding demo_sys_ext_def by (rule sample_pbft_ext_ok) simp_all

lemma demo_sys_hash_binds: "hash_binds demo_sys_ext"
proof -
  have "statement m = statement m'"
    if "signed_bytes demo_sys_ext m = Some b" "signed_bytes demo_sys_ext m' = Some b" for m m' b
    using that by (cases m; cases m') (auto simp: demo_sys_ext_simps)
  moreover have "rqs = rqs'" if "unary (to_nat rqs) = unary (to_nat rqs')" for rqs rqs' :: "request list"
    using that by simp
  ultimately show ?thesis
    unfolding hash_binds_def demo_sys_ext_simps by (metis option.inject)
qed

lemma demo_sys_ok: "H \<subseteq> {..<4} \<Longrightarrow> system_ok demo_sys_ext sample_config sample_common H"
  by (auto simp: system_ok_def sample_config_def sample_common_def deploy_ok_def demo_sys_ext_def
      sample_ext_def)

lemma demo_keys:
  "tc_public_keys sample_config = [[10], [11], [12], [13]]"
  by (simp add: sample_config_def)

lemma key_at: "i \<in> {0, 1, 2, 3} \<Longrightarrow> unat i < 4 \<and> [[10], [11], [12], [13]] ! unat i = [10 + i :: u8]"
  by auto

lemma accept_proposal:
  assumes "0 \<in> H \<Longrightarrow> proposal_hash rqs \<in> hs 0"
  shows "acceptable demo_sys_ext (tc_public_keys sample_config) H hs (proposal_by rqs)"
  using assms
  by (simp add: acceptable_def authentic_def demo_keys demo_sys_ext_simps demo_sys_messages
      proposal_hash_def batch_digest_def)

lemma accept_vote:
  assumes "i \<in> {0, 1, 2, 3}" and "unat i \<in> H \<Longrightarrow> vote_hash rqs i \<in> hs (unat i)"
  shows "acceptable demo_sys_ext (tc_public_keys sample_config) H hs (prepare_by rqs i)"
    and "acceptable demo_sys_ext (tc_public_keys sample_config) H hs (commit_by rqs i)"
  using assms(2) key_at [OF assms(1)]
  by (simp_all add: acceptable_def authentic_def demo_keys demo_sys_ext_simps demo_sys_messages
      vote_hash_def)

section \<open>What has been signed\<close>

lemma served_signed:
  assumes "served X cfg common H T s"
    and "main_run (map Verified (T i)) (pmain_new (common i)) = Inr (st, out)"
    and "h \<in> node_hashes X (common i) out"
  shows "h \<in> sy_signed s i"
  using assms unfolding served_def by (metis Inr_inject prod.inject)

lemma in_node_hashes:
  assumes "c \<in> set out"
    and "h \<in> (case crypto_handle X (crypto_of common) c of
        Inl _ \<Rightarrow> {} | Inr io \<Rightarrow> signed_hashes X (fst io))"
  shows "h \<in> node_hashes X common out"
  using assms unfolding node_hashes_def by blast

lemmas demo_sys_crypto = send_pre_prepare_def send_prepare_def send_commit_def broadcast_signed_def
  Let_def demo_sys_ext_simps broadcast_ok sample_tx_ok tx_ok_def crypto_of_def sample_common_def
  signed_hashes_def

lemma vote_signed:
  assumes "SendPrepare (sg_inner (sample_prepare 1 (batch_digest rqs) i)) \<in> set out \<or>
    SendCommit (sg_inner (sample_commit 1 (batch_digest rqs) i)) \<in> set out"
  shows "vote_hash rqs i \<in> node_hashes demo_sys_ext (sample_common j) out"
  using assms
  by (auto elim!: in_node_hashes
      simp: demo_sys_crypto vote_hash_def sample_prepare_def sample_commit_def)

lemma proposal_signed:
  assumes "SendPrePrepare (sg_inner (sample_pre_prepare 1 default_digest)) rqs \<in> set out"
  shows "proposal_hash rqs \<in> node_hashes demo_sys_ext (sample_common j) out"
  using assms
  by (rule in_node_hashes)
     (simp add: demo_sys_crypto proposal_hash_def batch_digest_def sample_pre_prepare_def)

lemma sample_tx: "tx_ok demo_sys_ext (rc_tx (sample_common i))"
  by (simp add: demo_sys_ext_def sample_tx_ok)

section \<open>Serving the replicas\<close>

abbreviation demo_served :: "nat set \<Rightarrow> (nat \<Rightarrow> to_replica list) \<Rightarrow> system \<Rightarrow> bool" where
  "demo_served H \<equiv> served demo_sys_ext sample_config sample_common H"

definition runs :: "nat \<Rightarrow> to_replica list \<Rightarrow> pmain \<Rightarrow> to_crypto list \<Rightarrow> bool" where
  "runs i ms st out \<longleftrightarrow>
     main_run (map Verified ms) (pmain_new (sample_common i)) = Inr (st, out)"

lemma runs_ex: "runs i ms st out \<Longrightarrow> \<exists>st out. runs i ms st out"
  by blast

lemma demo_serve:
  assumes "demo_served H T s" and "i \<in> H" and "H \<subseteq> {..<4}" and "\<exists>st out. runs i (T i @ ms) st out"
    and "set ms \<subseteq> {m. acceptable demo_sys_ext (tc_public_keys sample_config) H (sy_signed s) m}"
  shows "\<exists>s'. demo_served H (T(i := T i @ ms)) s'"
  using serve_list [OF assms(1,2) demo_sys_ok [OF assms(3)] demo_sys_ext_ok sample_tx, of ms]
    assms(4,5) by (auto simp: runs_def)

lemma demo_served_node:
  assumes "demo_served H T s" and "runs j (T j) st out"
  shows "nd_main (sy_node s j) = st" and "nd_sent (sy_node s j) = out"
  using assms by (auto simp: served_def runs_def)

lemma demo_served_vote:
  assumes "demo_served H T s" and "runs j (T j) st out"
    and "SendPrepare (sg_inner (sample_prepare 1 (batch_digest rqs) i)) \<in> set out \<or>
      SendCommit (sg_inner (sample_commit 1 (batch_digest rqs) i)) \<in> set out"
  shows "vote_hash rqs i \<in> sy_signed s j"
  using served_signed [OF assms(1) assms(2) [unfolded runs_def]] vote_signed [OF assms(3)] by blast

lemma demo_served_proposal:
  assumes "demo_served H T s" and "runs j (T j) st out"
    and "SendPrePrepare (sg_inner (sample_pre_prepare 1 default_digest)) rqs \<in> set out"
  shows "proposal_hash rqs \<in> sy_signed s j"
  using served_signed [OF assms(1) assms(2) [unfolded runs_def]] proposal_signed [OF assms(3)] by blast

lemmas runs_eval = runs_def main_eval demo_sys_messages sample_common_def sample_config_def

section \<open>A faulty primary\<close>

definition split_requests :: "u32 \<Rightarrow> request list" where
  "split_requests k = [sample_request k]"

lemma split_digest: "batch_digest rqs = batch_digest rqs' \<longleftrightarrow> rqs = rqs'"
  by (simp add: batch_digest_def)

text \<open>What the replicas 1 and 2 handle: a proposal, the prepares for it, the commits for it.\<close>

definition split_votes :: "request list \<Rightarrow> u8 \<Rightarrow> to_replica list" where
  "split_votes rqs i = [prepare_by rqs 0, prepare_by rqs i, commit_by rqs 0, commit_by rqs i, commit_by rqs 3]"

text \<open>What replica 3 handles: one proposal, and the prepares for both.\<close>

definition split_both :: "to_replica list" where
  "split_both = [proposal_by (split_requests 1), prepare_by (split_requests 1) 0,
     prepare_by (split_requests 1) 1, prepare_by (split_requests 2) 0, prepare_by (split_requests 2) 2]"

lemma split_first:
  assumes "i \<in> {1, 2}"
  obtains st where "runs i [proposal_by rqs] st
    [SendPrepare (sg_inner (sample_prepare 1 (batch_digest rqs) (of_nat i)))]"
  using assms by (auto simp: runs_eval)

lemma split_third:
  obtains st out where "runs 3 split_both st out"
    "SendCommit (sg_inner (sample_commit 1 (batch_digest (split_requests 1)) 3)) \<in> set out"
    "SendCommit (sg_inner (sample_commit 1 (batch_digest (split_requests 2)) 3)) \<in> set out"
    "length (pm_log st) = 1" "length out = 3"
  by (simp add: runs_eval split_both_def split_digest split_requests_def sample_request_def)

lemma split_executes:
  assumes "i \<in> {1, 2}"
  shows "\<exists>st out.
    runs i (proposal_by (split_requests k) # split_votes (split_requests k) (of_nat i)) st out \<and>
    pm_execute_number st = 1 \<and> le_requests (pm_log st ! 0) = split_requests k \<and>
    length (pm_log st) = 1 \<and> length out = 3"
  using assms by (auto simp: runs_eval split_votes_def split_requests_def sample_request_def)

lemmas split_executed = split_executes [of 1 1, simplified insert_iff of_nat_numeral of_nat_1 simp_thms]
  split_executes [of 2 2, simplified insert_iff of_nat_numeral of_nat_1 simp_thms]

definition split_history :: "nat \<Rightarrow> to_replica list" where
  "split_history = (\<lambda>i. [])
     (1 := proposal_by (split_requests 1) # split_votes (split_requests 1) 1,
      2 := proposal_by (split_requests 2) # split_votes (split_requests 2) 2,
      3 := split_both)"

text \<open>
  Each of the replicas 1 and 2 gets another proposal and prepares it.  Replica 3 then commits to
  both, and the replicas 1 and 2 both have the commits they need.
\<close>

lemma split_served: "\<exists>s. demo_served {1, 2, 3} split_history s"
proof -
  let ?H = "{1, 2, 3} :: nat set" and ?a = "split_requests 1" and ?b = "split_requests 2"
  let ?T1 = "(\<lambda>i. [])(1 := [proposal_by ?a]) :: nat \<Rightarrow> to_replica list"
  let ?T2 = "?T1(2 := [proposal_by ?b])"
  let ?T3 = "?T2(3 := split_both)"
  let ?T4 = "?T3(1 := proposal_by ?a # split_votes ?a 1)"
  have H: "?H \<subseteq> {..<4}" by auto
  obtain st1 where r1: "runs 1 [proposal_by ?a] st1 [SendPrepare (sg_inner (sample_prepare 1 (batch_digest ?a) 1))]"
    using split_first [of 1 ?a] by auto
  obtain st2 where r2: "runs 2 [proposal_by ?b] st2 [SendPrepare (sg_inner (sample_prepare 1 (batch_digest ?b) 2))]"
    using split_first [of 2 ?b] by auto
  obtain st3 out3 where r3: "runs 3 split_both st3 out3"
    and c3: "SendCommit (sg_inner (sample_commit 1 (batch_digest ?a) 3)) \<in> set out3"
      "SendCommit (sg_inner (sample_commit 1 (batch_digest ?b) 3)) \<in> set out3"
    by (rule split_third)
  let ?ok = "\<lambda>s :: system. {m. acceptable demo_sys_ext (tc_public_keys sample_config) ?H (sy_signed s) m}"
  have pre: "proposal_by rqs \<in> ?ok s" for rqs s
    using accept_proposal [of ?H] by auto
  have zero: "prepare_by rqs 0 \<in> ?ok s" "commit_by rqs 0 \<in> ?ok s" for rqs s
    using accept_vote [of 0 ?H] by auto
  have vote: "prepare_by rqs i \<in> ?ok s" "commit_by rqs i \<in> ?ok s"
    if "i \<in> {1, 2, 3}" "vote_hash rqs i \<in> sy_signed s (unat i)" for rqs s i
    using accept_vote [of i ?H] that by auto
  have "\<exists>s. demo_served ?H ?T1 s"
    using demo_serve [OF served_new _ H, of 1 "[proposal_by ?a]"] runs_ex [OF r1] pre
    by (simp del: One_nat_def)
  then obtain s1 where s1: "demo_served ?H ?T1 s1" by blast
  have "\<exists>s. demo_served ?H ?T2 s"
    using demo_serve [OF s1 _ H, of 2 "[proposal_by ?b]"] runs_ex [OF r2] pre
    by (simp del: One_nat_def)
  then obtain s2 where s2: "demo_served ?H ?T2 s2" by blast
  have v2: "vote_hash ?a 1 \<in> sy_signed s2 1" "vote_hash ?b 2 \<in> sy_signed s2 2"
    using demo_served_vote [OF s2, of 1 st1 _ ?a 1]
      demo_served_vote [OF s2, of 2 st2 _ ?b 2] r1 r2
    by (simp_all del: One_nat_def)
  have "\<exists>s. demo_served ?H ?T3 s"
    using demo_serve [OF s2 _ H, of 3 split_both] runs_ex [OF r3] pre [of _ s2] zero [of _ s2] vote [of _ _ s2] v2
    by (simp add: split_both_def del: One_nat_def)
  then obtain s3 where s3: "demo_served ?H ?T3 s3" by blast
  have v3: "vote_hash ?a 1 \<in> sy_signed s3 1" "vote_hash ?b 2 \<in> sy_signed s3 2"
    using demo_served_vote [OF s3, of 1 st1 _ ?a 1]
      demo_served_vote [OF s3, of 2 st2 _ ?b 2] r1 r2
    by (simp_all del: One_nat_def)
  have w3: "vote_hash ?a 3 \<in> sy_signed s3 3" "vote_hash ?b 3 \<in> sy_signed s3 3"
    using demo_served_vote [OF s3, of 3 st3 _ ?a 3]
      demo_served_vote [OF s3, of 3 st3 _ ?b 3] r3 c3
    by (auto simp del: One_nat_def)
  obtain st4 out4 where r4: "runs 1 (proposal_by ?a # split_votes ?a 1) st4 out4"
    using split_executed(1) by blast
  obtain st5 out5 where r5: "runs 2 (proposal_by ?b # split_votes ?b 2) st5 out5"
    using split_executed(2) by blast
  have "\<exists>s. demo_served ?H ?T4 s"
    using demo_serve [OF s3 _ H, of 1 "split_votes ?a 1"] runs_ex [OF r4] zero [of _ s3] vote [of _ _ s3] v3 w3
    by (simp add: split_votes_def fun_upd_twist del: One_nat_def)
  then obtain s4 where s4: "demo_served ?H ?T4 s4" by blast
  have v4: "vote_hash ?b 2 \<in> sy_signed s4 2"
    using demo_served_vote [OF s4, of 2 st2 _ ?b 2] r2
    by (simp_all del: One_nat_def)
  have w4: "vote_hash ?b 3 \<in> sy_signed s4 3"
    using demo_served_vote [OF s4, of 3 st3 _ ?b 3] r3 c3
    by (simp_all del: One_nat_def)
  have "\<exists>s. demo_served ?H (?T4(2 := proposal_by ?b # split_votes ?b 2)) s"
    using demo_serve [OF s4 _ H, of 2 "split_votes ?b 2"] runs_ex [OF r5] zero [of _ s4] vote [of _ _ s4] v4 w4
    by (simp add: split_votes_def del: One_nat_def)
  moreover have "?T4(2 := proposal_by ?b # split_votes ?b 2) = split_history"
    by (simp add: split_history_def fun_eq_iff)
  ultimately show ?thesis by metis
qed

section \<open>A correct primary\<close>

definition agree_votes :: "to_replica list" where
  "agree_votes = [prepare_by (split_requests 1) 1, prepare_by (split_requests 1) 2,
     commit_by (split_requests 1) 1, commit_by (split_requests 1) 2, commit_by (split_requests 1) 3]"

definition agree_start :: "to_replica list" where
  "agree_start = [Request (sample_request 1)]"

lemma agree_first:
  "\<exists>st. runs 0 agree_start st
     [SendPrePrepare (sg_inner (sample_pre_prepare 1 default_digest)) (split_requests 1)]"
  by (simp add: runs_eval agree_start_def split_requests_def)

lemma agree_executes:
  "\<exists>st out. runs 0 (agree_start @ proposal_by (split_requests 1) # agree_votes) st out \<and>
     pm_execute_number st = 1 \<and> length (pm_log st) = 1 \<and> length out = 3"
  "\<exists>st out. runs 1 (proposal_by (split_requests 1) # agree_votes) st out \<and>
     pm_execute_number st = 1 \<and> length (pm_log st) = 1 \<and> length out = 3"
  by (simp_all add: runs_eval agree_votes_def agree_start_def split_requests_def sample_request_def)

definition agree_history :: "nat \<Rightarrow> to_replica list" where
  "agree_history = (\<lambda>i. [])
     (0 := agree_start @ proposal_by (split_requests 1) # agree_votes,
      1 := proposal_by (split_requests 1) # agree_votes)"

lemma agree_served: "\<exists>s. demo_served {0, 1} agree_history s"
proof -
  let ?H = "{0, 1} :: nat set" and ?a = "split_requests 1"
  let ?T1 = "(\<lambda>i. [])(0 := agree_start) :: nat \<Rightarrow> to_replica list"
  let ?T2 = "?T1(1 := [proposal_by ?a])"
  let ?T3 = "?T2(0 := agree_start @ proposal_by ?a # agree_votes)"
  let ?ok = "\<lambda>s :: system. {m. acceptable demo_sys_ext (tc_public_keys sample_config) ?H (sy_signed s) m}"
  have H: "?H \<subseteq> {..<4}" by auto
  have req: "Request m \<in> ?ok s" for m s by (simp add: acceptable_def)
  have pre: "proposal_by rqs \<in> ?ok s" if "proposal_hash rqs \<in> sy_signed s 0" for rqs s
    using accept_proposal [of ?H] that by auto
  have vote: "prepare_by rqs i \<in> ?ok s" "commit_by rqs i \<in> ?ok s"
    if "i \<in> {1, 2, 3}" "vote_hash rqs 1 \<in> sy_signed s 1" for rqs s i
    using accept_vote [of i ?H] that by auto
  obtain st1 where r1: "runs 0 agree_start st1
      [SendPrePrepare (sg_inner (sample_pre_prepare 1 default_digest)) ?a]"
    using agree_first by blast
  obtain st2 where r2: "runs 1 [proposal_by ?a] st2 [SendPrepare (sg_inner (sample_prepare 1 (batch_digest ?a) 1))]"
    using split_first [of 1 ?a] by auto
  obtain st3 out3 where r3: "runs 0 (agree_start @ proposal_by ?a # agree_votes) st3 out3"
    using agree_executes(1) by blast
  obtain st4 out4 where r4: "runs 1 (proposal_by ?a # agree_votes) st4 out4"
    using agree_executes(2) by blast
  have "\<exists>s. demo_served ?H ?T1 s"
    using demo_serve [OF served_new _ H, of 0 agree_start] runs_ex [OF r1] req
    by (simp add: agree_start_def del: One_nat_def)
  then obtain s1 where s1: "demo_served ?H ?T1 s1" by blast
  have p1: "proposal_hash ?a \<in> sy_signed s1 0"
    using demo_served_proposal [OF s1, of 0 st1 _ ?a] r1 by simp
  have "\<exists>s. demo_served ?H ?T2 s"
    using demo_serve [OF s1 _ H, of 1 "[proposal_by ?a]"] runs_ex [OF r2] pre [OF p1]
    by (simp del: One_nat_def)
  then obtain s2 where s2: "demo_served ?H ?T2 s2" by blast
  have p2: "proposal_hash ?a \<in> sy_signed s2 0"
    using demo_served_proposal [OF s2, of 0 st1 _ ?a] r1 by simp
  have v2: "vote_hash ?a 1 \<in> sy_signed s2 1"
    using demo_served_vote [OF s2, of 1 st2 _ ?a 1] r2 by (simp del: One_nat_def)
  have "\<exists>s. demo_served ?H ?T3 s"
    using demo_serve [OF s2 _ H, of 0 "proposal_by ?a # agree_votes"] runs_ex [OF r3] pre [OF p2]
      vote [OF _ v2]
    by (simp add: agree_votes_def fun_upd_twist del: One_nat_def)
  then obtain s3 where s3: "demo_served ?H ?T3 s3" by blast
  have v3: "vote_hash ?a 1 \<in> sy_signed s3 1"
    using demo_served_vote [OF s3, of 1 st2 _ ?a 1] r2 by (simp del: One_nat_def)
  have "\<exists>s. demo_served ?H (?T3(1 := proposal_by ?a # agree_votes)) s"
    using demo_serve [OF s3 _ H, of 1 agree_votes] runs_ex [OF r4] vote [OF _ v3]
    by (simp add: agree_votes_def del: One_nat_def)
  moreover have "?T3(1 := proposal_by ?a # agree_votes) = agree_history"
    by (simp add: agree_history_def fun_eq_iff)
  ultimately show ?thesis by metis
qed

text \<open>The state this ends in.\<close>

lemma agree_end:
  "\<exists>s. sys_reach demo_sys_ext sample_config sample_common {0, 1} s \<and> sys_small {0, 1} s \<and>
     pm_execute_number (nd_main (sy_node s 0)) = 1 \<and>
     pm_execute_number (nd_main (sy_node s 1)) = 1"
proof -
  obtain s where s: "demo_served {0, 1} agree_history s" using agree_served by blast
  obtain st0 out0 where r0: "runs 0 (agree_start @ proposal_by (split_requests 1) # agree_votes) st0 out0"
    and e0: "pm_execute_number st0 = 1" "length (pm_log st0) = 1" "length out0 = 3"
    using agree_executes(1) by blast
  obtain st1 out1 where r1: "runs 1 (proposal_by (split_requests 1) # agree_votes) st1 out1"
    and e1: "pm_execute_number st1 = 1" "length (pm_log st1) = 1" "length out1 = 3"
    using agree_executes(2) by blast
  have "nd_main (sy_node s 0) = st0 \<and> nd_sent (sy_node s 0) = out0"
    and "nd_main (sy_node s 1) = st1 \<and> nd_sent (sy_node s 1) = out1"
    using demo_served_node [OF s, of 0] demo_served_node [OF s, of 1] r0 r1
    by (simp_all add: agree_history_def del: One_nat_def)
  with s e0 e1 show ?thesis
    by (intro exI [of _ s]) (simp add: served_def sys_small_def del: One_nat_def)
qed

end
