(* ===== verification/Pbft_System_Properties.thy ===== *)
theory Pbft_System_Properties
  imports Pbft_System_Demo
begin

text \<open>
  The properties of several replicas together, with correct and faulty ones among them.
\<close>

text \<open>
  C2. Agreement of correct replicas: in any reachable state of a system with faulty replicas and
  an arbitrary network, all correct replicas execute the same batches at the same positions, and
  the service history of one extends that of the other, if the primary is correct, or if the
  number of replicas plus the number of faulty ones is below 4f.
\<close>
theorem correct_replicas_agree:
  assumes "sys_reach X cfg common H s" and "system_ok X cfg common H" and "pbft_ext_ok X"
    and "hash_binds X" and "sys_small H s"
    and "0 \<in> H \<or> tc_n cfg + card ({..<tc_n cfg} - H) < 4 * tc_f cfg"
    and "i \<in> H" and "j \<in> H"
    and "pm_execute_number (nd_main (sy_node s i)) \<le> pm_execute_number (nd_main (sy_node s j))"
  shows "(\<forall>k < unat (pm_execute_number (nd_main (sy_node s i))).
      le_requests (pm_log (nd_main (sy_node s i)) ! k) = le_requests (pm_log (nd_main (sy_node s j)) ! k)) \<and>
    svc_extends (pmain_history Null (nd_main (sy_node s i))) (pmain_history Null (nd_main (sy_node s j)))"
proof -
  let ?si = "nd_main (sy_node s i)" and ?sj = "nd_main (sy_node s j)"
  have le: "unat (pm_execute_number ?si) \<le> unat (pm_execute_number ?sj)"
    using assms(9) by (simp add: word_le_nat_alt)
  then have same: "le_requests (pm_log ?si ! k) = le_requests (pm_log ?sj ! k)"
    if "k < unat (pm_execute_number ?si)" for k
    using executed_requests_agree [OF assms(1-8)] that by simp
  have bound: "unat (pm_execute_number (nd_main (sy_node s l))) \<le> length (pm_log (nd_main (sy_node s l)))"
    if "l \<in> H" for l
  proof -
    note ni = sys_inv_node_inv [OF sys_reach_inv [OF assms(1-3)] that]
    obtain msgs where "main_run msgs (pmain_new (common l)) = Inr (nd_main (sy_node s l), nd_sent (sy_node s l))"
      using node_inv_run [OF ni] by blast
    moreover have "length (pm_log (nd_main (sy_node s l))) < 2 ^ 32"
      using assms(5) that by (auto simp: sys_small_def)
    ultimately show ?thesis
      using main_run_executed [OF _ pmain_new_executed] by (auto simp: pmain_executed_def)
  qed
  from same log_history_prefix [OF le bound [OF assms(7)] same bound [OF assms(8)]] show ?thesis
    by (simp add: pmain_history_def)
qed

theorem correct_replicas_agree_witness:
  "\<exists>s. sys_reach demo_sys_ext sample_config sample_common {0, 1} s \<and>
     pm_execute_number (nd_main (sy_node s 0)) = 1 \<and>
     pm_execute_number (nd_main (sy_node s 1)) = 1 \<and>
     le_requests (pm_log (nd_main (sy_node s 0)) ! 0) =
       le_requests (pm_log (nd_main (sy_node s 1)) ! 0) \<and>
     svc_extends (pmain_history Null (nd_main (sy_node s 0))) (pmain_history Null (nd_main (sy_node s 1)))"
proof -
  obtain s where s: "sys_reach demo_sys_ext sample_config sample_common {0, 1} s" "sys_small {0, 1} s"
    and e: "pm_execute_number (nd_main (sy_node s 0)) = 1" "pm_execute_number (nd_main (sy_node s 1)) = 1"
    using agree_end by blast
  have H: "{0, 1} \<subseteq> {..<4 :: nat}" by auto
  from correct_replicas_agree [OF s(1) demo_sys_ok [OF H] demo_sys_ext_ok demo_sys_hash_binds s(2),
      of 0 1] s(1) e
  show ?thesis by (intro exI [of _ s]) simp
qed

text \<open>
  C5. One faulty primary is enough to split the others: with four replicas and one fault allowed,
  the state is reachable in which the correct replicas 1 and 2 have executed different requests
  at the first position, since \<open>is_prepared\<close> asks that there is a log entry for the number but
  not that the entry has the digest, and so replica 3 commits to both proposals.
\<close>
theorem faulty_primary_splits:
  "\<exists>s. sys_reach demo_sys_ext sample_config sample_common {1, 2, 3} s \<and>
     system_ok demo_sys_ext sample_config sample_common {1, 2, 3} \<and> pbft_ext_ok demo_sys_ext \<and>
     hash_binds demo_sys_ext \<and> sys_small {1, 2, 3} s \<and>
     pm_execute_number (nd_main (sy_node s 1)) = 1 \<and>
     pm_execute_number (nd_main (sy_node s 2)) = 1 \<and>
     le_requests (pm_log (nd_main (sy_node s 1)) ! 0) \<noteq>
       le_requests (pm_log (nd_main (sy_node s 2)) ! 0)"
proof -
  obtain s where s: "demo_served {1, 2, 3} split_history s" using split_served by blast
  obtain st1 out1 where r1: "runs 1 (proposal_by (split_requests 1) # split_votes (split_requests 1) 1) st1 out1"
    and e1: "pm_execute_number st1 = 1" "le_requests (pm_log st1 ! 0) = split_requests 1"
      "length (pm_log st1) = 1" "length out1 = 3"
    using split_executed(1) by blast
  obtain st2 out2 where r2: "runs 2 (proposal_by (split_requests 2) # split_votes (split_requests 2) 2) st2 out2"
    and e2: "pm_execute_number st2 = 1" "le_requests (pm_log st2 ! 0) = split_requests 2"
      "length (pm_log st2) = 1" "length out2 = 3"
    using split_executed(2) by blast
  obtain st3 out3 where r3: "runs 3 split_both st3 out3"
    and e3: "length (pm_log st3) = 1" "length out3 = 3"
    by (rule split_third)
  have nodes: "nd_main (sy_node s 1) = st1" "nd_sent (sy_node s 1) = out1"
      "nd_main (sy_node s 2) = st2" "nd_sent (sy_node s 2) = out2"
      "nd_main (sy_node s 3) = st3" "nd_sent (sy_node s 3) = out3"
    using demo_served_node [OF s, of 1] demo_served_node [OF s, of 2] demo_served_node [OF s, of 3]
      r1 r2 r3 by (simp_all add: split_history_def del: One_nat_def)
  have "sys_reach demo_sys_ext sample_config sample_common {1, 2, 3} s"
    using s by (simp add: served_def)
  moreover have "split_requests 1 \<noteq> split_requests 2"
    by (simp add: split_requests_def sample_request_def)
  moreover have "sys_small {1, 2, 3} s"
    using nodes e1 e2 e3 by (auto simp: sys_small_def)
  ultimately show ?thesis
    using nodes e1 e2 demo_sys_ok [of "{1, 2, 3}"] demo_sys_ext_ok demo_sys_hash_binds
    by (intro exI [of _ s]) (simp del: One_nat_def)
qed

end
