(* ===== verification/Pbft_Round.thy ===== *)
theory Pbft_Round
  imports Pbft_Main_Runs
begin

text \<open>
  One round of the protocol at one main thread: a proposal, prepares for it and commits for it, in
  this order.  The thread sends its votes, executes the batch and is ready for the next round.
\<close>

section \<open>Votes for one entry\<close>

text \<open>The main thread treats a message of its own like a verified one.\<close>

fun msg_of :: "to_main \<Rightarrow> to_replica" where
  "msg_of (Verified m) = m"
| "msg_of (Signed m) = m"

lemma main_handle_msg_of:
  "msg_of msg = PrePrepare pp rqs \<Longrightarrow> main_handle msg s = receive_pre_prepare pp rqs s"
  "msg_of msg = Prepare p \<Longrightarrow> main_handle msg s = Inr (handle_prepare p s)"
  "msg_of msg = Commit c \<Longrightarrow> main_handle msg s = handle_commit c s"
  by (cases msg; auto)+

definition prepare_for :: "pmain \<Rightarrow> u32 \<Rightarrow> digest \<Rightarrow> prepare signed \<Rightarrow> bool" where
  "prepare_for s k d p \<longleftrightarrow> pr_view_number (sg_inner p) = pm_view_number s \<and>
     pr_op_number (sg_inner p) = k \<and> pr_request_digest (sg_inner p) = d"

definition commit_for :: "pmain \<Rightarrow> u32 \<Rightarrow> digest \<Rightarrow> commit signed \<Rightarrow> bool" where
  "commit_for s k d c \<longleftrightarrow> ct_view_number (sg_inner c) = pm_view_number s \<and>
     ct_op_number (sg_inner c) = k \<and> ct_request_digest (sg_inner c) = d"

definition prepare_ids :: "prepare signed list \<Rightarrow> u8 set" where
  "prepare_ids ps = (\<lambda>p. pr_replica_id (sg_inner p)) ` set ps"

definition commit_ids :: "commit signed list \<Rightarrow> u8 set" where
  "commit_ids cs = (\<lambda>c. ct_replica_id (sg_inner c)) ` set cs"

lemma vote_ids_simps [simp]:
  "prepare_ids [] = {}" "prepare_ids (p # ps) = insert (pr_replica_id (sg_inner p)) (prepare_ids ps)"
  "commit_ids [] = {}" "commit_ids (c # cs) = insert (ct_replica_id (sg_inner c)) (commit_ids cs)"
  by (simp_all add: prepare_ids_def commit_ids_def)

text \<open>The commit of the thread for an entry.\<close>

definition own_commit :: "pmain \<Rightarrow> u32 \<Rightarrow> digest \<Rightarrow> to_crypto" where
  "own_commit s k d = SendCommit \<lparr>ct_view_number = pm_view_number s, ct_op_number = k,
     ct_request_digest = d, ct_replica_id = pm_id s\<rparr>"

lemma is_prepared_card:
  "is_prepared s k d \<longleftrightarrow> log_entry_at (pm_log s) k \<noteq> None \<and>
     2 * tc_f (pm_config s) \<le> card (quorum_ids (pm_prepare_quorums s) (k, d))"
  by (simp add: is_prepared_def quorum_len_card)

lemma is_committed_card:
  "is_committed s k d \<longleftrightarrow> is_prepared s k d \<and>
     2 * tc_f (pm_config s) < card (quorum_ids (pm_commit_quorums s) (k, d))"
  by (simp add: is_committed_def quorum_len_card)

lemma prepared_run:
  assumes "is_prepared s k d" and "map msg_of msgs = map Prepare ps" and "\<forall>p \<in> set ps. prepare_for s k d p"
  shows "main_run msgs s = Inr (s, [])"
  using assms(2,3)
proof (induction ps arbitrary: msgs)
  case (Cons p ps)
  then obtain msg msgs' where m: "msgs = msg # msgs'" "msg_of msg = Prepare p" "map msg_of msgs' = map Prepare ps"
    by auto
  have "handle_prepare p s = (s, [])"
    using Cons.prems(2) assms(1) by (simp add: handle_prepare_def prepare_for_def Let_def)
  with m Cons show ?case by (simp add: main_handle_msg_of)
qed simp

text \<open>
  Prepares for a logged entry: the thread counts them until it has enough, and then sends its
  commit once.
\<close>

lemma prepares_run:
  assumes "map msg_of msgs = map Prepare ps" and "\<forall>p \<in> set ps. prepare_for s k d p"
    and "log_entry_at (pm_log s) k \<noteq> None" and "\<not> is_prepared s k d"
  shows "\<exists>q. main_run msgs s = Inr (s\<lparr>pm_prepare_quorums := q\<rparr>,
      if 2 * tc_f (pm_config s) \<le> card (quorum_ids (pm_prepare_quorums s) (k, d) \<union> prepare_ids ps)
      then [own_commit s k d] else []) \<and>
    (\<forall>key. key \<noteq> (k, d) \<longrightarrow> q key = pm_prepare_quorums s key) \<and>
    quorum_ids q (k, d) \<subseteq> quorum_ids (pm_prepare_quorums s) (k, d) \<union> prepare_ids ps \<and>
    (if 2 * tc_f (pm_config s) \<le> card (quorum_ids (pm_prepare_quorums s) (k, d) \<union> prepare_ids ps)
     then 2 * tc_f (pm_config s) \<le> card (quorum_ids q (k, d))
     else quorum_ids q (k, d) = quorum_ids (pm_prepare_quorums s) (k, d) \<union> prepare_ids ps)"
    (is "?P msgs ps s")
  using assms
proof (induction ps arbitrary: msgs s)
  case Nil
  then show ?case by (intro exI [of _ "pm_prepare_quorums s"]) (auto simp: is_prepared_card)
next
  case (Cons p ps)
  then obtain msg msgs' where m: "msgs = msg # msgs'" "msg_of msg = Prepare p" "map msg_of msgs' = map Prepare ps"
    by auto
  let ?Q = "quorum_ids (pm_prepare_quorums s) (k, d)" and ?i = "pr_replica_id (sg_inner p)"
  let ?q = "quorum_insert (k, d) ?i (sg_signature p) (pm_prepare_quorums s)"
  let ?s = "s\<lparr>pm_prepare_quorums := ?q\<rparr>"
  have p: "prepare_for s k d p" using Cons.prems(2) by simp
  have ps: "\<forall>p \<in> set ps. prepare_for ?s k d p" using Cons.prems(2) by (simp add: prepare_for_def)
  have ids: "quorum_ids ?q (k, d) = insert ?i ?Q" by (simp add: quorum_ids_insert)
  have other: "?q key = pm_prepare_quorums s key" if "key \<noteq> (k, d)" for key
    using that by (simp add: quorum_insert_simps)
  have h: "handle_prepare p s = (?s, if is_prepared ?s k d then [own_commit s k d] else [])"
    using p Cons.prems(4) by (simp add: handle_prepare_def prepare_for_def own_commit_def Let_def)
  show ?case
  proof (cases "is_prepared ?s k d")
    case True
    then have n: "2 * tc_f (pm_config s) \<le> card (insert ?i ?Q)" by (simp add: is_prepared_card ids)
    also have "\<dots> \<le> card (?Q \<union> prepare_ids (p # ps))" by (intro card_mono) auto
    finally have c: "2 * tc_f (pm_config s) \<le> card (?Q \<union> prepare_ids (p # ps))" .
    have "main_run msgs s = Inr (?s, [own_commit s k d])"
      using prepared_run [OF True m(3) ps] h True by (simp add: m(1) main_handle_msg_of(2) [OF m(2)])
    with c n ids other show ?thesis by (intro exI [of _ ?q]) auto
  next
    case False
    have l: "log_entry_at (pm_log ?s) k \<noteq> None" using Cons.prems(3) by simp
    from Cons.IH [OF m(3) ps l False] obtain q where q: "main_run msgs' ?s = Inr (?s\<lparr>pm_prepare_quorums := q\<rparr>,
        if 2 * tc_f (pm_config ?s) \<le> card (quorum_ids (pm_prepare_quorums ?s) (k, d) \<union> prepare_ids ps)
        then [own_commit ?s k d] else [])"
      "\<forall>key. key \<noteq> (k, d) \<longrightarrow> q key = pm_prepare_quorums ?s key"
      "quorum_ids q (k, d) \<subseteq> quorum_ids (pm_prepare_quorums ?s) (k, d) \<union> prepare_ids ps"
      "if 2 * tc_f (pm_config ?s) \<le> card (quorum_ids (pm_prepare_quorums ?s) (k, d) \<union> prepare_ids ps)
       then 2 * tc_f (pm_config ?s) \<le> card (quorum_ids q (k, d))
       else quorum_ids q (k, d) = quorum_ids (pm_prepare_quorums ?s) (k, d) \<union> prepare_ids ps"
      by blast
    have "main_run msgs s = Inr (s\<lparr>pm_prepare_quorums := q\<rparr>,
        if 2 * tc_f (pm_config s) \<le> card (?Q \<union> prepare_ids (p # ps)) then [own_commit s k d] else [])"
      using q(1) h False
      by (simp add: m(1) main_handle_msg_of(2) [OF m(2)] quorum_ids_insert own_commit_def)
    moreover have "\<forall>key. key \<noteq> (k, d) \<longrightarrow> q key = pm_prepare_quorums s key"
      using q(2) other by simp
    moreover have "quorum_ids q (k, d) \<subseteq> ?Q \<union> prepare_ids (p # ps)"
      using q(3) by (simp add: quorum_ids_insert)
    moreover have "if 2 * tc_f (pm_config s) \<le> card (?Q \<union> prepare_ids (p # ps))
       then 2 * tc_f (pm_config s) \<le> card (quorum_ids q (k, d))
       else quorum_ids q (k, d) = ?Q \<union> prepare_ids (p # ps)"
      using q(4) by (simp add: quorum_ids_insert split: if_splits)
    ultimately show ?thesis by blast
  qed
qed

text \<open>Commits for the last entry of the log, when all before it has been executed.\<close>

lemma committed_run:
  assumes "is_committed s k d" and "map msg_of msgs = map Commit cs" and "\<forall>c \<in> set cs. commit_for s k d c"
  shows "main_run msgs s = Inr (s, [])"
  using assms(2,3)
proof (induction cs arbitrary: msgs)
  case (Cons c cs)
  then obtain msg msgs' where m: "msgs = msg # msgs'" "msg_of msg = Commit c" "map msg_of msgs' = map Commit cs"
    by auto
  have "handle_commit c s = Inr (s, [])"
    using Cons.prems(2) assms(1) by (simp add: handle_commit_def commit_for_def Let_def)
  with m Cons show ?case by (simp add: main_handle_msg_of)
qed simp

lemma execute_last:
  assumes "next_committed s" and "length (pm_log s) = Suc (unat (pm_execute_number s))"
    and "length (pm_log s) < 2 ^ 32"
  shows "execute s [] = Some (execute_next (last (pm_log s)) (s, []))"
proof -
  let ?e = "last (pm_log s)" and ?k = "unat (pm_execute_number s)"
  have e: "pm_log s ! ?k = ?e" using assms(2) by (simp add: last_conv_nth flip: length_0_conv)
  let ?io = "execute_next ?e (s, [])"
  have "unat (pm_execute_number (fst ?io)) = Suc ?k"
    using assms(2,3) by (simp add: execute_next_number unat_word_ariths(1))
  then have "\<not> next_committed (fst ?io)"
    by (simp add: next_committed_def log_entry_at_next execute_next_log assms(2))
  then have "execute (fst ?io) (snd ?io) = Some ?io" by (subst execute_unfold) simp
  with assms(1) e show ?thesis by (subst execute_unfold) (simp add: Let_def)
qed

lemma commits_run:
  assumes "map msg_of msgs = map Commit cs" and "\<forall>c \<in> set cs. commit_for s k d c"
    and "is_prepared s k d" and "\<not> is_committed s k d"
    and "2 * tc_f (pm_config s) < card (quorum_ids (pm_commit_quorums s) (k, d) \<union> commit_ids cs)"
    and "k = pm_execute_number s + 1" and "length (pm_log s) = Suc (unat (pm_execute_number s))"
    and "length (pm_log s) < 2 ^ 32" and "pp_request_digest (sg_inner (le_pre_prepare (last (pm_log s)))) = d"
    and "pm_requests s = []" and "is_primary s = Inr b"
  shows "\<exists>q. main_run msgs s = Inr (execute_next (last (pm_log s)) (s\<lparr>pm_commit_quorums := q\<rparr>, [])) \<and>
    (\<forall>key. key \<noteq> (k, d) \<longrightarrow> q key = pm_commit_quorums s key)"
  using assms
proof (induction cs arbitrary: msgs s)
  case Nil
  then show ?case by (simp add: is_committed_card)
next
  case (Cons c cs)
  then obtain msg msgs' where m: "msgs = msg # msgs'" "msg_of msg = Commit c" "map msg_of msgs' = map Commit cs"
    by auto
  let ?i = "ct_replica_id (sg_inner c)"
  let ?q = "quorum_insert (k, d) ?i (sg_signature c) (pm_commit_quorums s)"
  let ?s = "s\<lparr>pm_commit_quorums := ?q\<rparr>"
  note c = Cons.prems(2)
  have other: "?q key = pm_commit_quorums s key" if "key \<noteq> (k, d)" for key
    using that by (simp add: quorum_insert_simps)
  have prep: "is_prepared ?s k d" using Cons.prems(3) by (simp add: is_prepared_def)
  show ?case
  proof (cases "is_committed ?s k d")
    case True
    let ?e = "last (pm_log s)"
    let ?io = "execute_next ?e (?s, [])"
    have "pm_log s ! unat (pm_execute_number s) = ?e"
      using Cons.prems(7) by (simp add: last_conv_nth flip: length_0_conv)
    with True Cons.prems(6,7,9) have "next_committed ?s"
      by (simp add: next_committed_def log_entry_at_next)
    from execute_last [OF this] Cons.prems(7,8) have x: "execute ?s [] = Some ?io" by simp
    have fr: "exec_frame (?s, []) (fst ?io, snd ?io)" using execute_next_frame [of "(?s, [])" ?e] by simp
    then have pr: "is_primary (fst ?io) = Inr b" "pm_requests (fst ?io) = []"
      and id: "pm_view_number (fst ?io) = pm_view_number s"
      using Cons.prems(10,11) by (auto simp: exec_frame_def Let_def is_primary_def)
    have "handle_commit c s = Inr ?io"
      using c Cons.prems(4) True x pr
      by (simp add: handle_commit_def commit_for_def Let_def split_beta)
    moreover have "main_run msgs' (fst ?io) = Inr (fst ?io, [])"
      using True exec_frame_quorums [OF fr] c id
      by (intro committed_run [OF _ m(3)]) (auto simp: commit_for_def)
    ultimately show ?thesis
      using other by (intro exI [of _ ?q]) (simp add: m(1) main_handle_msg_of(3) [OF m(2)] split_beta)
  next
    case False
    have h: "handle_commit c s = Inr (?s, [])"
      using c Cons.prems(4) False by (simp add: handle_commit_def commit_for_def Let_def)
    have cs: "\<forall>c \<in> set cs. commit_for ?s k d c" using c by (simp add: commit_for_def)
    have "is_primary ?s = Inr b" using Cons.prems(11) by (simp add: is_primary_def)
    with Cons.IH [OF m(3) cs prep False] Cons.prems(5-10)
    obtain q where "main_run msgs' ?s = Inr (execute_next (last (pm_log s)) (?s\<lparr>pm_commit_quorums := q\<rparr>, []))"
      "\<forall>key. key \<noteq> (k, d) \<longrightarrow> q key = ?q key"
      by (auto simp: quorum_ids_insert)
    with h other show ?thesis
      by (intro exI [of _ q]) (simp add: m(1) main_handle_msg_of(3) [OF m(2)] split_beta)
  qed
qed

section \<open>A round\<close>

text \<open>
  Between two rounds: all of the log \<open>es\<close> is executed, nothing is waiting, and there are no votes
  for later entries.  \<open>op\<close> is the number of the last proposal of this replica.
\<close>

definition caught_up :: "u32 \<Rightarrow> log_entry list \<Rightarrow> pmain \<Rightarrow> bool" where
  "caught_up op es s \<longleftrightarrow> pm_log s = es \<and> pm_execute_number s = of_nat (length es) \<and>
     pm_op_number s = op \<and> pm_requests s = [] \<and> pm_reorder_pre_prepare s = Map.empty \<and>
     (\<forall>n d. length es < unat n \<longrightarrow>
        pm_prepare_quorums s (n, d) = None \<and> pm_commit_quorums s (n, d) = None)"

definition entry_key :: "log_entry list \<Rightarrow> log_entry \<Rightarrow> u32 \<times> digest" where
  "entry_key es e = (of_nat (Suc (length es)), pp_request_digest (sg_inner (le_pre_prepare e)))"

text \<open>Within a round: the entry \<open>e\<close> is logged and has no commits, and only it has prepares.\<close>

definition in_round :: "u32 \<Rightarrow> log_entry list \<Rightarrow> log_entry \<Rightarrow> pmain \<Rightarrow> bool" where
  "in_round op es e s \<longleftrightarrow> pm_log s = es @ [e] \<and> pm_execute_number s = of_nat (length es) \<and>
     pm_op_number s = op \<and> pm_requests s = [] \<and> pm_reorder_pre_prepare s = Map.empty \<and>
     (\<forall>n d. length es < unat n \<longrightarrow> pm_commit_quorums s (n, d) = None \<and>
        ((n, d) \<noteq> entry_key es e \<longrightarrow> pm_prepare_quorums s (n, d) = None))"

lemma caught_up_new: "caught_up 0 [] (pmain_new common)"
  by (simp add: caught_up_def pmain_new_def)

lemma caught_up_request:
  assumes "caught_up (of_nat (length es)) es s" and "request_new s m" and "is_primary s = Inr True"
    and "length es + 6 < 2 ^ 32"
  shows "\<exists>s'. main_handle (Verified (Request m)) s = Inr (s',
      [SendPrePrepare \<lparr>pp_view_number = pm_view_number s, pp_op_number = of_nat (Suc (length es)),
                       pp_request_digest = default_digest\<rparr> [m]]) \<and>
    caught_up (of_nat (Suc (length es))) es s'"
proof -
  have "of_nat (length es) < (of_nat (length es) + 6 :: u32)"
    using assms(4) by (simp add: word_less_nat_alt unat_word_ariths(1) unat_of_nat take_bit_nat_def)
  then have n: "pm_op_number s < pm_execute_number s + 6" "pm_op_number s = of_nat (length es)"
    using assms(1) by (simp_all add: caught_up_def)
  with assms(1-3) show ?thesis
    by (simp add: handle_request_simps do_close_batch_eq caught_up_def)
qed

lemma caught_up_proposal:
  assumes "caught_up op es s" and "msg_of msg = PrePrepare pp rqs" and "is_primary s = Inr b"
    and "pp_view_number (sg_inner pp) = pm_view_number s"
    and "pp_op_number (sg_inner pp) = of_nat (Suc (length es))" and "Suc (length es) < 2 ^ 32"
    and "0 < tc_f (pm_config s)"
  shows "\<exists>s'. main_handle msg s = Inr (s', if b then [] else [SendPrepare \<lparr>pr_view_number = pm_view_number s,
      pr_op_number = of_nat (Suc (length es)), pr_request_digest = pp_request_digest (sg_inner pp),
      pr_replica_id = pm_id s\<rparr>]) \<and>
    in_round op es \<lparr>le_pre_prepare = pp, le_requests = rqs\<rparr> s' \<and>
    \<not> is_prepared s' (of_nat (Suc (length es))) (pp_request_digest (sg_inner pp))"
proof -
  let ?e = "\<lparr>le_pre_prepare = pp, le_requests = rqs\<rparr>"
  let ?s = "s\<lparr>pm_log := pm_log s @ [?e]\<rparr>"
  have n: "next_entry_number s = of_nat (Suc (length es))"
    using assms(1) by (simp add: next_entry_number_def caught_up_def)
  have "handle_pre_prepare pp rqs s = Inr (?s, if b then [] else [SendPrepare
      \<lparr>pr_view_number = pm_view_number s, pr_op_number = of_nat (Suc (length es)),
       pr_request_digest = pp_request_digest (sg_inner pp), pr_replica_id = pm_id s\<rparr>])"
    using assms(3-5) n by (simp add: handle_pre_prepare_def Let_def)
  moreover have "drain_reorder ?s out = Inr (?s, out)" for out
    using assms(1) by (subst drain_reorder.simps) (simp add: caught_up_def)
  ultimately have "main_handle msg s = Inr (?s, if b then [] else [SendPrepare
      \<lparr>pr_view_number = pm_view_number s, pr_op_number = of_nat (Suc (length es)),
       pr_request_digest = pp_request_digest (sg_inner pp), pr_replica_id = pm_id s\<rparr>])"
    using assms(2,5) n by (simp add: main_handle_msg_of receive_pre_prepare_def)
  moreover have "in_round op es ?e ?s" using assms(1) by (simp add: in_round_def caught_up_def)
  moreover have "pm_prepare_quorums s (of_nat (Suc (length es)), d) = None" for d
    using assms(1,6) by (simp add: caught_up_def unat_of_nat take_bit_nat_def del: of_nat_Suc)
  then have "\<not> is_prepared ?s (of_nat (Suc (length es))) (pp_request_digest (sg_inner pp))"
    using assms(7) by (simp add: is_prepared_def quorum_len_def)
  ultimately show ?thesis by blast
qed

lemma in_round_logged:
  "in_round op es e s \<Longrightarrow> Suc (length es) < 2 ^ 32 \<Longrightarrow> log_entry_at (pm_log s) (of_nat (Suc (length es))) = Some e"
  by (simp add: in_round_def log_entry_at_next unat_of_nat take_bit_nat_def add.commute [of 1])

lemma in_round_prepares:
  assumes "in_round op es e s" and "entry_key es e = (k, d)" and "\<not> is_prepared s k d"
    and "map msg_of msgs = map Prepare ps" and "\<forall>p \<in> set ps. prepare_for s k d p"
    and "2 * tc_f (pm_config s) \<le> card (prepare_ids ps)" and "Suc (length es) < 2 ^ 32"
  shows "\<exists>s'. main_run msgs s = Inr (s', [own_commit s k d]) \<and> in_round op es e s' \<and> is_prepared s' k d"
proof -
  have k: "k = of_nat (Suc (length es))" using assms(2) by (simp add: entry_key_def)
  have l: "log_entry_at (pm_log s) k \<noteq> None" using in_round_logged [OF assms(1,7)] by (simp add: k)
  have "card (prepare_ids ps) \<le> card (quorum_ids (pm_prepare_quorums s) (k, d) \<union> prepare_ids ps)"
    by (intro card_mono) auto
  with assms(6) have enough: "2 * tc_f (pm_config s) \<le>
      card (quorum_ids (pm_prepare_quorums s) (k, d) \<union> prepare_ids ps)" by simp
  from prepares_run [OF assms(4,5) l assms(3)] enough obtain q where
    "main_run msgs s = Inr (s\<lparr>pm_prepare_quorums := q\<rparr>, [own_commit s k d])"
    "\<forall>key. key \<noteq> (k, d) \<longrightarrow> q key = pm_prepare_quorums s key"
    "2 * tc_f (pm_config s) \<le> card (quorum_ids q (k, d))" by auto
  with assms(1,2) l show ?thesis
    by (intro exI [of _ "s\<lparr>pm_prepare_quorums := q\<rparr>"]) (simp add: in_round_def is_prepared_card)
qed

text \<open>The reply to a request, executed as the one after \<open>n\<close> entries.\<close>

definition reply_of :: "pmain \<Rightarrow> nat \<Rightarrow> request \<Rightarrow> reply" where
  "reply_of s n m = \<lparr>rp_request_number = rq_request_number m,
     rp_result = snd (app_execute (pm_app s) (of_nat (Suc n)) (rq_op m)),
     rp_replica_id = pm_id s, rp_view_number = pm_view_number s\<rparr>"

lemma in_round_commits:
  assumes "in_round op es e s" and "entry_key es e = (k, d)" and "is_prepared s k d"
    and "map msg_of msgs = map Commit cs" and "\<forall>c \<in> set cs. commit_for s k d c"
    and "2 * tc_f (pm_config s) < card (commit_ids cs)" and "Suc (length es) < 2 ^ 32"
    and "is_primary s = Inr b" and "le_requests e = [m]" and "request_new s m"
  shows "\<exists>s'. main_run msgs s = Inr (s', [SendReply (rq_addr m) (reply_of s (length es) m)]) \<and>
    caught_up op (es @ [e]) s'"
proof -
  have k: "k = of_nat (Suc (length es))" and d: "d = pp_request_digest (sg_inner (le_pre_prepare e))"
    using assms(2) by (simp_all add: entry_key_def)
  have u: "unat k = Suc (length es)" "unat (pm_execute_number s) = length es" "pm_execute_number s + 1 = k"
    using assms(1,7) by (simp_all add: k in_round_def unat_of_nat take_bit_nat_def del: of_nat_Suc)
      (simp add: add.commute)
  then have "pm_commit_quorums s (k, d) = None" using assms(1) by (simp add: in_round_def)
  then have nc: "\<not> is_committed s k d" and q0: "quorum_ids (pm_commit_quorums s) (k, d) = {}"
    by (simp_all add: is_committed_def quorum_len_def quorum_ids_def)
  have "\<exists>q. main_run msgs s = Inr (execute_next (last (pm_log s)) (s\<lparr>pm_commit_quorums := q\<rparr>, [])) \<and>
    (\<forall>key. key \<noteq> (k, d) \<longrightarrow> q key = pm_commit_quorums s key)"
    by (rule commits_run [OF assms(4,5,3) nc _ u(3) [symmetric] _ _ _ _ assms(8)])
       (use assms(1,6,7) u q0 in \<open>simp_all add: in_round_def d\<close>)
  then obtain q where q: "main_run msgs s = Inr (execute_next e (s\<lparr>pm_commit_quorums := q\<rparr>, []))"
    "\<And>key. key \<noteq> (k, d) \<Longrightarrow> q key = pm_commit_quorums s key"
    using assms(1) by (auto simp: in_round_def)
  let ?s = "s\<lparr>pm_commit_quorums := q, pm_execute_number := k\<rparr>"
  let ?io = "execute_request m (?s, [])"
  have x: "execute_next e (s\<lparr>pm_commit_quorums := q\<rparr>, []) = ?io"
    using assms(9) u(3) by (simp add: execute_next_def execute_batch_def)
  have "exec_frame (?s, []) ?io" by (rule execute_request_exec_frame)
  moreover have "pm_execute_number (fst ?io) = k" using execute_request_number [of m "(?s, [])"] by simp
  moreover have "caught_up op (es @ [e]) ?s"
  proof -
    have ne: "n \<noteq> k" if "Suc (length es) < unat n" for n using that u(1) by auto
    then have "pm_prepare_quorums s (n, d') = None \<and> q (n, d') = None" if "Suc (length es) < unat n" for n d'
      using that assms(1,2) q(2) [of "(n, d')"] by (auto simp: in_round_def)
    with assms(1) show ?thesis by (simp add: caught_up_def in_round_def k)
  qed
  ultimately have "caught_up op (es @ [e]) (fst ?io)"
    by (simp add: caught_up_def exec_frame_def Let_def k)
  moreover have "snd ?io = [SendReply (rq_addr m) (reply_of s (length es) m)]"
    using assms(10)
    by (auto simp: execute_request_def request_new_def reply_of_def k Let_def not_le
        split: option.splits prod.splits)
  ultimately show ?thesis
    using q(1) x by (intro exI [of _ "fst ?io"]) (metis prod.collapse)
qed

end
