(* ===== verification/Pbft_System_Round.thy ===== *)
theory Pbft_System_Round
  imports Pbft_System_Runs Pbft_Round
begin

text \<open>
  Rounds of a system in which every replica is correct: each replica handles the proposal, then the
  prepares, then the commits.  All replicas execute the request and reply, and the system is ready
  for the next one.
\<close>

section \<open>The deployment\<close>

definition all_correct :: "externals \<Rightarrow> transport_config \<Rightarrow> (nat \<Rightarrow> replica_common) \<Rightarrow> bool" where
  "all_correct X cfg common \<longleftrightarrow> system_ok X cfg common {..<tc_n cfg} \<and> pbft_ext_ok X \<and>
     (\<forall>i < tc_n cfg. tx_ok X (rc_tx (common i))) \<and> 0 < tc_f cfg \<and> 2 * tc_f cfg < tc_n cfg"

abbreviation all_reach :: "externals \<Rightarrow> transport_config \<Rightarrow> (nat \<Rightarrow> replica_common) \<Rightarrow> system \<Rightarrow> bool" where
  "all_reach X cfg common \<equiv> sys_reach X cfg common {..<tc_n cfg}"

lemma all_correctD:
  assumes "all_correct X cfg common"
  shows "system_ok X cfg common {..<tc_n cfg}" "pbft_ext_ok X" "0 < tc_f cfg" "2 * tc_f cfg < tc_n cfg"
    "tc_n cfg < 256" "length (tc_public_keys cfg) = tc_n cfg"
    "\<And>i. i < tc_n cfg \<Longrightarrow> tx_ok X (rc_tx (common i))"
proof -
  show ok: "system_ok X cfg common {..<tc_n cfg}" "pbft_ext_ok X" "0 < tc_f cfg" "2 * tc_f cfg < tc_n cfg"
    "\<And>i. i < tc_n cfg \<Longrightarrow> tx_ok X (rc_tx (common i))"
    using assms by (auto simp: all_correct_def)
  from ok(4) have "0 \<in> {..<tc_n cfg}" by simp
  from system_okD [OF ok(1) this] show "tc_n cfg < 256" "length (tc_public_keys cfg) = tc_n cfg"
    by (auto simp: deploy_ok_def)
qed

lemma u8_of_nat: "i < 256 \<Longrightarrow> unat (of_nat i :: u8) = i"
  by (simp add: unat_of_nat take_bit_nat_def)

lemma u8_of_nat_eq: "i < 256 \<Longrightarrow> j < 256 \<Longrightarrow> (of_nat i :: u8) = of_nat j \<longleftrightarrow> i = j"
  using u8_of_nat by metis

lemma all_reach_node:
  assumes "all_correct X cfg common" and "all_reach X cfg common s" and "i < tc_n cfg"
  shows "pm_id (nd_main (sy_node s i)) = of_nat i" "pm_config (nd_main (sy_node s i)) = cfg"
    "pm_view_number (nd_main (sy_node s i)) = 0" "is_primary (nd_main (sy_node s i)) = Inr (i = 0)"
    "length (pm_log (nd_main (sy_node s i))) < 2 ^ 32 \<Longrightarrow> pmain_executed Null (nd_main (sy_node s i))"
proof -
  note ok = all_correctD [OF assms(1)]
  have i: "i \<in> {..<tc_n cfg}" using assms(3) by simp
  note nd = sys_inv_node_inv [OF sys_reach_inv [OF assms(2) ok(1,2)] i]
  note c = system_okD [OF ok(1) i]
  show f: "pm_id (nd_main (sy_node s i)) = of_nat i" "pm_config (nd_main (sy_node s i)) = cfg"
    "pm_view_number (nd_main (sy_node s i)) = 0"
    using node_inv_later [OF nd] c by (simp_all add: later_def pmain_new_def)
  have "(of_nat (tc_n cfg) :: u8) \<noteq> 0"
    using u8_of_nat [OF ok(5)] ok(4) by (metis gr_implies_not0 unsigned_0)
  moreover have "(of_nat i :: u8) = 0 \<longleftrightarrow> i = 0"
    using u8_of_nat_eq [of i 0] assms(3) ok(5) by simp
  ultimately show "is_primary (nd_main (sy_node s i)) = Inr (i = 0)"
    using f by (simp add: is_primary_def rem_u8_def)
  obtain msgs where "main_run msgs (pmain_new (common i)) = Inr (nd_main (sy_node s i), nd_sent (sy_node s i))"
    using node_inv_run [OF nd] by blast
  then show "pmain_executed Null (nd_main (sy_node s i))"
    if "length (pm_log (nd_main (sy_node s i))) < 2 ^ 32"
    using main_run_executed [OF _ pmain_new_executed that, of msgs "common i"] c(3) by simp
qed

section \<open>Phases\<close>

text \<open>Replica \<open>i\<close> can handle \<open>msgs\<close>: they have arrived, or can be delivered.\<close>

definition can_run ::
  "externals \<Rightarrow> transport_config \<Rightarrow> system \<Rightarrow> nat \<Rightarrow> to_main list \<Rightarrow> main_io \<Rightarrow> bool" where
  "can_run X cfg s i msgs io \<longleftrightarrow> nd_to_crypto (sy_node s i) = {#} \<and>
     (\<forall>m. Verified m \<in> set msgs \<longrightarrow> acceptable X (tc_public_keys cfg) {..<tc_n cfg} (sy_signed s) m) \<and>
     mset (filter is_own msgs) \<subseteq># nd_to_main (sy_node s i) \<and>
     main_run msgs (nd_main (sy_node s i)) = Inr io"

text \<open>Every replica handles its messages of one phase, one replica after the other.\<close>

lemma phase:
  assumes ok: "all_correct X cfg common" and "all_reach X cfg common s"
    and run: "\<And>i. i < tc_n cfg \<Longrightarrow> can_run X cfg s i (msgs i) (io i)"
  shows "\<exists>s'. all_reach X cfg common s' \<and> (\<forall>i < tc_n cfg.
      sy_node s' i = node_ran X (common i) (msgs i) (io i) (sy_node s i) \<and>
      sy_signed s' i = sy_signed s i \<union> node_hashes X (common i) (snd (io i)))"
proof -
  note c = all_correctD [OF ok]
  have "\<exists>s'. all_reach X cfg common s' \<and> (\<forall>i.
      sy_node s' i = (if i < k then node_ran X (common i) (msgs i) (io i) (sy_node s i) else sy_node s i) \<and>
      sy_signed s' i = (if i < k then sy_signed s i \<union> node_hashes X (common i) (snd (io i)) else sy_signed s i))"
    if "k \<le> tc_n cfg" for k
    using that
  proof (induction k)
    case 0
    with assms(2) show ?case by (intro exI [of _ s]) simp
  next
    case (Suc k)
    then obtain t where t: "all_reach X cfg common t" "\<And>i. sy_node t i =
        (if i < k then node_ran X (common i) (msgs i) (io i) (sy_node s i) else sy_node s i)"
      "\<And>i. sy_signed t i =
        (if i < k then sy_signed s i \<union> node_hashes X (common i) (snd (io i)) else sy_signed s i)"
      by auto
    have k: "k \<in> {..<tc_n cfg}" "k < tc_n cfg" using Suc.prems by simp_all
    note r = run [OF k(2), unfolded can_run_def]
    have mono: "sy_signed s j \<subseteq> sy_signed t j" for j by (simp add: t(3))
    have "all_reach X cfg common (sys_ran X common (msgs k) (io k) k t)"
      by (rule sys_ran_run [OF t(1) k(1) c(1,2) c(7) [OF k(2)]])
         (use r in \<open>auto simp: t(2) intro: acceptable_mono [OF _ mono]\<close>)
    then show ?case
      by (intro exI [of _ "sys_ran X common (msgs k) (io k) k t"] conjI) (auto simp: sys_ran_def t(2,3))
  qed
  from this [of "tc_n cfg"] show ?thesis by fastforce
qed

text \<open>The message that becomes of a message to sign, and that the others accept.\<close>

lemma signed_message:
  assumes "all_correct X cfg common" and "i < tc_n cfg" and "is_send_signed c"
    and "claimed_signer (tc_public_keys cfg) c = i"
  shows "\<exists>m. own_signed X (common i) [c] = [Signed m] \<and>
    signed_as X (py_secret_key (crypto_of (common i))) c m \<and>
    (\<forall>hs. node_hashes X (common i) [c] \<subseteq> hs i \<longrightarrow>
       acceptable X (tc_public_keys cfg) {..<tc_n cfg} hs m)"
proof -
  note ok = all_correctD [OF assms(1)]
  have "i \<in> {..<tc_n cfg}" using assms(2) by simp
  note d = system_okD [OF ok(1) this]
  let ?y = "crypto_of (common i)" and ?sk = "py_secret_key (crypto_of (common i))"
  have "tx_ok X (py_tx ?y)" using ok(7) [OF assms(2)] by (simp add: crypto_of_def)
  from crypto_handle_sends_ok [OF ok(2) assms(3) this] obtain ms out
    where h: "crypto_handle X ?y c = Inr (ms, out)" by auto
  from crypto_handle_signs [OF h assms(3)] obtain m where m: "ms = [Signed m]" "signed_as X ?sk c m"
    by blast
  have own: "own_signed X (common i) [c] = [Signed m]" by (simp add: own_signed_def h m)
  have a: "authentic X (tc_public_keys cfg) m"
    by (rule signed_as_authentic [OF ok(2) m(2)])
       (use d assms(2,4) ok(6) in \<open>auto simp: deploy_ok_def crypto_of_def\<close>)
  obtain b where b: "signed_bytes X m = Some b" using m(2) by (auto simp: signed_as_def)
  have "node_hashes X (common i) [c] = {sc_hash X b}"
    by (auto simp: node_hashes_def h m signed_hashes_def b)
  moreover have "signer (tc_public_keys cfg) m = i" using signed_as_signer [OF m(2)] assms(4) by simp
  ultimately have "\<forall>hs. node_hashes X (common i) [c] \<subseteq> hs i \<longrightarrow>
      acceptable X (tc_public_keys cfg) {..<tc_n cfg} hs m"
    using a b by (simp add: acceptable_def)
  with own m(2) show ?thesis by blast
qed

section \<open>The phases of a round\<close>

text \<open>A replica between two rounds, with nothing on the way.\<close>

definition idle_node :: "u32 \<Rightarrow> log_entry list \<Rightarrow> node \<Rightarrow> bool" where
  "idle_node op es nd \<longleftrightarrow> caught_up op es (nd_main nd) \<and> nd_to_main nd = {#} \<and> nd_to_crypto nd = {#}"

text \<open>Replica 0 is the primary of view 0 and has made all the proposals.\<close>

definition made :: "nat \<Rightarrow> nat \<Rightarrow> u32" where
  "made i k = (if i = 0 then of_nat k else 0)"

lemmas node_ran_simps [simp] = node_ran_def [THEN arg_cong, of nd_main, simplified]
  node_ran_def [THEN arg_cong, of nd_to_main, simplified]
  node_ran_def [THEN arg_cong, of nd_to_crypto, simplified]
  node_ran_def [THEN arg_cong, of nd_sent, simplified]

text \<open>The first phase: the primary proposes the request.\<close>

lemma propose_phase:
  assumes ok: "all_correct X cfg common" and s: "all_reach X cfg common s"
    and idle: "\<And>i. i < tc_n cfg \<Longrightarrow> idle_node (made i (length es)) es (sy_node s i)"
    and small: "length es + 6 < 2 ^ 32" and fresh: "request_new (nd_main (sy_node s 0)) m"
  shows "\<exists>s' pp. all_reach X cfg common s' \<and>
    pp_view_number (sg_inner pp) = 0 \<and> pp_op_number (sg_inner pp) = of_nat (Suc (length es)) \<and>
    acceptable X (tc_public_keys cfg) {..<tc_n cfg} (sy_signed s') (PrePrepare pp [m]) \<and>
    (\<forall>i < tc_n cfg. caught_up (made i (Suc (length es))) es (nd_main (sy_node s' i)) \<and>
       nd_to_main (sy_node s' i) = (if i = 0 then {#Signed (PrePrepare pp [m])#} else {#}) \<and>
       nd_to_crypto (sy_node s' i) = {#} \<and> set (nd_sent (sy_node s i)) \<subseteq> set (nd_sent (sy_node s' i)))"
proof -
  note c = all_correctD [OF ok]
  let ?p = "\<lparr>pp_view_number = 0, pp_op_number = of_nat (Suc (length es)), pp_request_digest = default_digest\<rparr>"
  have z: "0 < tc_n cfg" using c(4) by simp
  note n = all_reach_node [OF ok s z]
  from idle [OF z] have "caught_up (of_nat (length es)) es (nd_main (sy_node s 0))"
    by (simp add: idle_node_def made_def)
  from caught_up_request [OF this fresh _ small] n obtain s0
    where h: "main_handle (Verified (Request m)) (nd_main (sy_node s 0)) = Inr (s0, [SendPrePrepare ?p [m]])"
    and s0: "caught_up (of_nat (Suc (length es))) es s0" by auto
  have "length (tc_public_keys cfg) \<noteq> 0" using c(6) z by simp
  then obtain q where q: "own_signed X (common 0) [SendPrePrepare ?p [m]] = [Signed q]"
    "signed_as X (py_secret_key (crypto_of (common 0))) (SendPrePrepare ?p [m]) q"
    "\<And>hs. node_hashes X (common 0) [SendPrePrepare ?p [m]] \<subseteq> hs 0 \<Longrightarrow>
       acceptable X (tc_public_keys cfg) {..<tc_n cfg} hs q"
    using signed_message [OF ok z, of "SendPrePrepare ?p [m]"] by auto
  from q(2) obtain pp where pp: "q = PrePrepare pp [m]"
    "?p\<lparr>pp_request_digest := pp_request_digest (sg_inner pp)\<rparr> = sg_inner pp"
    by (auto simp: signed_as_def)
  let ?msgs = "\<lambda>i :: nat. if i = 0 then [Verified (Request m)] else []"
  let ?io = "\<lambda>i :: nat. if i = 0 then (s0, [SendPrePrepare ?p [m]]) else (nd_main (sy_node s i), [])"
  have "can_run X cfg s i (?msgs i) (?io i)" if "i < tc_n cfg" for i
    using idle [OF that] h by (auto simp: can_run_def idle_node_def acceptable_def)
  from phase [OF ok s, of ?msgs ?io, OF this] obtain s' where s': "all_reach X cfg common s'"
    "\<And>i. i < tc_n cfg \<Longrightarrow> sy_node s' i = node_ran X (common i) (?msgs i) (?io i) (sy_node s i)"
    "\<And>i. i < tc_n cfg \<Longrightarrow> sy_signed s' i = sy_signed s i \<union> node_hashes X (common i) (snd (?io i))"
    by blast
  have "acceptable X (tc_public_keys cfg) {..<tc_n cfg} (sy_signed s') q"
    by (rule q(3)) (simp add: s'(3) [OF z])
  moreover have "pp_view_number (sg_inner pp) = 0 \<and> pp_op_number (sg_inner pp) = of_nat (Suc (length es))"
    using pp(2) by (metis pre_prepare.select_convs(1,2) pre_prepare.update_convs(3))
  moreover have "caught_up (made i (Suc (length es))) es (nd_main (sy_node s' i)) \<and>
       nd_to_main (sy_node s' i) = (if i = 0 then {#Signed (PrePrepare pp [m])#} else {#}) \<and>
       nd_to_crypto (sy_node s' i) = {#} \<and> set (nd_sent (sy_node s i)) \<subseteq> set (nd_sent (sy_node s' i))"
    if "i < tc_n cfg" for i
    using idle [OF that] s0 by (auto simp: s'(2) [OF that] idle_node_def made_def q(1) pp(1) simp del: of_nat_Suc)
  ultimately show ?thesis using s'(1) pp(1) by blast
qed

text \<open>
  A message the thread asked to sign, and what is known about the signed message.
\<close>

lemma signed_prepare:
  assumes "all_correct X cfg common" and "i < tc_n cfg" and "pr_replica_id p = of_nat i"
  obtains q where "own_signed X (common i) [SendPrepare p] = [Signed (Prepare q)]" and "sg_inner q = p"
    and "\<And>hs. node_hashes X (common i) [SendPrepare p] \<subseteq> hs i \<Longrightarrow>
      acceptable X (tc_public_keys cfg) {..<tc_n cfg} hs (Prepare q)"
proof -
  have "claimed_signer (tc_public_keys cfg) (SendPrepare p) = i"
    using assms u8_of_nat [of i] all_correctD(5) [OF assms(1)] by simp
  from signed_message [OF assms(1,2) _ this] that show ?thesis by (auto simp: signed_as_def)
qed

lemma signed_commit:
  assumes "all_correct X cfg common" and "i < tc_n cfg" and "ct_replica_id p = of_nat i"
  obtains q where "own_signed X (common i) [SendCommit p] = [Signed (Commit q)]" and "sg_inner q = p"
    and "\<And>hs. node_hashes X (common i) [SendCommit p] \<subseteq> hs i \<Longrightarrow>
      acceptable X (tc_public_keys cfg) {..<tc_n cfg} hs (Commit q)"
proof -
  have "claimed_signer (tc_public_keys cfg) (SendCommit p) = i"
    using assms u8_of_nat [of i] all_correctD(5) [OF assms(1)] by simp
  from signed_message [OF assms(1,2) _ this] that show ?thesis by (auto simp: signed_as_def)
qed

text \<open>The second phase: every replica logs the proposal, and the backups prepare it.\<close>

definition prepare_at :: "u32 \<times> digest \<Rightarrow> nat \<Rightarrow> prepare" where
  "prepare_at key i = \<lparr>pr_view_number = 0, pr_op_number = fst key, pr_request_digest = snd key,
     pr_replica_id = of_nat i\<rparr>"

definition commit_at :: "u32 \<times> digest \<Rightarrow> nat \<Rightarrow> commit" where
  "commit_at key i = \<lparr>ct_view_number = 0, ct_op_number = fst key, ct_request_digest = snd key,
     ct_replica_id = of_nat i\<rparr>"

lemma vote_at_simps [simp]:
  "pr_view_number (prepare_at key i) = 0" "pr_op_number (prepare_at key i) = fst key"
  "pr_request_digest (prepare_at key i) = snd key" "pr_replica_id (prepare_at key i) = of_nat i"
  "ct_view_number (commit_at key i) = 0" "ct_op_number (commit_at key i) = fst key"
  "ct_request_digest (commit_at key i) = snd key" "ct_replica_id (commit_at key i) = of_nat i"
  by (simp_all add: prepare_at_def commit_at_def)

lemma log_phase:
  assumes ok: "all_correct X cfg common" and s: "all_reach X cfg common s"
    and pp: "pp_view_number (sg_inner pp) = 0" "pp_op_number (sg_inner pp) = of_nat (Suc (length es))"
    and acc: "acceptable X (tc_public_keys cfg) {..<tc_n cfg} (sy_signed s) (PrePrepare pp rqs)"
    and small: "length es + 6 < 2 ^ 32"
    and nodes: "\<And>i. i < tc_n cfg \<Longrightarrow> caught_up (made i (Suc (length es))) es (nd_main (sy_node s i)) \<and>
       nd_to_main (sy_node s i) = (if i = 0 then {#Signed (PrePrepare pp rqs)#} else {#}) \<and>
       nd_to_crypto (sy_node s i) = {#}"
    and e: "e = \<lparr>le_pre_prepare = pp, le_requests = rqs\<rparr>"
  shows "\<exists>s' p. all_reach X cfg common s' \<and>
    (\<forall>i < tc_n cfg. in_round (made i (Suc (length es))) es e (nd_main (sy_node s' i)) \<and>
       \<not> is_prepared (nd_main (sy_node s' i)) (fst (entry_key es e)) (snd (entry_key es e)) \<and>
       nd_to_main (sy_node s' i) = (if i = 0 then {#} else {#Signed (Prepare (p i))#}) \<and>
       nd_to_crypto (sy_node s' i) = {#} \<and> set (nd_sent (sy_node s i)) \<subseteq> set (nd_sent (sy_node s' i)) \<and>
       (0 < i \<longrightarrow> sg_inner (p i) = prepare_at (entry_key es e) i \<and>
          acceptable X (tc_public_keys cfg) {..<tc_n cfg} (sy_signed s') (Prepare (p i))))"
proof -
  note c = all_correctD [OF ok]
  let ?key = "entry_key es e"
  have key: "?key = (of_nat (Suc (length es)), pp_request_digest (sg_inner pp))"
    by (simp add: entry_key_def e)
  let ?out = "\<lambda>i. if i = 0 then [] else [SendPrepare (prepare_at ?key i)]"
  have "\<exists>q. 0 < i \<longrightarrow> own_signed X (common i) [SendPrepare (prepare_at ?key i)] = [Signed (Prepare q)] \<and>
      sg_inner q = prepare_at ?key i \<and> (\<forall>hs. node_hashes X (common i) [SendPrepare (prepare_at ?key i)] \<subseteq> hs i \<longrightarrow>
        acceptable X (tc_public_keys cfg) {..<tc_n cfg} hs (Prepare q))" if "i < tc_n cfg" for i
    by (rule signed_prepare [OF ok that, of "prepare_at ?key i"]) (simp, blast)
  then obtain p where p: "\<And>i. i < tc_n cfg \<Longrightarrow> 0 < i \<Longrightarrow>
      own_signed X (common i) [SendPrepare (prepare_at ?key i)] = [Signed (Prepare (p i))] \<and>
      sg_inner (p i) = prepare_at ?key i \<and> (\<forall>hs. node_hashes X (common i) [SendPrepare (prepare_at ?key i)] \<subseteq> hs i \<longrightarrow>
        acceptable X (tc_public_keys cfg) {..<tc_n cfg} hs (Prepare (p i)))"
    by metis
  let ?msg = "\<lambda>i. if i = 0 then Signed (PrePrepare pp rqs) else Verified (PrePrepare pp rqs)"
  have "\<exists>main. main_handle (?msg i) (nd_main (sy_node s i)) = Inr (main, ?out i) \<and>
      in_round (made i (Suc (length es))) es e main \<and> \<not> is_prepared main (fst ?key) (snd ?key)"
    if "i < tc_n cfg" for i
  proof -
    note n = all_reach_node [OF ok s that]
    have "msg_of (?msg i) = PrePrepare pp rqs" by simp
    from caught_up_proposal [OF conjunct1 [OF nodes [OF that]] this n(4)] pp small c(3) n(1-3)
    show ?thesis by (auto simp: key prepare_at_def simp flip: e simp del: of_nat_Suc)
  qed
  then obtain main where main: "\<And>i. i < tc_n cfg \<Longrightarrow>
      main_handle (?msg i) (nd_main (sy_node s i)) = Inr (main i, ?out i) \<and>
      in_round (made i (Suc (length es))) es e (main i) \<and> \<not> is_prepared (main i) (fst ?key) (snd ?key)"
    by metis
  have "can_run X cfg s i [?msg i] (main i, ?out i)" if "i < tc_n cfg" for i
    using nodes [OF that] main [OF that] acc by (auto simp: can_run_def)
  from phase [OF ok s, of "\<lambda>i. [?msg i]" "\<lambda>i. (main i, ?out i)", OF this]
  obtain s' where s': "all_reach X cfg common s'"
    "\<And>i. i < tc_n cfg \<Longrightarrow> sy_node s' i = node_ran X (common i) [?msg i] (main i, ?out i) (sy_node s i)"
    "\<And>i. i < tc_n cfg \<Longrightarrow> sy_signed s' i = sy_signed s i \<union> node_hashes X (common i) (?out i)"
    by auto
  have "acceptable X (tc_public_keys cfg) {..<tc_n cfg} (sy_signed s') (Prepare (p i))"
    if "i < tc_n cfg" "0 < i" for i
    using p [OF that] that s'(3) [OF that(1)] by auto
  then show ?thesis
    using main p nodes s'(1) by (intro exI [of _ s'] exI [of _ p]) (auto simp: s'(2))
qed

text \<open>The votes replica \<open>i\<close> is sent by the others among \<open>is\<close>.\<close>

definition others :: "nat \<Rightarrow> nat list \<Rightarrow> nat list" where
  "others i is = filter (\<lambda>j. j \<noteq> i) is"

lemma vote_ids_card:
  assumes "n < 256" and "set is \<subseteq> {..<n}" and "distinct is"
  shows "card ((\<lambda>j. of_nat j :: u8) ` set is) = length is"
proof -
  have "inj_on (\<lambda>j. of_nat j :: u8) (set is)"
  proof (rule inj_onI)
    fix i j assume "i \<in> set is" "j \<in> set is" "(of_nat i :: u8) = of_nat j"
    moreover from this assms(1,2) have "i < 256" "j < 256" by auto
    ultimately show "i = j" using u8_of_nat_eq by blast
  qed
  then show ?thesis using assms(3) by (simp add: card_image distinct_card)
qed

text \<open>The third phase: every replica counts the prepares and commits.\<close>

lemma prepare_phase:
  assumes ok: "all_correct X cfg common" and s: "all_reach X cfg common s"
    and small: "length es + 6 < 2 ^ 32"
    and nodes: "\<And>i. i < tc_n cfg \<Longrightarrow> in_round (op i) es e (nd_main (sy_node s i)) \<and>
       \<not> is_prepared (nd_main (sy_node s i)) (fst (entry_key es e)) (snd (entry_key es e)) \<and>
       nd_to_main (sy_node s i) = (if i = 0 then {#} else {#Signed (Prepare (p i))#}) \<and>
       nd_to_crypto (sy_node s i) = {#} \<and>
       (0 < i \<longrightarrow> sg_inner (p i) = prepare_at (entry_key es e) i \<and>
          acceptable X (tc_public_keys cfg) {..<tc_n cfg} (sy_signed s) (Prepare (p i)))"
  shows "\<exists>s' q. all_reach X cfg common s' \<and>
    (\<forall>i < tc_n cfg. in_round (op i) es e (nd_main (sy_node s' i)) \<and>
       is_prepared (nd_main (sy_node s' i)) (fst (entry_key es e)) (snd (entry_key es e)) \<and>
       nd_to_main (sy_node s' i) = {#Signed (Commit (q i))#} \<and>
       nd_to_crypto (sy_node s' i) = {#} \<and> set (nd_sent (sy_node s i)) \<subseteq> set (nd_sent (sy_node s' i)) \<and>
       sg_inner (q i) = commit_at (entry_key es e) i \<and>
       acceptable X (tc_public_keys cfg) {..<tc_n cfg} (sy_signed s') (Commit (q i)))"
proof -
  note c = all_correctD [OF ok]
  let ?key = "entry_key es e" and ?n = "tc_n cfg"
  let ?msgs = "\<lambda>i. (if i = 0 then [] else [Signed (Prepare (p i))]) @
    map (\<lambda>j. Verified (Prepare (p j))) (others i [1..<?n])"
  let ?ps = "\<lambda>i. (if i = 0 then [] else [p i]) @ map p (others i [1..<?n])"
  let ?out = "\<lambda>i. [SendCommit (commit_at ?key i)]"
  have "\<exists>q. own_signed X (common i) (?out i) = [Signed (Commit q)] \<and>
      sg_inner q = commit_at ?key i \<and> (\<forall>hs. node_hashes X (common i) (?out i) \<subseteq> hs i \<longrightarrow>
        acceptable X (tc_public_keys cfg) {..<?n} hs (Commit q))" if "i < ?n" for i
    by (rule signed_commit [OF ok that, of "commit_at ?key i"]) (simp, blast)
  then obtain q where q: "\<And>i. i < ?n \<Longrightarrow> own_signed X (common i) (?out i) = [Signed (Commit (q i))] \<and>
      sg_inner (q i) = commit_at ?key i \<and> (\<forall>hs. node_hashes X (common i) (?out i) \<subseteq> hs i \<longrightarrow>
        acceptable X (tc_public_keys cfg) {..<?n} hs (Commit (q i)))"
    by metis
  have "\<exists>main. main_run (?msgs i) (nd_main (sy_node s i)) = Inr (main, ?out i) \<and>
      in_round (op i) es e main \<and> is_prepared main (fst ?key) (snd ?key)" if i: "i < ?n" for i
  proof -
    note n = all_reach_node [OF ok s i]
    have set: "set (?ps i) = p ` {1..<?n}" using i by (auto simp: others_def)
    have inner: "sg_inner (p j) = prepare_at ?key j" if "j \<in> {1..<?n}" for j
      using nodes [of j] that by auto
    have "prepare_ids (?ps i) = (\<lambda>j. of_nat j) ` set [1..<?n]"
      unfolding prepare_ids_def set image_image by (auto simp: inner)
    then have "card (prepare_ids (?ps i)) = ?n - 1"
      using vote_ids_card [of ?n "[1..<?n]"] c(5) by (simp add: subset_iff)
    then have enough: "2 * tc_f (pm_config (nd_main (sy_node s i))) \<le> card (prepare_ids (?ps i))"
      using c(4) n(2) by simp
    have votes: "\<forall>x \<in> set (?ps i). prepare_for (nd_main (sy_node s i)) (fst ?key) (snd ?key) x"
      unfolding set by (auto simp: prepare_for_def inner n(3))
    have msgs: "map msg_of (?msgs i) = map Prepare (?ps i)" by (simp add: comp_def)
    have "own_commit (nd_main (sy_node s i)) (fst ?key) (snd ?key) = SendCommit (commit_at ?key i)"
      using n(1,3) by (simp add: own_commit_def commit_at_def)
    with in_round_prepares [OF _ _ _ msgs votes enough, of "op i" es e] nodes [OF i] small
    show ?thesis by auto
  qed
  then obtain main where main: "\<And>i. i < ?n \<Longrightarrow>
      main_run (?msgs i) (nd_main (sy_node s i)) = Inr (main i, ?out i) \<and>
      in_round (op i) es e (main i) \<and> is_prepared (main i) (fst ?key) (snd ?key)"
    by metis
  have own: "filter is_own (?msgs i) = (if i = 0 then [] else [Signed (Prepare (p i))])" for i
    by (simp add: filter_empty_conv)
  have "can_run X cfg s i (?msgs i) (main i, ?out i)" if "i < ?n" for i
    unfolding can_run_def own using nodes [OF that] main [OF that] nodes
    by (auto simp: others_def)
  from phase [OF ok s, of ?msgs "\<lambda>i. (main i, ?out i)", OF this]
  obtain s' where s': "all_reach X cfg common s'"
    "\<And>i. i < ?n \<Longrightarrow> sy_node s' i = node_ran X (common i) (?msgs i) (main i, ?out i) (sy_node s i)"
    "\<And>i. i < ?n \<Longrightarrow> sy_signed s' i = sy_signed s i \<union> node_hashes X (common i) (?out i)"
    by auto
  have "nd_to_main (sy_node s' i) = {#Signed (Commit (q i))#}" if "i < ?n" for i
    using nodes [OF that] q [OF that] own [of i] by (simp add: s'(2) [OF that] del: filter_append)
  moreover have "acceptable X (tc_public_keys cfg) {..<?n} (sy_signed s') (Commit (q i))"
    if "i < ?n" for i
    using q [OF that] s'(3) [OF that] by auto
  moreover have "nd_main (sy_node s' i) = main i \<and> nd_to_crypto (sy_node s' i) = {#} \<and>
      set (nd_sent (sy_node s i)) \<subseteq> set (nd_sent (sy_node s' i))" if "i < ?n" for i
    by (auto simp: s'(2) [OF that])
  ultimately show ?thesis
    using main q s'(1) by (intro exI [of _ s'] exI [of _ q]) auto
qed

text \<open>The fourth phase: every replica counts the commits, executes the request and replies.\<close>

definition normal_reply :: "nat \<Rightarrow> nat \<Rightarrow> request \<Rightarrow> reply" where
  "normal_reply i k m = \<lparr>rp_request_number = rq_request_number m,
     rp_result = snd (app_execute Null (of_nat (Suc k)) (rq_op m)),
     rp_replica_id = of_nat i, rp_view_number = 0\<rparr>"

lemma request_new_fresh:
  assumes "pmain_executed Null s" and "unat (pm_execute_number s) = length es" and "pm_log s = es @ es'"
    and "svc_fresh m (log_history Null es (length es))"
  shows "request_new s m"
proof -
  have "table_sim (pm_app s) (pm_client_table s) (log_history Null es (length es))"
    using assms(1-3) log_history_append [of "length es" es Null es'] by (simp add: pmain_executed_def)
  with assms(4) show ?thesis by (simp add: table_sim_fresh request_new_def)
qed

lemma commit_phase:
  assumes ok: "all_correct X cfg common" and s: "all_reach X cfg common s"
    and small: "length es + 6 < 2 ^ 32" and e: "le_requests e = [m]"
    and fresh: "svc_fresh m (log_history Null es (length es))"
    and nodes: "\<And>i. i < tc_n cfg \<Longrightarrow> in_round (op i) es e (nd_main (sy_node s i)) \<and>
       is_prepared (nd_main (sy_node s i)) (fst (entry_key es e)) (snd (entry_key es e)) \<and>
       nd_to_main (sy_node s i) = {#Signed (Commit (q i))#} \<and> nd_to_crypto (sy_node s i) = {#} \<and>
       sg_inner (q i) = commit_at (entry_key es e) i \<and>
       acceptable X (tc_public_keys cfg) {..<tc_n cfg} (sy_signed s) (Commit (q i))"
  shows "\<exists>s'. all_reach X cfg common s' \<and>
    (\<forall>i < tc_n cfg. idle_node (op i) (es @ [e]) (sy_node s' i) \<and>
       set (nd_sent (sy_node s i)) \<subseteq> set (nd_sent (sy_node s' i)) \<and>
       SendReply (rq_addr m) (normal_reply i (length es) m) \<in> set (nd_sent (sy_node s' i)))"
proof -
  note c = all_correctD [OF ok]
  let ?key = "entry_key es e" and ?n = "tc_n cfg"
  let ?msgs = "\<lambda>i. Signed (Commit (q i)) # map (\<lambda>j. Verified (Commit (q j))) (others i [0..<?n])"
  let ?cs = "\<lambda>i. q i # map q (others i [0..<?n])"
  let ?out = "\<lambda>i. [SendReply (rq_addr m) (normal_reply i (length es) m)]"
  have "\<exists>main. main_run (?msgs i) (nd_main (sy_node s i)) = Inr (main, ?out i) \<and>
      caught_up (op i) (es @ [e]) main" if i: "i < ?n" for i
  proof -
    let ?main = "nd_main (sy_node s i)"
    note n = all_reach_node [OF ok s i]
    have set: "set (?cs i) = q ` {0..<?n}" using i by (auto simp: others_def)
    have inner: "sg_inner (q j) = commit_at ?key j" if "j \<in> {0..<?n}" for j
      using nodes [of j] that by auto
    have "commit_ids (?cs i) = (\<lambda>j. of_nat j) ` set [0..<?n]"
      unfolding commit_ids_def set image_image by (auto simp: inner)
    then have "card (commit_ids (?cs i)) = ?n"
      using vote_ids_card [of ?n "[0..<?n]"] c(5) by (simp add: subset_iff)
    then have enough: "2 * tc_f (pm_config ?main) < card (commit_ids (?cs i))"
      using c(4) n(2) by simp
    have votes: "\<forall>x \<in> set (?cs i). commit_for ?main (fst ?key) (snd ?key) x"
      unfolding set by (auto simp: commit_for_def inner n(3))
    have msgs: "map msg_of (?msgs i) = map Commit (?cs i)" by (simp add: comp_def)
    have r: "in_round (op i) es e ?main" "is_prepared ?main (fst ?key) (snd ?key)"
      using nodes [OF i] by simp_all
    then have l: "pm_log ?main = es @ [e]" "unat (pm_execute_number ?main) = length es"
      using small by (simp_all add: in_round_def unat_of_nat take_bit_nat_def)
    then have "request_new ?main m"
      using request_new_fresh [OF n(5) l(2,1) fresh] small by simp
    from in_round_commits [OF r(1) _ r(2) msgs votes enough _ n(4) e this] small
    have "\<exists>main. main_run (?msgs i) ?main =
        Inr (main, [SendReply (rq_addr m) (reply_of ?main (length es) m)]) \<and>
      caught_up (op i) (es @ [e]) main" by simp
    moreover have "reply_of ?main (length es) m = normal_reply i (length es) m"
      using n(1,3) by (cases "pm_app ?main") (simp add: reply_of_def normal_reply_def)
    ultimately show ?thesis by simp
  qed
  then obtain main where main: "\<And>i. i < ?n \<Longrightarrow>
      main_run (?msgs i) (nd_main (sy_node s i)) = Inr (main i, ?out i) \<and>
      caught_up (op i) (es @ [e]) (main i)"
    by metis
  have own: "filter is_own (?msgs i) = [Signed (Commit (q i))]" for i
    by (simp add: filter_empty_conv)
  have "can_run X cfg s i (?msgs i) (main i, ?out i)" if "i < ?n" for i
    unfolding can_run_def own using nodes [OF that] main [OF that] nodes
    by (auto simp: others_def)
  from phase [OF ok s, of ?msgs "\<lambda>i. (main i, ?out i)", OF this]
  obtain s' where s': "all_reach X cfg common s'"
    "\<And>i. i < ?n \<Longrightarrow> sy_node s' i = node_ran X (common i) (?msgs i) (main i, ?out i) (sy_node s i)"
    by auto
  have "own_signed X (common i) (?out i) = []" if "i < ?n" for i
    using crypto_reply_ok [OF c(2), of "crypto_of (common i)" "normal_reply i (length es) m" "rq_addr m"] c(7) [OF that]
    by (auto simp: own_signed_def crypto_of_def)
  then have "idle_node (op i) (es @ [e]) (sy_node s' i)" if "i < ?n" for i
    using nodes [OF that] main [OF that] own [of i] that
    by (simp add: s'(2) [OF that] idle_node_def del: filter.simps)
  then show ?thesis
    using s'(1) by (intro exI [of _ s']) (auto simp: s'(2))
qed

section \<open>Rounds\<close>

lemma round:
  assumes ok: "all_correct X cfg common" and s: "all_reach X cfg common s"
    and idle: "\<And>i. i < tc_n cfg \<Longrightarrow> idle_node (made i (length es)) es (sy_node s i)"
    and small: "length es + 6 < 2 ^ 32" and fresh: "svc_fresh m (log_history Null es (length es))"
  shows "\<exists>s' e. all_reach X cfg common s' \<and> le_requests e = [m] \<and>
    (\<forall>i < tc_n cfg. idle_node (made i (Suc (length es))) (es @ [e]) (sy_node s' i) \<and>
       set (nd_sent (sy_node s i)) \<subseteq> set (nd_sent (sy_node s' i)) \<and>
       SendReply (rq_addr m) (normal_reply i (length es) m) \<in> set (nd_sent (sy_node s' i)))"
proof -
  have z: "0 < tc_n cfg" using all_correctD(4) [OF ok] by simp
  have l: "pm_log (nd_main (sy_node s 0)) = es" "unat (pm_execute_number (nd_main (sy_node s 0))) = length es"
    using idle [OF z] small by (simp_all add: idle_node_def caught_up_def unat_of_nat take_bit_nat_def)
  then have "request_new (nd_main (sy_node s 0)) m"
    using request_new_fresh [OF all_reach_node(5) [OF ok s z], of es "[]"] fresh small by simp
  from propose_phase [OF ok s idle small this] obtain s1 pp where s1: "all_reach X cfg common s1"
    and pp: "pp_view_number (sg_inner pp) = 0" "pp_op_number (sg_inner pp) = of_nat (Suc (length es))"
      "acceptable X (tc_public_keys cfg) {..<tc_n cfg} (sy_signed s1) (PrePrepare pp [m])"
    and n1: "\<forall>i < tc_n cfg. caught_up (made i (Suc (length es))) es (nd_main (sy_node s1 i)) \<and>
       nd_to_main (sy_node s1 i) = (if i = 0 then {#Signed (PrePrepare pp [m])#} else {#}) \<and>
       nd_to_crypto (sy_node s1 i) = {#} \<and> set (nd_sent (sy_node s i)) \<subseteq> set (nd_sent (sy_node s1 i))"
    by blast
  let ?e = "\<lparr>le_pre_prepare = pp, le_requests = [m]\<rparr>"
  obtain s2 p where s2: "all_reach X cfg common s2"
    and n2: "\<forall>i < tc_n cfg. in_round (made i (Suc (length es))) es ?e (nd_main (sy_node s2 i)) \<and>
       \<not> is_prepared (nd_main (sy_node s2 i)) (fst (entry_key es ?e)) (snd (entry_key es ?e)) \<and>
       nd_to_main (sy_node s2 i) = (if i = 0 then {#} else {#Signed (Prepare (p i))#}) \<and>
       nd_to_crypto (sy_node s2 i) = {#} \<and> set (nd_sent (sy_node s1 i)) \<subseteq> set (nd_sent (sy_node s2 i)) \<and>
       (0 < i \<longrightarrow> sg_inner (p i) = prepare_at (entry_key es ?e) i \<and>
          acceptable X (tc_public_keys cfg) {..<tc_n cfg} (sy_signed s2) (Prepare (p i)))"
    using log_phase [OF ok s1 pp small _ refl] n1 by auto
  obtain s3 q where s3: "all_reach X cfg common s3"
    and n3: "\<forall>i < tc_n cfg. in_round (made i (Suc (length es))) es ?e (nd_main (sy_node s3 i)) \<and>
       is_prepared (nd_main (sy_node s3 i)) (fst (entry_key es ?e)) (snd (entry_key es ?e)) \<and>
       nd_to_main (sy_node s3 i) = {#Signed (Commit (q i))#} \<and>
       nd_to_crypto (sy_node s3 i) = {#} \<and> set (nd_sent (sy_node s2 i)) \<subseteq> set (nd_sent (sy_node s3 i)) \<and>
       sg_inner (q i) = commit_at (entry_key es ?e) i \<and>
       acceptable X (tc_public_keys cfg) {..<tc_n cfg} (sy_signed s3) (Commit (q i))"
    using prepare_phase [OF ok s2 small, of "\<lambda>i. made i (Suc (length es))" ?e p] n2 by auto
  obtain s4 where s4: "all_reach X cfg common s4"
    and n4: "\<forall>i < tc_n cfg. idle_node (made i (Suc (length es))) (es @ [?e]) (sy_node s4 i) \<and>
       set (nd_sent (sy_node s3 i)) \<subseteq> set (nd_sent (sy_node s4 i)) \<and>
       SendReply (rq_addr m) (normal_reply i (length es) m) \<in> set (nd_sent (sy_node s4 i))"
    using commit_phase [OF ok s3 small _ fresh, of ?e "\<lambda>i. made i (Suc (length es))" q] n3 by auto
  have "set (nd_sent (sy_node s i)) \<subseteq> set (nd_sent (sy_node s4 i))" if "i < tc_n cfg" for i
    using n1 n2 n3 n4 that by (meson subset_trans)
  with s4 n4 show ?thesis by (intro exI [of _ s4] exI [of _ ?e]) simp
qed

text \<open>A request with a number above those its client has had in the log is fresh.\<close>

lemma svc_run_done:
  "(r, res) \<in> set (svc_done (svc_run nms v)) \<Longrightarrow> r \<in> snd ` set nms \<or> (r, res) \<in> set (svc_done v)"
proof (induction nms arbitrary: v)
  case (Cons nm nms)
  have "svc_run (nm # nms) v = svc_run nms (svc_submit (fst nm) (snd nm) v)"
    by (simp add: svc_run_def split_beta)
  with Cons.IH [of "svc_submit (fst nm) (snd nm) v"] Cons.prems
  show ?case by (auto simp: svc_submit_def svc_execute_def split: if_splits prod.splits)
qed (simp add: svc_run_def)

lemma log_history_fresh:
  assumes "\<And>r e. e \<in> set es \<Longrightarrow> r \<in> set (le_requests e) \<Longrightarrow> rq_client_id r = rq_client_id m \<Longrightarrow>
    rq_request_number r < rq_request_number m"
  shows "svc_fresh m (log_history Null es (length es))"
proof (cases "svc_last (log_history Null es (length es)) (rq_client_id m)")
  case (Some x)
  obtain r res where x: "x = (r, res)" by (cases x)
  from find_SomeD [OF Some [unfolded svc_last_def]] x
  have "(r, res) \<in> set (svc_done (log_history Null es (length es)))" and c: "rq_client_id r = rq_client_id m"
    by auto
  then have "r \<in> snd ` set (batch_ops es (length es))"
    unfolding log_history_def by (auto dest!: svc_run_done simp: svc_init_def)
  then obtain i where "i < length es" "r \<in> set (le_requests (es ! i))"
    by (auto simp: batch_ops_def)
  with assms [of "es ! i" r] c have "rq_request_number r < rq_request_number m" by simp
  with Some x show ?thesis by (simp add: svc_fresh_def)
qed (simp add: svc_fresh_def)

definition numbered :: "request list \<Rightarrow> bool" where
  "numbered ms \<longleftrightarrow> sorted_wrt (\<lambda>m m'. rq_client_id m = rq_client_id m' \<longrightarrow>
     rq_request_number m < rq_request_number m') ms"

lemma rounds:
  assumes ok: "all_correct X cfg common" and "numbered ms" and "length ms + 6 < 2 ^ 32"
  shows "\<exists>s es. all_reach X cfg common s \<and> map le_requests es = map (\<lambda>m. [m]) ms \<and>
    (\<forall>i < tc_n cfg. idle_node (made i (length ms)) es (sy_node s i) \<and>
       (\<forall>k < length ms. SendReply (rq_addr (ms ! k)) (normal_reply i k (ms ! k)) \<in> set (nd_sent (sy_node s i))))"
  using assms(2,3)
proof (induction ms rule: rev_induct)
  case Nil
  have "idle_node (made i 0) [] (sy_node (system_new common) i)" for i
    by (simp add: idle_node_def made_def system_new_def node_new_def caught_up_new)
  then show ?case
    using sys_init [of X cfg common "{..<tc_n cfg}"] by (intro exI [of _ "system_new common"] exI [of _ "[]"]) simp
next
  case (snoc m ms)
  have old: "numbered ms" "\<And>r. r \<in> set ms \<Longrightarrow> rq_client_id r = rq_client_id m \<Longrightarrow> rq_request_number r < rq_request_number m"
    using snoc.prems(1) by (auto simp: numbered_def sorted_wrt_append)
  with snoc obtain s es where s: "all_reach X cfg common s" "map le_requests es = map (\<lambda>m. [m]) ms"
    and n: "\<And>i. i < tc_n cfg \<Longrightarrow> idle_node (made i (length ms)) es (sy_node s i) \<and>
       (\<forall>k < length ms. SendReply (rq_addr (ms ! k)) (normal_reply i k (ms ! k)) \<in> set (nd_sent (sy_node s i)))"
    by auto
  have len: "length es = length ms" using arg_cong [OF s(2), of length] by simp
  have members: "le_requests ` set es = (\<lambda>m. [m]) ` set ms" using arg_cong [OF s(2), of set] by simp
  have "svc_fresh m (log_history Null es (length es))"
  proof (rule log_history_fresh)
    fix r e
    assume r: "e \<in> set es" "r \<in> set (le_requests e)" "rq_client_id r = rq_client_id m"
    then have "le_requests e \<in> (\<lambda>m. [m]) ` set ms" using members by blast
    with r old(2) show "rq_request_number r < rq_request_number m" by auto
  qed
  from round [OF ok s(1) _ _ this] n snoc.prems(2) obtain s' e where s': "all_reach X cfg common s'"
    "le_requests e = [m]" "\<forall>i < tc_n cfg. idle_node (made i (Suc (length es))) (es @ [e]) (sy_node s' i) \<and>
       set (nd_sent (sy_node s i)) \<subseteq> set (nd_sent (sy_node s' i)) \<and>
       SendReply (rq_addr m) (normal_reply i (length es) m) \<in> set (nd_sent (sy_node s' i))"
    by (auto simp: len)
  have "SendReply (rq_addr ((ms @ [m]) ! k)) (normal_reply i k ((ms @ [m]) ! k)) \<in> set (nd_sent (sy_node s' i))"
    if "i < tc_n cfg" "k < length (ms @ [m])" for i k
  proof (cases "k = length ms")
    case True
    then show ?thesis using that(1) s'(3) len by simp
  next
    case False
    with that have k: "k < length ms" by simp
    then have "SendReply (rq_addr (ms ! k)) (normal_reply i k (ms ! k)) \<in> set (nd_sent (sy_node s i))"
      using n [OF that(1)] by blast
    moreover have "set (nd_sent (sy_node s i)) \<subseteq> set (nd_sent (sy_node s' i))" using s'(3) that(1) by blast
    ultimately show ?thesis using k by (simp add: nth_append subsetD)
  qed
  with s' s(2) len show ?case
    by (intro exI [of _ s'] exI [of _ "es @ [e]"]) simp
qed

end
