(* ===== verification/Pbft_Service.thy ===== *)
theory Pbft_Service
  imports Pbft_System_Round Pbft_Client_Properties
begin

text \<open>
  The replicated service as a whole: what correct replicas do with the requests of the clients,
  and a client that gets its result back.
\<close>

section \<open>Requests are executed\<close>

lemma sample_system_ok: "H \<subseteq> {..<4} \<Longrightarrow> system_ok (sample_ext rqs rps ms) sample_config sample_common H"
  by (auto simp: system_ok_def sample_config_def sample_common_def deploy_ok_def sample_ext_def)

lemma sample_all_correct:
  "length rps \<le> 255 \<Longrightarrow> length ms \<le> 255 \<Longrightarrow> all_correct (sample_ext rqs rps ms) sample_config sample_common"
  using sample_system_ok [of "{..<4}" rqs rps ms] sample_pbft_ext_ok [of rps ms rqs]
  by (simp add: all_correct_def sample_tx_ok) (simp add: sample_config_def)

text \<open>
  C3. Progress without faults: with n > 2f correct replicas and any number of clients, for every
  list of requests in which the numbers of each client increase, there is a schedule of the
  concurrent threads after which every replica has executed these requests, in this order and one
  in each batch, nothing is left on the way, and every replica has sent each client its reply.
\<close>
theorem requests_executed_by_all:
  assumes "all_correct X cfg common" and "numbered ms" and "length ms + 6 < 2 ^ 32"
  shows "\<exists>s. all_reach X cfg common s \<and> (\<forall>i < tc_n cfg.
    map le_requests (pm_log (nd_main (sy_node s i))) = map (\<lambda>m. [m]) ms \<and>
    pm_execute_number (nd_main (sy_node s i)) = of_nat (length ms) \<and>
    nd_to_main (sy_node s i) = {#} \<and> nd_to_crypto (sy_node s i) = {#} \<and>
    (\<forall>k < length ms. SendReply (rq_addr (ms ! k)) (normal_reply i k (ms ! k)) \<in> set (nd_sent (sy_node s i))))"
proof -
  from rounds [OF assms] obtain s es where "all_reach X cfg common s" "map le_requests es = map (\<lambda>m. [m]) ms"
    "\<forall>i < tc_n cfg. idle_node (made i (length ms)) es (sy_node s i) \<and>
       (\<forall>k < length ms. SendReply (rq_addr (ms ! k)) (normal_reply i k (ms ! k)) \<in> set (nd_sent (sy_node s i)))"
    by blast
  moreover from this(2) have "length es = length ms" by (metis length_map)
  ultimately show ?thesis
    by (intro exI [of _ s]) (simp add: idle_node_def caught_up_def)
qed

theorem requests_executed_by_all_witness:
  "\<exists>s. all_reach (sample_ext [] [] []) sample_config sample_common s \<and>
     pm_execute_number (nd_main (sy_node s 3)) = 3 \<and>
     map le_requests (pm_log (nd_main (sy_node s 3))) =
       [[sample_request 1], [sample_request 2], [sample_request 5]]"
proof -
  let ?ms = "[sample_request 1, sample_request 2, sample_request 5]"
  have "numbered ?ms" by (simp add: numbered_def sample_request_def)
  from requests_executed_by_all [OF sample_all_correct this, of "[]" "[]" "[]"]
  obtain s where s: "all_reach (sample_ext [] [] []) sample_config sample_common s"
    "\<forall>i < tc_n sample_config. map le_requests (pm_log (nd_main (sy_node s i))) = map (\<lambda>m. [m]) ?ms \<and>
      pm_execute_number (nd_main (sy_node s i)) = of_nat (length ?ms)"
    by auto
  have "3 < tc_n sample_config" by (simp add: sample_config_def)
  with s show ?thesis by (intro exI [of _ s]) auto
qed

section \<open>A client collects its answers\<close>

text \<open>\<open>while client.poll() {}\<close> at given times; what the client sends meanwhile is not kept.\<close>

definition poll_pclient :: "externals \<Rightarrow> time_env \<Rightarrow> time_env \<Rightarrow> pclient \<Rightarrow> pclient res" where
  "poll_pclient X t t' c =
     poll_all (\<lambda>c. bind_res (pclient_poll X t t' c) (\<lambda>(again, c, out). Inr (again, c))) c"

text \<open>A socket in which the datagrams \<open>ps\<close> have arrived.\<close>

definition arrived :: "(socket_addr \<times> bytes) list \<Rightarrow> rx_channel" where
  "arrived ps = Rx_Udp (then_silent (map (\<lambda>(a, p). Udp_Packet p a) ps))"

definition with_rx :: "rx_channel \<Rightarrow> pclient \<Rightarrow> pclient" where
  "with_rx rx c = c\<lparr>pc_common := (pc_common c)\<lparr>cc_rx := rx\<rparr>\<rparr>"

lemma pclient_poll_empty:
  assumes "pclient_inv c" and "pbft_ext_ok X" and "pclient_config_ok X c" and "cc_rx (pc_common c) = arrived []"
  shows "\<exists>c'. poll_pclient X t t' c = Inr c' \<and> pc_committed_result c' = pc_committed_result c \<and> pc_op c' = pc_op c"
proof -
  obtain c1 out where r: "pclient_resend X t t' c = Inr (c1, out)"
    using pclient_resend_ok [OF assms(1-3)] by blast
  note r1 = pclient_resend_Inr [OF r]
  have "\<exists>c'. pclient_receive X c1 = Inr (False, c') \<and> pc_committed_result c' = pc_committed_result c1 \<and>
      pc_op c' = pc_op c1"
    using assms(4) r1(3) by (auto simp: pclient_receive_def arrived_def)
  then obtain c' where c': "pclient_receive X c1 = Inr (False, c')"
    "pc_committed_result c' = pc_committed_result c1" "pc_op c' = pc_op c1" by blast
  then have "bind_res (pclient_poll X t t' c) (\<lambda>(again, c, out). Inr (again, c)) = Inr (False, c')"
    using r by (simp add: pclient_poll_split)
  from poll_all_simps(3) [of "\<lambda>c. bind_res (pclient_poll X t t' c) (\<lambda>(again, c, out). Inr (again, c))", OF this]
  show ?thesis using c' r1(1,2) by (simp add: poll_pclient_def)
qed

text \<open>A poll that finds a datagram.\<close>

lemma pclient_poll_packet:
  assumes "pclient_inv c" and "pbft_ext_ok X" and "pclient_config_ok X c"
    and "cc_rx (pc_common c) = arrived ((a, p) # ps)" and "length p \<le> 1500" and "bc_de_reply X p = Some r"
  shows "\<exists>c1 c2. c1 = c\<lparr>pc_common := (pc_common c)\<lparr>cc_rx := arrived ps\<rparr>,
        pc_resend_instant := pc_resend_instant c1, pc_buffer := pc_buffer c1\<rparr> \<and>
    bc_de_reply X (take (length p) (pc_buffer c1)) = Some r \<and>
    pclient_on_packet X (length p) c1 = Inr c2 \<and> pclient_inv c2 \<and>
    poll_pclient X t t' c = poll_pclient X t t' c2"
proof -
  obtain c0 out where r: "pclient_resend X t t' c = Inr (c0, out)"
    using pclient_resend_ok [OF assms(1-3)] by blast
  note r0 = pclient_resend_Inr [OF r]
  have len: "length (pc_buffer c) = 1500" using assms(1) by (simp add: pclient_inv_def)
  let ?c1 = "c0\<lparr>pc_common := (pc_common c0)\<lparr>cc_rx := arrived ps\<rparr>, pc_buffer := p @ drop (length p) (pc_buffer c)\<rparr>"
  have recv: "receive_from (cc_rx (pc_common c0)) (pc_buffer c0) =
      Inr (Some (length p, a), arrived ps, p @ drop (length p) (pc_buffer c))"
    using assms(4,5) r0(3,5) len by (simp add: arrived_def Let_def)
  have c1: "?c1 = c\<lparr>pc_common := (pc_common c)\<lparr>cc_rx := arrived ps\<rparr>,
      pc_resend_instant := pc_resend_instant ?c1, pc_buffer := pc_buffer ?c1\<rparr>"
    using r0(1-7) by (cases c; cases c0) simp
  have dec: "bc_de_reply X (take (length p) (pc_buffer ?c1)) = Some r" using assms(6) by simp
  obtain v where v: "pclient_insert r ?c1 (hm_first X (pclient_insert r ?c1)) = Some v"
    using assms(2) hm_first_okD [of X "pclient_insert r ?c1"]
    by (auto simp: pbft_ext_ok_def pclient_insert_def)
  have "\<exists>c2. pclient_on_packet X (length p) ?c1 = Inr c2"
    using dec v by (cases "pc_op c0 = None") (auto simp: pclient_on_packet_def Let_def)
  then obtain c2 where c2: "pclient_on_packet X (length p) ?c1 = Inr c2" by blast
  then have "pclient_receive X c0 = Inr (True, c2)" by (simp add: pclient_receive_def recv Let_def)
  then have p: "pclient_poll X t t' c = Inr (True, c2, out)" using r by (simp add: pclient_poll_split)
  then have q: "bind_res (pclient_poll X t t' c) (\<lambda>(again, c, out). Inr (again, c)) = Inr (True, c2)" by simp
  have "poll_pclient X t t' c = poll_pclient X t t' c2"
    unfolding poll_pclient_def
    by (rule poll_all_simps(2) [of "\<lambda>c. bind_res (pclient_poll X t t' c) (\<lambda>(again, c, out). Inr (again, c))", OF q])
  with c1 dec c2 pc.poll_inv [OF assms(1) p] show ?thesis by blast
qed

text \<open>Datagrams that are answers with the result \<open>r\<close>, and the replicas they name.\<close>

definition answer_packet :: "externals \<Rightarrow> u32 \<Rightarrow> bytes \<Rightarrow> bytes \<Rightarrow> bool" where
  "answer_packet X k r p \<longleftrightarrow> length p \<le> 1500 \<and>
     (\<exists>m. bc_de_reply X p = Some m \<and> rp_request_number m = k \<and> rp_result m = r)"

definition packet_ids :: "externals \<Rightarrow> (socket_addr \<times> bytes) list \<Rightarrow> u8 set" where
  "packet_ids X ps = (\<lambda>ap. rp_replica_id (the (bc_de_reply X (snd ap)))) ` set ps"

lemma pclient_idle_collects:
  assumes "pclient_inv c" and "pbft_ext_ok X" and "pclient_config_ok X c" and "pc_op c = None"
    and "cc_rx (pc_common c) = arrived ps" and "\<forall>ap \<in> set ps. answer_packet X k r (snd ap)"
  shows "\<exists>c'. poll_pclient X t t' c = Inr c' \<and> pc_committed_result c' = pc_committed_result c \<and> pc_op c' = None"
  using assms(1,3-6)
proof (induction ps arbitrary: c)
  case Nil
  with pclient_poll_empty [OF Nil.prems(1) assms(2) Nil.prems(2)] show ?case by simp
next
  case (Cons ap ps)
  obtain a p where ap: "ap = (a, p)" by (cases ap)
  from Cons.prems(5) ap obtain m where "length p \<le> 1500" "bc_de_reply X p = Some m"
    by (auto simp: answer_packet_def)
  from pclient_poll_packet [OF Cons.prems(1) assms(2) Cons.prems(2) Cons.prems(4) [unfolded ap] this]
  obtain c1 c2 where c1: "c1 = c\<lparr>pc_common := (pc_common c)\<lparr>cc_rx := arrived ps\<rparr>,
        pc_resend_instant := pc_resend_instant c1, pc_buffer := pc_buffer c1\<rparr>"
    and c2: "pclient_on_packet X (length p) c1 = Inr c2" "pclient_inv c2"
      "poll_pclient X t t' c = poll_pclient X t t' c2" by blast
  have f: "pc_op c1 = None" "pc_committed_result c1 = pc_committed_result c"
    "pc_common c1 = (pc_common c)\<lparr>cc_rx := arrived ps\<rparr>"
    using Cons.prems(3) by (subst c1; simp)+
  then have "c2 = c1" using c2(1) by (simp add: pclient_on_packet_def)
  with f c2 Cons.IH [of c2] Cons.prems(2,5) show ?case by (simp add: pclient_config_ok_def)
qed

lemma pclient_collects:
  assumes "pclient_inv c" and "pbft_ext_ok X" and "pclient_config_ok X c" and "pc_op c \<noteq> None"
    and "cc_rx (pc_common c) = arrived ps" and "\<forall>ap \<in> set ps. answer_packet X (pc_request_number c) r (snd ap)"
    and "ran (pc_results c) \<subseteq> {r}"
    and "tc_f (cc_config (pc_common c)) < card (dom (pc_results c) \<union> packet_ids X ps)"
  shows "\<exists>c'. poll_pclient X t t' c = Inr c' \<and> pc_committed_result c' = Some r \<and> pc_op c' = None"
  using assms(1,3-8)
proof (induction ps arbitrary: c)
  case Nil
  then show ?case by (simp add: pclient_inv_def hm_len_def packet_ids_def)
next
  case (Cons ap ps)
  obtain a p where ap: "ap = (a, p)" by (cases ap)
  from Cons.prems(5) ap obtain m where m: "length p \<le> 1500" "bc_de_reply X p = Some m"
    "rp_request_number m = pc_request_number c" "rp_result m = r"
    by (auto simp: answer_packet_def)
  from pclient_poll_packet [OF Cons.prems(1) assms(2) Cons.prems(2) Cons.prems(4) [unfolded ap] m(1,2)]
  obtain c1 c2 where c1: "c1 = c\<lparr>pc_common := (pc_common c)\<lparr>cc_rx := arrived ps\<rparr>,
        pc_resend_instant := pc_resend_instant c1, pc_buffer := pc_buffer c1\<rparr>"
    and dec: "bc_de_reply X (take (length p) (pc_buffer c1)) = Some m"
    and c2: "pclient_on_packet X (length p) c1 = Inr c2" "pclient_inv c2"
      "poll_pclient X t t' c = poll_pclient X t t' c2" by blast
  have f: "pc_op c1 = pc_op c" "pc_results c1 = pc_results c" "pc_request_number c1 = pc_request_number c"
    "pc_common c1 = (pc_common c)\<lparr>cc_rx := arrived ps\<rparr>"
    by (subst c1; simp)+
  let ?q = "(pc_results c)(rp_replica_id m \<mapsto> r)"
  have ins: "pclient_insert m c1 = ?q" by (simp add: pclient_insert_def f m(4))
  have q: "v = r" if "?q i = Some v" for i v
    using that Cons.prems(6) by (auto simp: ran_def split: if_splits)
  have config: "pclient_config_ok X c2"
    using Cons.prems(2) pclient_on_packet_common [OF c2(1)] f(4) by (simp add: pclient_config_ok_def)
  have rx: "cc_rx (pc_common c2) = arrived ps" "tc_f (cc_config (pc_common c2)) = tc_f (cc_config (pc_common c))"
    using pclient_on_packet_common [OF c2(1)] f(4) by simp_all
  show ?case
  proof (cases "hm_len ?q > tc_f (cc_config (pc_common c))")
    case True
    obtain v where v: "?q (hm_first X ?q) = Some v"
      using hm_first_okD [of X ?q] assms(2) by (auto simp: pbft_ext_ok_def)
    with c2(1) True dec m(3) f Cons.prems(3) ins q have d: "pc_op c2 = None" "pc_committed_result c2 = Some r"
      by (auto simp: pclient_on_packet_def Let_def)
    have "\<forall>ap \<in> set ps. answer_packet X (pc_request_number c) r (snd ap)" using Cons.prems(5) by simp
    from pclient_idle_collects [OF c2(2) assms(2) config d(1) rx(1) this] d c2(3) show ?thesis by simp
  next
    case False
    with c2(1) dec m(3) f Cons.prems(3) ins have d: "c2 = c1\<lparr>pc_results := ?q\<rparr>"
      by (auto simp: pclient_on_packet_def Let_def)
    have "dom ?q \<union> packet_ids X ps = dom (pc_results c) \<union> packet_ids X (ap # ps)"
      by (auto simp: packet_ids_def ap m(2))
    with Cons.prems(7) have "tc_f (cc_config (pc_common c2)) < card (dom (pc_results c2) \<union> packet_ids X ps)"
      by (simp add: d f(4) del: dom_fun_upd)
    moreover have "ran (pc_results c2) \<subseteq> {r}" using Cons.prems(6) by (auto simp: d ran_def)
    moreover have "pc_op c2 \<noteq> None" "\<forall>ap \<in> set ps. answer_packet X (pc_request_number c2) r (snd ap)"
      using Cons.prems(3,5) by (simp_all add: d f)
    ultimately show ?thesis
      using Cons.IH [OF c2(2) config _ rx(1)] c2(3) by simp
  qed
qed

section \<open>A request from the client and back\<close>

definition first_request :: "client_common \<Rightarrow> bytes \<Rightarrow> request" where
  "first_request cc op = \<lparr>rq_client_id = cc_id cc, rq_request_number = 1, rq_op = op,
     rq_addr = cc_rx_addr cc\<rparr>"

lemma new_client_invokes:
  assumes "pbft_ext_ok X" and "tx_ok X (cc_tx cc)" and "0 < tc_n (cc_config cc)"
    and "length (tc_replica (cc_config cc)) = tc_n (cc_config cc)"
  shows "\<exists>c payload. pclient_invoke X t op (pclient_new cc) =
      Inr (c, [sent_by (cc_tx cc) payload (tc_replica (cc_config cc) ! 0)]) \<and>
    bc_de_to_replica X payload = Some (Request (first_request cc op)) \<and> pclient_inv c \<and>
    pc_op c = Some op \<and> pc_results c = Map.empty \<and> pc_request_number c = 1 \<and> pc_common c = cc"
proof -
  obtain payload where p: "bc_ser_to_replica X (Request (first_request cc op)) = Some payload"
    "bc_de_to_replica X payload = Some (Request (first_request cc op))"
    using assms(1) by (auto simp: pbft_ext_ok_def elim!: codec_okD [of _ _ "Request (first_request cc op)"])
  let ?c0 = "(pclient_new cc)\<lparr>pc_request_number := 1, pc_op := Some op, pc_committed_result := None\<rparr>"
  have "pclient_do_send X t ?c0 = Inr (?c0\<lparr>pc_resend_instant :=
       at_instant (clock_time t (cc_clock (pc_common ?c0)) + from_millis 50)\<rparr>,
      [sent_by (cc_tx (pc_common ?c0)) payload
        (tc_replica (cc_config (pc_common ?c0)) ! pclient_primary ?c0)])"
    by (rule pclient_do_send_ok)
       (use assms(2-4) p(1) in \<open>simp_all add: pclient_new_def pclient_request_def first_request_def
          pclient_primary_def\<close>)
  then obtain c where c: "pclient_invoke X t op (pclient_new cc) =
      Inr (c, [sent_by (cc_tx cc) payload (tc_replica (cc_config cc) ! 0)])"
    and cf: "pc_op c = Some op" "pc_results c = Map.empty" "pc_request_number c = 1" "pc_common c = cc"
    by (simp add: pclient_invoke_def pclient_new_def pclient_primary_def)
  with p(2) pc.invoke_inv [OF pclient_inv_new c] show ?thesis by blast
qed

text \<open>Replies of more than f replicas, in any order, complete the request.\<close>

lemma client_takes_replies:
  assumes "all_correct X cfg common" and "pclient_inv c" and "pclient_config_ok X c"
    and "pc_op c \<noteq> None" and "pc_results c = Map.empty" and "cc_config (pc_common c) = cfg"
    and "\<And>i. i < tc_n cfg \<Longrightarrow> length (b i) \<le> 1500 \<and> bc_de_reply X (b i) = Some (normal_reply i k m)"
    and "rq_request_number m = pc_request_number c" and "set is \<subseteq> {..<tc_n cfg}" and "tc_f cfg < card (set is)"
  shows "\<exists>c'. poll_pclient X t1 t2 (with_rx (arrived (map (\<lambda>i. (a i, b i)) is)) c) = Inr c' \<and>
    fst (pclient_take_result c') = Some (snd (app_execute Null (of_nat (Suc k)) (rq_op m))) \<and> pclient_idle c'"
proof -
  note ok = all_correctD [OF assms(1)]
  let ?r = "snd (app_execute Null (of_nat (Suc k)) (rq_op m))"
  let ?ps = "map (\<lambda>i. (a i, b i)) is"
  let ?c = "with_rx (arrived ?ps) c"
  have "packet_ids X ?ps = (\<lambda>i. of_nat i) ` set is"
    unfolding packet_ids_def set_map image_image
    by (rule image_cong) (use assms(7,9) in \<open>auto simp: normal_reply_def\<close>)
  moreover have "inj_on (\<lambda>i. of_nat i :: u8) (set is)"
  proof (rule inj_onI)
    fix i j assume "i \<in> set is" "j \<in> set is" "(of_nat i :: u8) = of_nat j"
    moreover from this assms(9) ok(5) have "i < 256" "j < 256" by auto
    ultimately show "i = j" using u8_of_nat_eq by blast
  qed
  ultimately have enough: "tc_f (cc_config (pc_common ?c)) < card (dom (pc_results ?c) \<union> packet_ids X ?ps)"
    using assms(5,6,10) by (simp add: with_rx_def card_image)
  have "\<forall>ap \<in> set ?ps. answer_packet X (pc_request_number ?c) ?r (snd ap)"
    using assms(7,8,9) by (fastforce simp: answer_packet_def with_rx_def normal_reply_def)
  moreover have "pclient_inv ?c" using assms(2) by (simp add: with_rx_def pclient_inv_def)
  moreover have "pclient_config_ok X ?c" using assms(3) by (simp add: with_rx_def pclient_config_ok_def)
  ultimately obtain c' where "poll_pclient X t1 t2 ?c = Inr c'" "pc_committed_result c' = Some ?r" "pc_op c' = None"
    using pclient_collects [of ?c X ?ps ?r t1 t2] ok(2) enough assms(4,5) by (auto simp: with_rx_def)
  then show ?thesis by (simp add: pclient_take_result_def pclient_idle_def)
qed

text \<open>
  C6. The round trip of a request through the replicated service: a new client invokes an operation;
  what it sends reaches the primary and decodes to its request; the replicas, all correct, can
  execute it and send the replies; and whichever replies the client then polls out of its socket, in
  any order and at any time, as long as they are from more than f replicas, it takes the result of
  the operation and is idle.
\<close>
theorem replicated_round_trip:
  assumes "all_correct X cfg common" and "cc_config cc = cfg" and "tx_ok X (cc_tx cc)"
    and "\<forall>i < tc_n cfg. \<forall>b. bc_ser_reply X (normal_reply i 0 (first_request cc op)) = Some b \<longrightarrow>
      length b \<le> 1500"
  shows "\<exists>c payload s b. pclient_invoke X t op (pclient_new cc) =
      Inr (c, [sent_by (cc_tx cc) payload (tc_replica cfg ! 0)]) \<and>
    bc_de_to_replica X payload = Some (Request (first_request cc op)) \<and> all_reach X cfg common s \<and>
    (\<forall>i < tc_n cfg. map le_requests (pm_log (nd_main (sy_node s i))) = [[first_request cc op]] \<and>
       pm_execute_number (nd_main (sy_node s i)) = 1 \<and>
       SendReply (cc_rx_addr cc) (normal_reply i 0 (first_request cc op)) \<in> set (nd_sent (sy_node s i)) \<and>
       crypto_handle X (crypto_of (common i)) (SendReply (cc_rx_addr cc) (normal_reply i 0 (first_request cc op))) =
         Inr ([], [sent_by (rc_tx (common i)) (b i) (cc_rx_addr cc)])) \<and>
    (\<forall>is t1 t2. set is \<subseteq> {..<tc_n cfg} \<longrightarrow> tc_f cfg < card (set is) \<longrightarrow>
       (\<exists>c'. poll_pclient X t1 t2 (with_rx (arrived (map (\<lambda>i. (tc_replica cfg ! i, b i)) is)) c) = Inr c' \<and>
          fst (pclient_take_result c') = Some (snd (app_execute Null 1 op)) \<and> pclient_idle c'))"
proof -
  note ok = all_correctD [OF assms(1)]
  let ?m = "first_request cc op"
  have z: "0 < tc_n cfg" using ok(4) by simp
  then have "deploy_ok X (common 0)" "rc_config (common 0) = cfg"
    using system_okD [OF ok(1), of 0] by auto
  then have len: "length (tc_replica cfg) = tc_n cfg" by (simp add: deploy_ok_def)
  obtain c payload where c: "pclient_invoke X t op (pclient_new cc) =
      Inr (c, [sent_by (cc_tx cc) payload (tc_replica cfg ! 0)])"
    and p: "bc_de_to_replica X payload = Some (Request ?m)" and inv: "pclient_inv c"
    and cf: "pc_op c = Some op" "pc_results c = Map.empty" "pc_request_number c = 1" "pc_common c = cc"
    using new_client_invokes [OF ok(2) assms(3), of t op] z len assms(2) by auto
  have config: "pclient_config_ok X c"
    using z len assms(2,3) cf(4) by (simp add: pclient_config_ok_def)
  have "\<exists>b. length b \<le> 1500 \<and> bc_de_reply X b = Some (normal_reply i 0 ?m) \<and>
      crypto_handle X (crypto_of (common i)) (SendReply (cc_rx_addr cc) (normal_reply i 0 ?m)) =
        Inr ([], [sent_by (rc_tx (common i)) b (cc_rx_addr cc)])" if "i < tc_n cfg" for i
    using crypto_reply_ok [OF ok(2), of "crypto_of (common i)" "normal_reply i 0 ?m" "cc_rx_addr cc"]
      ok(7) [OF that] assms(4) that by (auto simp: crypto_of_def)
  then obtain b where b: "\<And>i. i < tc_n cfg \<Longrightarrow> length (b i) \<le> 1500 \<and>
      bc_de_reply X (b i) = Some (normal_reply i 0 ?m) \<and>
      crypto_handle X (crypto_of (common i)) (SendReply (cc_rx_addr cc) (normal_reply i 0 ?m)) =
        Inr ([], [sent_by (rc_tx (common i)) (b i) (cc_rx_addr cc)])"
    by metis
  have "numbered [?m]" "length [?m] + 6 < 2 ^ 32" by (simp_all add: numbered_def)
  from rounds [OF assms(1) this] obtain s es where s: "all_reach X cfg common s"
    "map le_requests es = map (\<lambda>m. [m]) [?m]"
    "\<forall>i < tc_n cfg. idle_node (made i (length [?m])) es (sy_node s i) \<and> (\<forall>k < length [?m].
       SendReply (rq_addr ([?m] ! k)) (normal_reply i k ([?m] ! k)) \<in> set (nd_sent (sy_node s i)))"
    by blast
  have es: "length es = 1" using arg_cong [OF s(2), of length] by simp
  have "rq_request_number ?m = pc_request_number c" "rq_op ?m = op" "rq_addr ?m = cc_rx_addr cc"
    using cf by (simp_all add: first_request_def)
  with client_takes_replies [OF assms(1) inv config _ cf(2) _ _ this(1), of b 0] b cf assms(2) c p s es
  show ?thesis
    by (intro exI [of _ c] exI [of _ payload] exI [of _ s] exI [of _ b])
       (simp add: idle_node_def caught_up_def)
qed

definition quartet_ext :: externals where
  "quartet_ext = sample_ext [] (map (\<lambda>i. normal_reply i 0 (first_request sample_client_common [7])) [0, 1, 2, 3]) []"

lemma quartet_reply:
  assumes "i < 4" and "bc_ser_reply quartet_ext (normal_reply i 0 (first_request sample_client_common [7])) = Some b"
  shows "length b = 1"
proof -
  from assms(1) have "i = 0 \<or> i = 1 \<or> i = 2 \<or> i = 3" by auto
  with assms(2) show ?thesis
    by (auto simp: quartet_ext_def sample_ext_def tagged_def normal_reply_def)
qed

theorem replicated_round_trip_witness:
  "\<exists>c out s b c'. pclient_invoke quartet_ext (duo_time 0) [7] (pclient_new sample_client_common) = Inr (c, out) \<and>
     all_reach quartet_ext sample_config sample_common s \<and>
     map le_requests (pm_log (nd_main (sy_node s 3))) = [[first_request sample_client_common [7]]] \<and>
     poll_pclient quartet_ext (duo_time 70) (duo_time 71)
       (with_rx (arrived [(sample_addr 3, b 2), (sample_addr 1, b (0 :: nat))]) c) = Inr c' \<and>
     fst (pclient_take_result c') = Some [] \<and> pclient_idle c'"
proof -
  have n: "tc_n sample_config = 4" "tc_f sample_config = 1"
    "tc_replica sample_config ! 2 = sample_addr 3" "tc_replica sample_config ! 0 = sample_addr 1"
    by (simp_all add: sample_config_def)
  have ok: "all_correct quartet_ext sample_config sample_common"
    unfolding quartet_ext_def by (rule sample_all_correct) simp_all
  have cc: "cc_config sample_client_common = sample_config" "tx_ok quartet_ext (cc_tx sample_client_common)"
    by (simp_all add: sample_client_common_def quartet_ext_def sample_tx_ok)
  have fits: "\<forall>i < tc_n sample_config. \<forall>b.
      bc_ser_reply quartet_ext (normal_reply i 0 (first_request sample_client_common [7])) = Some b \<longrightarrow>
      length b \<le> 1500"
    using quartet_reply n(1) by fastforce
  from replicated_round_trip [OF ok cc, where op = "[7]" and t = "duo_time 0", OF fits] show ?thesis
  proof (elim exE conjE, goal_cases)
    case (1 c payload s b)
    obtain c' where "poll_pclient quartet_ext (duo_time 70) (duo_time 71)
         (with_rx (arrived [(sample_addr 3, b 2), (sample_addr 1, b 0)]) c) = Inr c'"
      and "fst (pclient_take_result c') = Some []" and "pclient_idle c'"
      using spec [OF spec [OF spec [OF 1(5), of "[2, 0]"], of "duo_time 70"], of "duo_time 71"] n by auto
    moreover have "map le_requests (pm_log (nd_main (sy_node s 3))) = [[first_request sample_client_common [7]]]"
      using 1(4) n(1) by simp
    ultimately show ?case
      using 1(1,3)
      by (intro exI [of _ c] exI [of _ "[sent_by (cc_tx sample_client_common) payload
            (tc_replica sample_config ! 0)]"] exI [of _ s] exI [of _ b] exI [of _ c']) simp
  qed
qed

end
