(* ===== verification/Misc.thy ===== *)
theory Misc
  imports Prelude
begin

text \<open>
  \<open>src/misc.rs\<close>: the numbers handed out by the two process-wide counters, for the processor a
  thread is bound to and for the clients.
\<close>

section \<open>Processors\<close>

text \<open>
  \<open>bind_core\<close> with the content of \<open>CORE_ID\<close>.  \<open>ci\<close> says that the environment variable \<open>CI\<close> was
  \<open>true\<close> when the program was compiled, \<open>cores\<close> is \<open>available_parallelism()\<close>, and \<open>os_bind c\<close>
  says that the operating system takes processor \<open>c\<close> into the set and binds the thread to it.
  The result is the processor number and the new content of the counter.
\<close>

definition bind_core :: "bool \<Rightarrow> usize \<Rightarrow> (usize \<Rightarrow> bool) \<Rightarrow> usize \<Rightarrow> (usize \<times> usize) res" where
  "bind_core ci cores os_bind core_id =
     (if ci then Inr (0, core_id)
      else bind_res (rem_usize core_id cores) (\<lambda>cpu.
        if os_bind cpu then Inr (core_id, core_id + 1) else Inl Unwrap_Err))"

section \<open>Client numbers\<close>

text \<open>\<open>fetch_add\<close> returns the old content of \<open>ID\<close> and wraps around; it starts at 1.\<close>

definition first_client_id :: u16 where
  "first_client_id = 1"

definition alloc_client_id :: "u16 \<Rightarrow> u16 \<times> u16" where
  "alloc_client_id next_id = (next_id, next_id + 1)"

text \<open>The numbers of \<open>n\<close> allocations and the counter after them.\<close>

fun alloc_client_ids :: "nat \<Rightarrow> u16 \<Rightarrow> u16 list \<times> u16" where
  "alloc_client_ids 0 k = ([], k)"
| "alloc_client_ids (Suc n) k =
     (let (i, k) = alloc_client_id k; (ids, k) = alloc_client_ids n k in (i # ids, k))"

lemma alloc_client_ids_eq:
  "alloc_client_ids n k = (map (\<lambda>i. k + of_nat i) [0..<n], k + of_nat n)"
proof (induction n arbitrary: k)
  case (Suc n)
  have "map (\<lambda>i. k + of_nat i) [0..<Suc n] = k # map (\<lambda>i. k + 1 + of_nat i) [0..<n]"
    by (subst upt_conv_Cons) (simp_all add: map_Suc_upt [symmetric] add_ac del: upt_Suc)
  with Suc show ?case by (simp add: alloc_client_id_def add_ac)
qed simp

lemma of_nat_u16_inj:
  assumes "m < 2 ^ 16" and "n < 2 ^ 16" and "(of_nat m :: u16) = of_nat n"
  shows "m = n"
  using arg_cong [OF assms(3), of unat] assms(1,2) by (simp add: unsigned_of_nat take_bit_nat_def)

text \<open>
  C24. Client numbers are unique in a process as long as it allocates at most 65536 of them: the
  numbers of \<open>n\<close> allocations, from the start of the process, are all different exactly when
  \<open>n\<close> is at most \<open>2^16\<close>.  After that the 16-bit counter has wrapped around and numbers repeat.
\<close>
theorem client_ids_distinct:
  "distinct (fst (alloc_client_ids n first_client_id)) \<longleftrightarrow> n \<le> 2 ^ 16"
proof
  assume d: "distinct (fst (alloc_client_ids n first_client_id))"
  show "n \<le> 2 ^ 16"
  proof (rule ccontr)
    assume "\<not> n \<le> 2 ^ 16"
    then have "inj_on (\<lambda>i. first_client_id + of_nat i) {0 ..< n}" "2 ^ 16 \<in> {0 ..< n}" "0 \<in> {0 ..< n}"
      using d by (simp_all add: alloc_client_ids_eq distinct_map)
    moreover have "first_client_id + of_nat (2 ^ 16) = first_client_id + of_nat 0"
      by (simp add: first_client_id_def)
    ultimately have "2 ^ 16 = (0 :: nat)" by (meson inj_onD)
    then show False by simp
  qed
next
  assume "n \<le> 2 ^ 16"
  then have "inj_on (\<lambda>i. first_client_id + of_nat i) {0 ..< n}"
    by (auto intro!: inj_onI intro: of_nat_u16_inj)
  then show "distinct (fst (alloc_client_ids n first_client_id))"
    by (simp add: alloc_client_ids_eq distinct_map)
qed

end
