(* ===== verification/Bench_Client.thy ===== *)
theory Bench_Client
  imports Client_Interface Misc "HOL-Library.Product_Lexorder"
begin

text \<open>
  The benchmark driver of \<open>src/program/bench_client.rs\<close>, which keeps each of its clients busy
  with one operation at a time and polls it when its timer or a datagram asks for it.
\<close>

section \<open>State\<close>

text \<open>The trait \<open>ClientState\<close> as a record: the methods of the type parameter \<open>T\<close>.\<close>

record 'c client_ops =
  co_invoke :: "time_env \<Rightarrow> bytes \<Rightarrow> 'c \<Rightarrow> ('c \<times> sent list) res"
  co_take_result :: "'c \<Rightarrow> bytes option \<times> 'c"
  co_poll_at :: "'c \<Rightarrow> option_instant"
  co_poll :: "time_env \<Rightarrow> time_env \<Rightarrow> 'c \<Rightarrow> (bool \<times> 'c \<times> sent list) res"

text \<open>
  The \<open>BTreeSet\<close> of timers is a set of pairs under the lexicographic order.  \<open>pg_reads\<close> counts the
  readings of the clock so far, \<open>pg_sent\<close> are the datagrams sent so far.
\<close>

record 'c program =
  pg_clients :: "'c list"
  pg_poll_instants :: "option_instant list"
  pg_instant_polls :: "(option_instant \<times> usize) set"
  pg_run_duration :: duration
  pg_n_result :: u32
  pg_reads :: nat
  pg_sent :: "sent list"

text \<open>
  The parts of a client: the next client number, and the socket the operating system gave it,
  with its address and what its \<open>recv_from\<close> will return.
\<close>

definition bench_common ::
  "transport_config \<Rightarrow> u16 \<Rightarrow> socket_addr \<times> udp_recv stream \<Rightarrow> client_common \<times> u16" where
  "bench_common config next_id socket =
     (let (client_id, next_id) = alloc_client_id next_id
      in (\<lparr>cc_id = client_id, cc_config = config, cc_tx = Tx_Udp, cc_rx = Rx_Udp (snd socket),
           cc_rx_addr = fst socket, cc_clock = Clock_Real\<rparr>, next_id))"

fun bench_commons ::
  "transport_config \<Rightarrow> u16 \<Rightarrow> (socket_addr \<times> udp_recv stream) list \<Rightarrow> client_common list \<times> u16" where
  "bench_commons config next_id [] = ([], next_id)"
| "bench_commons config next_id (socket # sockets) =
     (let (common, next_id) = bench_common config next_id socket;
          (commons, next_id) = bench_commons config next_id sockets
      in (common # commons, next_id))"

text \<open>\<open>Program::new\<close>, with the constructor of the client type.\<close>

definition program_new :: "(client_common \<Rightarrow> 'c) \<Rightarrow> client_common list \<Rightarrow> duration \<Rightarrow> 'c program" where
  "program_new client_new commons run_duration =
     \<lparr>pg_clients = map client_new commons,
      pg_poll_instants = replicate (length commons) default_instant,
      pg_instant_polls = (\<lambda>i. (default_instant, i)) ` {..<length commons},
      pg_run_duration = run_duration, pg_n_result = 0, pg_reads = 0, pg_sent = []\<rparr>"

section \<open>Operations\<close>

text \<open>
  \<open>now k\<close> is the \<open>k\<close>-th reading of the clock.  A poll reads it up to twice and the \<open>invoke\<close> after
  it once.
\<close>

definition poll_client ::
  "'c client_ops \<Rightarrow> (nat \<Rightarrow> time_env) \<Rightarrow> usize \<Rightarrow> 'c program \<Rightarrow> (bool \<times> 'c program) res" where
  "poll_client ops now i p =
     (let k = pg_reads p in
      bind_res (index (pg_clients p) i) (\<lambda>c.
      bind_res (co_poll ops (now k) (now (k + 1)) c) (\<lambda>(poll_again, c, out).
      let (result, c) = co_take_result ops c;
          p = p\<lparr>pg_reads := k + 3, pg_sent := pg_sent p @ out\<rparr>
      in case result of
           Some _ \<Rightarrow>
             bind_res (co_invoke ops (now (k + 2)) [] c) (\<lambda>(c, out').
             Inr (poll_again, p\<lparr>pg_clients := (pg_clients p)[i := c],
                                pg_n_result := pg_n_result p + 1,
                                pg_sent := pg_sent p @ out'\<rparr>))
         | None \<Rightarrow> Inr (poll_again, p\<lparr>pg_clients := (pg_clients p)[i := c]\<rparr>))))"

definition update_timer :: "'c client_ops \<Rightarrow> usize \<Rightarrow> 'c program \<Rightarrow> 'c program res" where
  "update_timer ops i p =
     bind_res (index (pg_clients p) i) (\<lambda>c.
     bind_res (index (pg_poll_instants p) i) (\<lambda>old.
     let poll_at = co_poll_at ops c in
     if poll_at = old then Inr p
     else if (old, i) \<notin> pg_instant_polls p then Inl Assert_Failed
     else Inr (p\<lparr>pg_instant_polls := insert (poll_at, i) (pg_instant_polls p - {(old, i)}),
                 pg_poll_instants := (pg_poll_instants p)[i := poll_at]\<rparr>)))"

text \<open>\<open>while self.poll_client(i) {}\<close> and \<open>self.update_timer(i)\<close>.\<close>

definition serve_client ::
  "'c client_ops \<Rightarrow> (nat \<Rightarrow> time_env) \<Rightarrow> usize \<Rightarrow> 'c program \<Rightarrow> 'c program res" where
  "serve_client ops now i p = bind_res (poll_all (poll_client ops now i) p) (update_timer ops i)"

definition invoke_client ::
  "'c client_ops \<Rightarrow> (nat \<Rightarrow> time_env) \<Rightarrow> usize \<Rightarrow> 'c program \<Rightarrow> 'c program res" where
  "invoke_client ops now i p =
     (let k = pg_reads p in
      bind_res (index (pg_clients p) i) (\<lambda>c.
      bind_res (co_invoke ops (now k) [] c) (\<lambda>(c, out).
      Inr (p\<lparr>pg_clients := (pg_clients p)[i := c], pg_reads := k + 1, pg_sent := pg_sent p @ out\<rparr>))))"

text \<open>What \<open>run\<close> does before it reads the start time.\<close>

definition run_start :: "'c client_ops \<Rightarrow> (nat \<Rightarrow> time_env) \<Rightarrow> 'c program \<Rightarrow> 'c program res" where
  "run_start ops now p =
     bind_res (for_each (invoke_client ops now) [0..<length (pg_clients p)] p) (\<lambda>p.
     for_each (serve_client ops now) [0..<length (pg_clients p)] p)"

text \<open>\<open>self.instant_polls.iter().next()\<close>.\<close>

definition first_timer :: "'c program \<Rightarrow> (option_instant \<times> usize) option" where
  "first_timer p = (if pg_instant_polls p = {} then None else Some (Min (pg_instant_polls p)))"

text \<open>
  The body of the main loop, with the clients of the events not yet handled.  \<open>fresh\<close> is what
  \<open>epoll_wait\<close> answers in this turn if it is called: the clients of up to 64 events.
\<close>

definition run_body ::
  "'c client_ops \<Rightarrow> (nat \<Rightarrow> time_env) \<Rightarrow> usize list option \<Rightarrow> usize list \<times> 'c program \<Rightarrow>
   (usize list \<times> 'c program) res" where
  "run_body ops now fresh s =
     (let (events, p) = s in
      bind_res (unwrap (first_timer p)) (\<lambda>(poll_at, i).
      bind_res (if poll_at < default_instant then serve_client ops now i p else Inr p) (\<lambda>p.
      bind_res (if events = [] then unwrap_ok fresh else Inr events) (\<lambda>events.
      case events of
        [] \<Rightarrow> Inr ([], p)
      | i # rest \<Rightarrow>
          bind_res (poll_client ops now i p) (\<lambda>(poll_again, p).
          if poll_again then Inr (events, p)
          else bind_res (update_timer ops i p) (\<lambda>p. Inr (rest, p)))))))"

text \<open>One turn of the main loop with its condition.  \<open>epoll k\<close> is for the \<open>k\<close>-th turn.\<close>

definition run_turn ::
  "'c client_ops \<Rightarrow> (nat \<Rightarrow> time_env) \<Rightarrow> (nat \<Rightarrow> usize list option) \<Rightarrow> instant \<Rightarrow>
   nat \<times> usize list \<times> 'c program \<Rightarrow> (bool \<times> nat \<times> usize list \<times> 'c program) res" where
  "run_turn ops now epoll start s =
     (let (k, events, p) = s;
          time = te_now (now (pg_reads p));
          p = p\<lparr>pg_reads := pg_reads p + 1\<rparr>
      in if time - start < pg_run_duration p
         then bind_res (run_body ops now (epoll k) (events, p)) (\<lambda>(events, p).
           Inr (True, k + 1, events, p))
         else Inr (False, k, events, p))"

definition bench_run ::
  "'c client_ops \<Rightarrow> (nat \<Rightarrow> time_env) \<Rightarrow> (nat \<Rightarrow> usize list option) \<Rightarrow> 'c program \<Rightarrow> 'c program res" where
  "bench_run ops now epoll p =
     bind_res (run_start ops now p) (\<lambda>p.
     let start = te_now (now (pg_reads p));
         p = p\<lparr>pg_reads := pg_reads p + 1\<rparr>
     in bind_res (poll_all (run_turn ops now epoll start) (0, [], p)) (\<lambda>(k, events, p). Inr p))"

end
