(* ===== verification/Bench_Correct.thy ===== *)
theory Bench_Correct
  imports Bench_Client
begin

text \<open>
  The driver keeps its two timer tables alike, its clients busy and its count of results right,
  for every client that keeps the contract of \<open>ClientState\<close>.
\<close>

section \<open>Loops over a range of indices\<close>

lemma for_each_upt:
  assumes "for_each f [m..<n] s = Inr s'" and "m \<le> n" and "I m s"
    and "\<And>k s s'. m \<le> k \<Longrightarrow> k < n \<Longrightarrow> I k s \<Longrightarrow> f k s = Inr s' \<Longrightarrow> I (Suc k) s'"
  shows "I n s'"
  using assms
proof (induction "n - m" arbitrary: m s)
  case (Suc d)
  then have "[m..<n] = m # [Suc m..<n]" by (simp add: upt_conv_Cons)
  with Suc.prems(1) obtain s1 where s1: "f m s = Inr s1" "for_each f [Suc m..<n] s1 = Inr s'" by auto
  show ?case
    by (rule Suc.hyps(1) [OF _ s1(2)]) (use Suc s1(1) in auto)
qed simp

lemma for_each_upt_ok:
  assumes "m \<le> n" and "I m s"
    and "\<And>k s. m \<le> k \<Longrightarrow> k < n \<Longrightarrow> I k s \<Longrightarrow> \<exists>s'. f k s = Inr s' \<and> I (Suc k) s'"
  shows "\<exists>s'. for_each f [m..<n] s = Inr s'"
  using assms
proof (induction "n - m" arbitrary: m s)
  case (Suc d)
  then have u: "[m..<n] = m # [Suc m..<n]" by (simp add: upt_conv_Cons)
  have "m < n" using Suc.hyps(2) by simp
  with Suc.prems(3) [of m s] Suc.prems(2) obtain s1 where
    s1: "f m s = Inr s1" "I (Suc m) s1" by auto
  have "\<exists>s'. for_each f [Suc m..<n] s1 = Inr s'"
    by (rule Suc.hyps(1) [OF _ _ s1(2)]) (use Suc in auto)
  with s1 u show ?case by simp
qed simp

lemma sum_list_update_word:
  "i < length xs \<Longrightarrow>
     sum_list (map f (xs[i := y])) = sum_list (map f xs) + ((f y :: 'a :: ab_group_add) - f (xs ! i))"
  by (induction xs arbitrary: i) (auto split: nat.split)

section \<open>The timer tables\<close>

text \<open>The set of timers holds for each client its entry of \<open>poll_instants\<close> and nothing else.\<close>

definition timers_ok :: "'c program \<Rightarrow> bool" where
  "timers_ok p \<longleftrightarrow> length (pg_poll_instants p) = length (pg_clients p) \<and>
     pg_instant_polls p = (\<lambda>i. (pg_poll_instants p ! i, i)) ` {..<length (pg_clients p)}"

text \<open>The tables have the time at which each client wants to be polled, except for those in \<open>S\<close>.\<close>

definition timers_synced :: "'c client_ops \<Rightarrow> nat set \<Rightarrow> 'c program \<Rightarrow> bool" where
  "timers_synced ops S p \<longleftrightarrow>
     (\<forall>i < length (pg_clients p). i \<notin> S \<longrightarrow> pg_poll_instants p ! i = co_poll_at ops (pg_clients p ! i))"

lemma timers_ok_new: "timers_ok (program_new mk commons d)"
  by (simp add: timers_ok_def program_new_def)

lemma update_timer_result:
  assumes "timers_ok p" and "i < length (pg_clients p)"
  shows "update_timer ops i p = Inr (p\<lparr>
     pg_instant_polls := insert (co_poll_at ops (pg_clients p ! i), i)
       (pg_instant_polls p - {(pg_poll_instants p ! i, i)}),
     pg_poll_instants := (pg_poll_instants p)[i := co_poll_at ops (pg_clients p ! i)]\<rparr>)"
proof -
  have "(pg_poll_instants p ! i, i) \<in> pg_instant_polls p"
    using assms by (auto simp: timers_ok_def)
  then show ?thesis
    using assms by (auto simp: update_timer_def index_ok timers_ok_def Let_def insert_absorb)
qed

lemma update_timer_ok:
  assumes "timers_ok p" and "i < length (pg_clients p)" and "timers_synced ops S p"
  obtains p' where "update_timer ops i p = Inr p'" and "timers_ok p'"
    and "timers_synced ops (S - {i}) p'" and "pg_clients p' = pg_clients p"
    and "pg_n_result p' = pg_n_result p" and "pg_run_duration p' = pg_run_duration p"
    and "pg_reads p' = pg_reads p"
proof (rule that [OF update_timer_result [OF assms(1,2)]])
  let ?t = "co_poll_at ops (pg_clients p ! i)"
  have "insert (?t, i) (pg_instant_polls p - {(pg_poll_instants p ! i, i)}) =
      (\<lambda>j. ((pg_poll_instants p)[i := ?t] ! j, j)) ` {..<length (pg_clients p)}"
    using assms(1,2) by (auto simp: timers_ok_def nth_list_update image_iff)
  then show "timers_ok (p\<lparr>pg_instant_polls := insert (?t, i) (pg_instant_polls p - {(pg_poll_instants p ! i, i)}),
      pg_poll_instants := (pg_poll_instants p)[i := ?t]\<rparr>)"
    using assms(1) by (simp add: timers_ok_def)
  show "timers_synced ops (S - {i}) (p\<lparr>
      pg_instant_polls := insert (?t, i) (pg_instant_polls p - {(pg_poll_instants p ! i, i)}),
      pg_poll_instants := (pg_poll_instants p)[i := ?t]\<rparr>)"
    using assms by (auto simp: timers_synced_def timers_ok_def nth_list_update)
qed simp_all

lemma first_timer_in:
  assumes "timers_ok p" and "pg_clients p \<noteq> []"
  obtains t i where "first_timer p = Some (t, i)" and "i < length (pg_clients p)"
    and "t = pg_poll_instants p ! i"
proof -
  have ne: "pg_instant_polls p \<noteq> {}" and fin: "finite (pg_instant_polls p)"
    using assms by (auto simp: timers_ok_def)
  from Min_in [OF fin ne] obtain i where "i < length (pg_clients p)"
    "Min (pg_instant_polls p) = (pg_poll_instants p ! i, i)"
    using assms(1) by (auto simp: timers_ok_def)
  with ne that show ?thesis by (simp add: first_timer_def)
qed

lemma due_time_less_eq: "due_time a \<le> due_time b \<longleftrightarrow> a \<le> b"
  by (cases a rule: due_time.cases; cases b rule: due_time.cases) auto

lemma due_time_less: "due_time a < due_time b \<longleftrightarrow> a < b"
  using due_time_less_eq [of b a] by (simp add: not_le [symmetric])

lemma due_time_inj: "due_time a = due_time b \<longleftrightarrow> a = b"
  using due_time_less_eq [of a b] due_time_less_eq [of b a] by auto

text \<open>The first timer is that of the client with the least due time, and of these the first.\<close>

lemma first_timer_least:
  assumes "timers_ok p"
  shows "first_timer p = Some (t, i) \<longleftrightarrow>
    i < length (pg_clients p) \<and> t = pg_poll_instants p ! i \<and>
    (\<forall>j < length (pg_clients p). (due_time t, i) \<le> (due_time (pg_poll_instants p ! j), j))"
    (is "_ \<longleftrightarrow> ?R")
proof -
  let ?n = "length (pg_clients p)" and ?ps = "pg_instant_polls p"
  have ps: "?ps = (\<lambda>i. (pg_poll_instants p ! i, i)) ` {..<?n}" and fin: "finite ?ps"
    using assms by (auto simp: timers_ok_def)
  have le: "(due_time a, x) \<le> (due_time b, y) \<longleftrightarrow> (a, x) \<le> (b, y)" for a b and x y :: nat
    by (auto simp: less_eq_prod_def due_time_less_eq due_time_less due_time_inj)
  have "first_timer p = Some (t, i) \<longleftrightarrow> ?ps \<noteq> {} \<and> Min ?ps = (t, i)"
    by (auto simp: first_timer_def)
  also have "\<dots> \<longleftrightarrow> (t, i) \<in> ?ps \<and> (\<forall>x \<in> ?ps. (t, i) \<le> x)"
    using fin Min_eq_iff [of ?ps "(t, i)"] by auto
  also have "\<dots> \<longleftrightarrow> ?R" unfolding ps le by auto
  finally show ?thesis .
qed

section \<open>The states of the main loop\<close>

text \<open>
  The states in which the main loop reads the clock, with the start time of the run: the number of
  turns done, the clients of the events not handled yet, and the driver.
\<close>

inductive bench_reach ::
  "'c client_ops \<Rightarrow> (nat \<Rightarrow> time_env) \<Rightarrow> (nat \<Rightarrow> usize list option) \<Rightarrow> 'c program \<Rightarrow>
   instant \<Rightarrow> nat \<times> usize list \<times> 'c program \<Rightarrow> bool"
  for ops now epoll p0 where
  bench_start: "run_start ops now p0 = Inr p \<Longrightarrow>
     bench_reach ops now epoll p0 (te_now (now (pg_reads p))) (0, [], p\<lparr>pg_reads := pg_reads p + 1\<rparr>)"
| bench_turn: "bench_reach ops now epoll p0 start s \<Longrightarrow> run_turn ops now epoll start s = Inr (True, s') \<Longrightarrow>
     bench_reach ops now epoll p0 start s'"

text \<open>
  The loop ends when the clock, which it reads in every turn, stays past the end of the run.
\<close>

definition clock_advances :: "(nat \<Rightarrow> time_env) \<Rightarrow> bool" where
  "clock_advances now \<longleftrightarrow> (\<forall>T. \<exists>K. \<forall>k \<ge> K. T \<le> te_now (now k))"

definition epoll_ok :: "nat \<Rightarrow> (nat \<Rightarrow> usize list option) \<Rightarrow> bool" where
  "epoll_ok n epoll \<longleftrightarrow> (\<forall>k. \<exists>es. epoll k = Some es \<and> set es \<subseteq> {..<n})"

section \<open>What a poll of a client does\<close>

lemma poll_client_Inr:
  assumes "poll_client ops now i p = Inr (again, p')"
  obtains c1 out r c2 where "i < length (pg_clients p)"
    and "co_poll ops (now (pg_reads p)) (now (pg_reads p + 1)) (pg_clients p ! i) = Inr (again, c1, out)"
    and "co_take_result ops c1 = (r, c2)"
    and "r = None \<longrightarrow> p' = p\<lparr>pg_clients := (pg_clients p)[i := c2], pg_reads := pg_reads p + 3,
           pg_sent := pg_sent p @ out\<rparr>"
    and "r \<noteq> None \<longrightarrow> (\<exists>c3 out'. co_invoke ops (now (pg_reads p + 2)) [] c2 = Inr (c3, out') \<and>
           p' = p\<lparr>pg_clients := (pg_clients p)[i := c3], pg_reads := pg_reads p + 3,
                  pg_n_result := pg_n_result p + 1, pg_sent := pg_sent p @ out @ out'\<rparr>)"
proof -
  let ?poll = "co_poll ops (now (pg_reads p)) (now (pg_reads p + 1)) (pg_clients p ! i)"
  from assms have i: "i < length (pg_clients p)" by (auto simp: poll_client_def Let_def)
  then obtain again1 c1 out where p1: "?poll = Inr (again1, c1, out)"
    using assms by (cases ?poll) (auto simp: poll_client_def Let_def index_ok)
  obtain r c2 where t: "co_take_result ops c1 = (r, c2)" by (cases "co_take_result ops c1")
  have again: "again1 = again"
    using assms i p1 t by (cases r) (auto simp: poll_client_def Let_def index_ok)
  show ?thesis
    by (rule that [OF i _ t])
       (use assms i p1 t again in \<open>auto simp: poll_client_def Let_def index_ok split: option.splits\<close>)
qed

text \<open>
  When every poll of a client reads a datagram and none brings a result, the loop over its polls does
  not end.
\<close>

lemma drain_diverges:
  assumes "i < length (pg_clients p)" and "F (pg_clients p ! i)"
    and "\<And>c t t'. F c \<Longrightarrow> \<exists>c1 c2 out. co_poll ops t t' c = Inr (True, c1, out) \<and>
      co_take_result ops c1 = (None, c2) \<and> F c2"
  shows "poll_all (poll_client ops now i) p = Inl Diverges"
proof (rule poll_all_diverges [where I = "\<lambda>p :: 'a program. i < length (pg_clients p) \<and> F (pg_clients p ! i)"])
  fix s :: "'a program"
  assume s: "i < length (pg_clients s) \<and> F (pg_clients s ! i)"
  with assms(3) [of "pg_clients s ! i" "now (pg_reads s)" "now (pg_reads s + 1)"]
  obtain c1 c2 out where
    "co_poll ops (now (pg_reads s)) (now (pg_reads s + 1)) (pg_clients s ! i) = Inr (True, c1, out)"
    "co_take_result ops c1 = (None, c2)" "F c2" by blast
  with s show "\<exists>s'. poll_client ops now i s = Inr (True, s') \<and> i < length (pg_clients s') \<and> F (pg_clients s' ! i)"
    by (simp add: poll_client_def index_ok)
qed (use assms(1,2) in simp)

section \<open>The driver on a client with the contract\<close>

text \<open>
  \<open>count\<close> is the number of operations the client has started.  A \<open>healthy\<close> client does not panic, and
  the datagrams it can read before there is none are finitely many.
\<close>

locale bench = client_state "co_invoke ops" "co_take_result ops" "co_poll_at ops" "co_poll ops" inv idle pending
  for ops :: "'c client_ops" and inv :: "'c \<Rightarrow> bool" and idle :: "'c \<Rightarrow> bool" and pending :: "'c \<Rightarrow> enat" +
  fixes count :: "'c \<Rightarrow> u32" and healthy :: "'c \<Rightarrow> bool"
  assumes invoke_count: "co_invoke ops t op c = Inr (c', out) \<Longrightarrow> count c' = count c + 1"
    and take_result_count: "count (snd (co_take_result ops c)) = count c"
    and poll_count: "co_poll ops t t' c = Inr (again, c', out) \<Longrightarrow> count c' = count c"
    and healthy_invoke: "healthy c \<Longrightarrow> idle c \<Longrightarrow>
          \<exists>c' out. co_invoke ops t op c = Inr (c', out) \<and> healthy c'"
    and healthy_take_result: "healthy c \<Longrightarrow> healthy (snd (co_take_result ops c))"
    and healthy_poll: "healthy c \<Longrightarrow> inv c \<Longrightarrow>
          \<exists>again c' out. co_poll ops t t' c = Inr (again, c', out) \<and> healthy c'"
    and healthy_pending: "healthy c \<Longrightarrow> pending c \<noteq> \<infinity>"
begin

text \<open>
  Each client is busy, and the driver has counted all its operations but the one in flight.
\<close>

definition driven :: "'c program \<Rightarrow> bool" where
  "driven p \<longleftrightarrow> timers_ok p \<and> (\<forall>c \<in> set (pg_clients p). inv c \<and> \<not> idle c) \<and>
     sum_list (map count (pg_clients p)) = of_nat (length (pg_clients p)) + pg_n_result p"

definition same_frame :: "'c program \<Rightarrow> 'c program \<Rightarrow> bool" where
  "same_frame p p' \<longleftrightarrow> length (pg_clients p') = length (pg_clients p) \<and>
     pg_run_duration p' = pg_run_duration p \<and> pg_reads p \<le> pg_reads p'"

text \<open>A poll of one client, and the \<open>invoke\<close> that follows a result.\<close>

lemma polled_client:
  assumes "inv c" and "\<not> idle c" and "co_poll ops t t' c = Inr (again, c1, out)"
    and "co_take_result ops c1 = (r, c2)"
  shows "inv c2" and "count c2 = count c" and "again \<Longrightarrow> pending c = eSuc (pending c2)"
    and "r = None \<longleftrightarrow> \<not> idle c2"
proof -
  have i1: "inv c1" using poll_inv [OF assms(1,3)] .
  have c2: "c2 = snd (co_take_result ops c1)" "r = fst (co_take_result ops c1)"
    using assms(4) by simp_all
  show "inv c2" using take_result_inv [OF i1] c2 by simp
  show "count c2 = count c" using take_result_count poll_count [OF assms(3)] c2 by simp
  show "again \<Longrightarrow> pending c = eSuc (pending c2)"
    using poll_again take_result_pending assms(3) c2 by simp
  show "r = None \<longleftrightarrow> \<not> idle c2"
    using poll_completes [OF assms(3,2)] result_idle [OF i1] unfolding c2 take_result_idle by blast
qed

text \<open>What a successful \<open>poll_client\<close> has done.\<close>

lemma poll_client_step:
  assumes "driven p" and "poll_client ops now i p = Inr (again, p')"
  shows "driven p'" and "same_frame p p'" and "i < length (pg_clients p)"
    and "again \<Longrightarrow> pending (pg_clients p ! i) = eSuc (pending (pg_clients p' ! i))"
    and "timers_synced ops S p \<Longrightarrow> timers_synced ops (insert i S) p'"
    and "\<forall>c \<in> set (pg_clients p). healthy c \<Longrightarrow> \<forall>c \<in> set (pg_clients p'). healthy c"
proof -
  let ?c = "pg_clients p ! i" and ?k = "pg_reads p"
  from assms(2) obtain c1 out r c2 where i: "i < length (pg_clients p)"
    and p1: "co_poll ops (now ?k) (now (?k + 1)) ?c = Inr (again, c1, out)"
    and t: "co_take_result ops c1 = (r, c2)"
    and none: "r = None \<longrightarrow> p' = p\<lparr>pg_clients := (pg_clients p)[i := c2], pg_reads := ?k + 3,
           pg_sent := pg_sent p @ out\<rparr>"
    and some: "r \<noteq> None \<longrightarrow> (\<exists>c3 out'. co_invoke ops (now (?k + 2)) [] c2 = Inr (c3, out') \<and>
           p' = p\<lparr>pg_clients := (pg_clients p)[i := c3], pg_reads := ?k + 3,
                  pg_n_result := pg_n_result p + 1, pg_sent := pg_sent p @ out @ out'\<rparr>)"
    by (rule poll_client_Inr)
  from i have c: "inv ?c" "\<not> idle ?c" "?c \<in> set (pg_clients p)" using assms(1) by (auto simp: driven_def)
  note c2 = polled_client [OF c(1,2) p1 t]
  have "\<exists>c3 out3. inv c3 \<and> \<not> idle c3 \<and> pending c3 = pending c2 \<and>
      count c3 = count ?c + (if r = None then 0 else 1) \<and> (healthy c2 \<longrightarrow> healthy c3) \<and>
      p' = p\<lparr>pg_clients := (pg_clients p)[i := c3], pg_reads := ?k + 3, pg_sent := out3,
             pg_n_result := pg_n_result p + (if r = None then 0 else 1)\<rparr>"
  proof (cases "r = None")
    case True
    with none c2(1,2,4) show ?thesis by (intro exI [of _ c2] exI [of _ "pg_sent p @ out"]) simp
  next
    case False
    with some obtain c3 out' where c3: "co_invoke ops (now (?k + 2)) [] c2 = Inr (c3, out')"
      and p': "p' = p\<lparr>pg_clients := (pg_clients p)[i := c3], pg_reads := ?k + 3,
         pg_n_result := pg_n_result p + 1, pg_sent := pg_sent p @ out @ out'\<rparr>" by blast
    have "healthy c3" if "healthy c2"
      using healthy_invoke [OF that, of "now (?k + 2)" "[]"] c2(4) False c3 by auto
    with invoke_inv [OF c2(1) c3] invoke_not_idle [OF c3] invoke_pending [OF c3] invoke_count [OF c3]
      c2(2) p' False
    show ?thesis by (intro exI [of _ c3] exI [of _ "pg_sent p @ out @ out'"]) simp
  qed
  then obtain c3 out3 where c3: "inv c3" "\<not> idle c3" "pending c3 = pending c2"
    "count c3 = count ?c + (if r = None then 0 else 1)" "healthy c2 \<longrightarrow> healthy c3"
    and p': "p' = p\<lparr>pg_clients := (pg_clients p)[i := c3], pg_reads := ?k + 3, pg_sent := out3,
             pg_n_result := pg_n_result p + (if r = None then 0 else 1)\<rparr>" by blast
  show "driven p'"
    using assms(1) c3 i set_update_subset_insert [of "pg_clients p" i c3]
    by (auto simp: driven_def timers_ok_def p' sum_list_update_word)
  show "same_frame p p'" by (simp add: same_frame_def p')
  show "i < length (pg_clients p)" by (rule i)
  show "again \<Longrightarrow> pending (pg_clients p ! i) = eSuc (pending (pg_clients p' ! i))"
    using c2(3) c3(3) i by (simp add: p')
  show "timers_synced ops S p \<Longrightarrow> timers_synced ops (insert i S) p'"
    by (auto simp: timers_synced_def p' nth_list_update)
  show "\<forall>c \<in> set (pg_clients p'). healthy c" if h: "\<forall>c \<in> set (pg_clients p). healthy c"
  proof -
    from healthy_poll [of ?c "now ?k" "now (?k + 1)"] h c p1 have "healthy c1" by auto
    then have "healthy c3" using healthy_take_result [of c1] t c3(5) by simp
    with h set_update_subset_insert [of "pg_clients p" i c3] show ?thesis by (auto simp: p')
  qed
qed

subsection \<open>The steps of the driver\<close>

definition advanced :: "'c program \<Rightarrow> 'c program \<Rightarrow> bool" where
  "advanced p p' \<longleftrightarrow> driven p' \<and> same_frame p p' \<and>
     ((\<forall>c \<in> set (pg_clients p). healthy c) \<longrightarrow> (\<forall>c \<in> set (pg_clients p'). healthy c))"

lemma advanced_trans: "advanced p p' \<Longrightarrow> advanced p' p'' \<Longrightarrow> advanced p p''"
  by (auto simp: advanced_def same_frame_def)

lemma advanced_refl: "driven p \<Longrightarrow> advanced p p"
  by (simp add: advanced_def same_frame_def)

lemma advanced_driven: "advanced p p' \<Longrightarrow> driven p'"
  by (simp add: advanced_def)

lemma driven_timers: "driven p \<Longrightarrow> timers_ok p"
  by (simp add: driven_def)

lemma poll_client_advanced:
  assumes "driven p" and "poll_client ops now i p = Inr (again, p')"
  shows "advanced p p' \<and> (timers_synced ops S p \<longrightarrow> timers_synced ops (insert i S) p')"
  using poll_client_step [OF assms] by (cases again) (auto simp: advanced_def)

lemma drain_advanced:
  assumes "driven p" and "poll_all (poll_client ops now i) p = Inr p'"
  shows "advanced p p' \<and> (timers_synced ops S p \<longrightarrow> timers_synced ops (insert i S) p') \<and>
    i < length (pg_clients p)"
proof (rule poll_all_rule [OF assms(2), where
      I = "\<lambda>q. advanced p q \<and> (timers_synced ops S p \<longrightarrow> timers_synced ops (insert i S) q)"])
  show "advanced p p \<and> (timers_synced ops S p \<longrightarrow> timers_synced ops (insert i S) p)"
    using advanced_refl [OF assms(1)] by (auto simp: timers_synced_def)
next
  fix q q'
  assume q: "advanced p q \<and> (timers_synced ops S p \<longrightarrow> timers_synced ops (insert i S) q)"
  {
    fix again
    assume r: "poll_client ops now i q = Inr (again, q')"
    from poll_client_advanced [OF advanced_driven r, of p "insert i S"] q advanced_trans [of p q q']
    show "advanced p q' \<and> (timers_synced ops S p \<longrightarrow> timers_synced ops (insert i S) q')"
      by simp
  } note step = this
  assume r: "poll_client ops now i q = Inr (False, q')"
  from poll_client_step(3) [OF advanced_driven r, of p] q have "i < length (pg_clients p)"
    by (auto simp: advanced_def same_frame_def)
  with step [OF r] show "advanced p q' \<and> (timers_synced ops S p \<longrightarrow> timers_synced ops (insert i S) q') \<and>
    i < length (pg_clients p)" by simp
qed

lemma update_timer_advanced:
  assumes "driven p" and "update_timer ops i p = Inr p'"
  shows "advanced p p' \<and> (timers_synced ops S p \<longrightarrow> timers_synced ops (S - {i}) p')"
proof -
  from assms(2) have i: "i < length (pg_clients p)" by (auto simp: update_timer_def)
  from assms(1) have "timers_synced ops UNIV p" by (simp add: timers_synced_def)
  with update_timer_ok [OF driven_timers [OF assms(1)] i, of ops UNIV] assms(2)
  have p': "timers_ok p'" "pg_clients p' = pg_clients p" "pg_n_result p' = pg_n_result p"
    "pg_run_duration p' = pg_run_duration p" "pg_reads p' = pg_reads p" by (metis Inr_inject)+
  have "timers_synced ops (S - {i}) p'" if "timers_synced ops S p"
    using update_timer_ok [OF driven_timers [OF assms(1)] i that] assms(2) by (metis Inr_inject)
  with p' assms(1) show ?thesis
    by (simp add: advanced_def driven_def same_frame_def)
qed

lemma serve_client_advanced:
  assumes "driven p" and "serve_client ops now i p = Inr p'"
  shows "advanced p p' \<and> (timers_synced ops S p \<longrightarrow> timers_synced ops (S - {i}) p')"
proof -
  from assms(2) obtain q where q: "poll_all (poll_client ops now i) p = Inr q"
    and u: "update_timer ops i q = Inr p'" by (auto simp: serve_client_def)
  from drain_advanced [OF assms(1) q, of S] have a: "advanced p q"
    "timers_synced ops S p \<longrightarrow> timers_synced ops (insert i S) q" by auto
  from update_timer_advanced [OF advanced_driven [OF a(1)] u, of "insert i S"] a advanced_trans
  show ?thesis by fastforce
qed

subsection \<open>The main loop\<close>

lemma run_body_advanced:
  assumes "driven p" and "run_body ops now fresh (events, p) = Inr (events', p')"
  shows "advanced p p' \<and> (timers_synced ops (set (take 1 events)) p \<longrightarrow>
    timers_synced ops (set (take 1 events')) p')"
proof -
  let ?S = "\<lambda>es q. timers_synced ops (set (take 1 events)) p \<longrightarrow> timers_synced ops (set (take 1 es)) q"
  from assms(2) obtain t i where
    "bind_res (if t < default_instant then serve_client ops now i p else Inr p) (\<lambda>p.
      bind_res (if events = [] then unwrap_ok fresh else Inr events) (\<lambda>events.
      case events of
        [] \<Rightarrow> Inr ([], p)
      | i # rest \<Rightarrow>
          bind_res (poll_client ops now i p) (\<lambda>(poll_again, p).
          if poll_again then Inr (events, p)
          else bind_res (update_timer ops i p) (\<lambda>p. Inr (rest, p))))) = Inr (events', p')"
    by (auto simp: run_body_def split: prod.splits)
  then obtain q es where q: "(if t < default_instant then serve_client ops now i p else Inr p) = Inr q"
    and es: "(if events = [] then unwrap_ok fresh else Inr events) = Inr es"
    and rest: "(case es of
        [] \<Rightarrow> Inr ([], q)
      | i # rest \<Rightarrow>
          bind_res (poll_client ops now i q) (\<lambda>(poll_again, p).
          if poll_again then Inr (es, p)
          else bind_res (update_timer ops i p) (\<lambda>p. Inr (rest, p)))) = Inr (events', p')"
    by auto
  have aq: "advanced p q" and sq: "?S es q"
  proof -
    have "advanced p q \<and> ?S events q"
      using serve_client_advanced [OF assms(1), of now i q "set (take 1 events)"] q
        advanced_refl [OF assms(1)]
      by (auto simp: timers_synced_def split: if_splits)
    with es show "advanced p q" "?S es q"
      by (auto simp: timers_synced_def split: if_splits)
  qed
  show ?thesis
  proof (cases es)
    case Nil
    with rest aq sq show ?thesis by simp
  next
    case (Cons j js)
    with rest obtain again r where r: "poll_client ops now j q = Inr (again, r)"
      and k: "if again then events' = es \<and> p' = r else events' = js \<and> update_timer ops j r = Inr p'"
      by (auto split: if_splits)
    from poll_client_advanced [OF advanced_driven [OF aq] r, of "{j}"] sq Cons
    have ar: "advanced q r" "?S es r" by auto
    show ?thesis
    proof (cases again)
      case True
      with k ar advanced_trans [OF aq ar(1)] show ?thesis by simp
    next
      case False
      with k update_timer_advanced [OF advanced_driven [OF ar(1)], of j p' "{j}"] ar(2) Cons
      have "advanced r p'" "?S [] p'" "events' = js" by auto
      with advanced_trans [OF advanced_trans [OF aq ar(1)]] show ?thesis
        by (auto simp: timers_synced_def)
    qed
  qed
qed

lemma driven_reads: "driven (p\<lparr>pg_reads := k\<rparr>) = driven p"
  by (simp add: driven_def timers_ok_def)

text \<open>What holds at the head of the main loop.\<close>

definition loop_inv :: "nat \<times> usize list \<times> 'c program \<Rightarrow> bool" where
  "loop_inv s \<longleftrightarrow> (case s of (k, events, p) \<Rightarrow>
     driven p \<and> timers_synced ops (set (take 1 events)) p)"

lemma run_turn_inv:
  assumes "loop_inv s" and "run_turn ops now epoll start s = Inr (again, s')"
  shows "loop_inv s'"
proof -
  obtain k events p where s: "s = (k, events, p)" by (cases s)
  let ?p = "p\<lparr>pg_reads := pg_reads p + 1\<rparr>"
  have inv: "driven ?p" "timers_synced ops (set (take 1 events)) ?p"
    using assms(1) by (simp_all add: loop_inv_def s driven_reads timers_synced_def)
  show ?thesis
  proof (cases "te_now (now (pg_reads p)) - start < pg_run_duration p")
    case True
    with assms(2) obtain es q where b: "run_body ops now (epoll k) (events, ?p) = Inr (es, q)"
      and s': "s' = (k + 1, es, q)"
      by (auto simp: run_turn_def s Let_def)
    from run_body_advanced [OF inv(1) b] inv(2) show ?thesis
      by (simp add: s' loop_inv_def advanced_def)
  next
    case False
    with assms(2) inv show ?thesis by (auto simp: run_turn_def s Let_def loop_inv_def)
  qed
qed

subsection \<open>The start\<close>

text \<open>The first \<open>k\<close> clients have been given their first operation.\<close>

definition started :: "nat \<Rightarrow> 'c program \<Rightarrow> bool" where
  "started k p \<longleftrightarrow> timers_ok p \<and> pg_n_result p = 0 \<and>
     (\<forall>i < length (pg_clients p). inv (pg_clients p ! i) \<and> (idle (pg_clients p ! i) \<longleftrightarrow> k \<le> i) \<and>
        count (pg_clients p ! i) = (if i < k then 1 else 0))"

definition all_healthy :: "'c program \<Rightarrow> bool" where
  "all_healthy p \<longleftrightarrow> (\<forall>c \<in> set (pg_clients p). healthy c)"

lemma invoke_client_started:
  assumes "started k p" and "invoke_client ops now k p = Inr p'"
  shows "started (Suc k) p' \<and> same_frame p p' \<and> (all_healthy p \<longrightarrow> all_healthy p')"
proof -
  let ?c = "pg_clients p ! k"
  from assms(2) obtain c' out where k: "k < length (pg_clients p)"
    and c': "co_invoke ops (now (pg_reads p)) [] ?c = Inr (c', out)"
    and p': "p' = p\<lparr>pg_clients := (pg_clients p)[k := c'], pg_reads := pg_reads p + 1,
                    pg_sent := pg_sent p @ out\<rparr>"
    by (auto simp: invoke_client_def Let_def)
  from assms(1) k have c: "inv ?c" "idle ?c" "count ?c = 0" by (auto simp: started_def)
  have "healthy c'" if "all_healthy p"
    using healthy_invoke [of ?c "now (pg_reads p)" "[]"] that k c c' by (auto simp: all_healthy_def)
  then have "all_healthy p \<longrightarrow> all_healthy p'"
    using set_update_subset_insert [of "pg_clients p" k c'] by (auto simp: all_healthy_def p')
  moreover have "started (Suc k) p'"
    using assms(1) c invoke_inv [OF c(1) c'] invoke_not_idle [OF c'] invoke_count [OF c']
    by (auto simp: started_def timers_ok_def p' nth_list_update less_Suc_eq_le)
  ultimately show ?thesis by (simp add: same_frame_def p')
qed

lemma started_driven:
  assumes "started (length (pg_clients p)) p"
  shows "driven p"
proof -
  have "map count (pg_clients p) = replicate (length (pg_clients p)) 1"
    by (rule nth_equalityI) (use assms in \<open>auto simp: started_def\<close>)
  with assms show ?thesis
    by (auto simp: started_def driven_def in_set_conv_nth sum_list_replicate)
qed

lemma same_frame_trans: "same_frame p q \<Longrightarrow> same_frame q r \<Longrightarrow> same_frame p r"
  by (auto simp: same_frame_def)

lemma same_frame_refl: "same_frame p p"
  by (simp add: same_frame_def)

lemma run_start_inv:
  assumes "started 0 p" and "run_start ops now p = Inr p'"
  shows "driven p' \<and> timers_synced ops {} p' \<and> same_frame p p'"
proof -
  let ?n = "length (pg_clients p)"
  from assms(2) obtain q where q: "for_each (invoke_client ops now) [0..<?n] p = Inr q"
    and r: "for_each (serve_client ops now) [0..<length (pg_clients q)] q = Inr p'"
    by (auto simp: run_start_def)
  have "started ?n q \<and> same_frame p q"
  proof (rule for_each_upt [OF q, where I = "\<lambda>k q. started k q \<and> same_frame p q"])
    show "started 0 p \<and> same_frame p p" using assms(1) same_frame_refl by blast
  next
    fix k s s'
    assume "started k s \<and> same_frame p s" "invoke_client ops now k s = Inr s'"
    with invoke_client_started [of k s now s'] same_frame_trans
    show "started (Suc k) s' \<and> same_frame p s'" by blast
  qed simp
  then have dq: "driven q" "same_frame p q" and n: "length (pg_clients q) = ?n"
    using started_driven [of q] by (auto simp: same_frame_def)
  have "advanced q p' \<and> timers_synced ops {?n..} p'"
  proof (rule for_each_upt [OF r [unfolded n], where I = "\<lambda>k s. advanced q s \<and> timers_synced ops {k..} s"])
    show "advanced q q \<and> timers_synced ops {0..} q"
      using advanced_refl [OF dq(1)] by (simp add: timers_synced_def)
  next
    fix k s s'
    assume s: "advanced q s \<and> timers_synced ops {k..} s" and "serve_client ops now k s = Inr s'"
    from serve_client_advanced [OF advanced_driven this(2), of q "{k..}"] s advanced_trans
    have "advanced q s'" "timers_synced ops ({k..} - {k}) s'" by blast+
    then show "advanced q s' \<and> timers_synced ops {Suc k..} s'"
      by (auto simp: timers_synced_def)
  qed simp
  with dq n same_frame_trans show ?thesis
    by (auto simp: advanced_def timers_synced_def same_frame_def)
qed

lemma bench_reach_inv:
  assumes "bench_reach ops now epoll p0 start s" and "started 0 p0"
  shows "loop_inv s"
  using assms(1)
proof induction
  case (bench_start p)
  from run_start_inv [OF assms(2) this] show ?case
    by (simp add: loop_inv_def driven_reads timers_synced_def)
qed (rule run_turn_inv)

subsection \<open>Healthy clients keep the driver running\<close>

lemma poll_client_ok:
  assumes "driven p" and "all_healthy p" and "i < length (pg_clients p)"
  shows "\<exists>again p'. poll_client ops now i p = Inr (again, p')"
proof -
  let ?c = "pg_clients p ! i" and ?k = "pg_reads p"
  have c: "?c \<in> set (pg_clients p)" using assms(3) by simp
  then have ci: "inv ?c" "\<not> idle ?c" "healthy ?c"
    using assms(1,2) by (auto simp: driven_def all_healthy_def)
  from healthy_poll [OF ci(3,1), of "now ?k" "now (?k + 1)"] obtain again c1 out where
    p1: "co_poll ops (now ?k) (now (?k + 1)) ?c = Inr (again, c1, out)" and h1: "healthy c1" by blast
  obtain r c2 where t: "co_take_result ops c1 = (r, c2)" by (cases "co_take_result ops c1")
  show ?thesis
  proof (cases r)
    case None
    with p1 t assms(3) show ?thesis by (simp add: poll_client_def index_ok)
  next
    case (Some x)
    from polled_client(4) [OF ci(1,2) p1 t] Some have "idle c2" by simp
    with healthy_take_result [OF h1] t obtain c3 out' where
      "co_invoke ops (now (?k + 2)) [] c2 = Inr (c3, out')"
      using healthy_invoke [of c2] by fastforce
    with p1 t assms(3) Some show ?thesis by (simp add: poll_client_def index_ok)
  qed
qed

text \<open>The states between the operations of the driver, with \<open>n\<close> clients.\<close>

definition going :: "nat \<Rightarrow> 'c program \<Rightarrow> bool" where
  "going n p \<longleftrightarrow> driven p \<and> all_healthy p \<and> length (pg_clients p) = n"

lemma going_advanced: "going n p \<Longrightarrow> advanced p p' \<Longrightarrow> going n p'"
  by (auto simp: going_def advanced_def all_healthy_def same_frame_def)

lemma drain_ok:
  assumes "going n p" and "i < n"
  shows "\<exists>p'. poll_all (poll_client ops now i) p = Inr p' \<and> going n p'"
proof (rule poll_all_ok [where m = "\<lambda>p. the_enat (pending (pg_clients p ! i))"])
  fix s
  assume s: "going n s"
  then obtain again s' where "poll_client ops now i s = Inr (again, s')"
    using poll_client_ok [of s i now] assms(2) by (auto simp: going_def)
  with s poll_client_advanced [of s now i again s'] going_advanced
  show "\<exists>again s'. poll_client ops now i s = Inr (again, s') \<and> going n s'"
    by (metis going_def)
next
  fix s s'
  assume s: "going n s" and r: "poll_client ops now i s = Inr (True, s')"
  then have "driven s" and "healthy (pg_clients s ! i)"
    using assms(2) by (auto simp: going_def all_healthy_def)
  with poll_client_step(4) [OF _ r] healthy_pending [of "pg_clients s ! i"]
  show "the_enat (pending (pg_clients s' ! i)) < the_enat (pending (pg_clients s ! i))"
    by (cases "pending (pg_clients s' ! i)") (auto simp: eSuc_enat)
qed (rule assms(1))

lemma update_going:
  assumes "going n p" and "i < n"
  shows "\<exists>p'. update_timer ops i p = Inr p' \<and> going n p'"
proof -
  have "timers_ok p" "i < length (pg_clients p)" using assms by (auto simp: going_def driven_def)
  from update_timer_result [OF this, of ops] obtain p' where p': "update_timer ops i p = Inr p'" by blast
  with update_timer_advanced [of p i p'] assms(1) going_advanced show ?thesis
    by (metis going_def)
qed

lemma serve_client_ok:
  assumes "going n p" and "i < n"
  shows "\<exists>p'. serve_client ops now i p = Inr p' \<and> going n p'"
  using drain_ok [OF assms, of now] update_going [of n _ i] assms(2) by (auto simp: serve_client_def)

lemma run_body_ok:
  assumes "going n p" and "0 < n" and "set events \<subseteq> {..<n}" and "fresh = Some es" and "set es \<subseteq> {..<n}"
  shows "\<exists>events' p'. run_body ops now fresh (events, p) = Inr (events', p') \<and> going n p' \<and>
    set events' \<subseteq> {..<n}"
proof -
  have "timers_ok p" "pg_clients p \<noteq> []" using assms(1,2) by (auto simp: going_def driven_def)
  then obtain t i where t: "first_timer p = Some (t, i)" "i < length (pg_clients p)"
    by (rule first_timer_in)
  then have i: "i < n" using assms(1) by (simp add: going_def)
  obtain q where q: "(if t < default_instant then serve_client ops now i p else Inr p) = Inr q"
    "going n q" using serve_client_ok [OF assms(1) i] assms(1) by (cases "t < default_instant") auto
  define evs where "evs = (if events = [] then es else events)"
  have evs: "(if events = [] then unwrap_ok fresh else Inr events) = Inr evs" "set evs \<subseteq> {..<n}"
    using assms(3-5) by (auto simp: evs_def)
  show ?thesis
  proof (cases evs)
    case Nil
    with q evs(1) t show ?thesis by (simp add: run_body_def)
  next
    case (Cons j js)
    with evs(2) have j: "j < n" "set js \<subseteq> {..<n}" by auto
    obtain again r where r: "poll_client ops now j q = Inr (again, r)"
      using poll_client_ok [of q j now] q(2) j(1) by (auto simp: going_def)
    with poll_client_advanced [of q now j again r] q(2) going_advanced
    have g: "going n r" by (metis going_def)
    from update_going [OF this j(1)] obtain r' where "update_timer ops j r = Inr r'" "going n r'" by blast
    with Cons q evs t r j g show ?thesis by (cases again) (simp_all add: run_body_def)
  qed
qed

lemma run_start_ok:
  assumes "started 0 p" and "all_healthy p"
  shows "\<exists>p'. run_start ops now p = Inr p' \<and> going (length (pg_clients p)) p'"
proof -
  let ?n = "length (pg_clients p)"
  let ?I = "\<lambda>k q. started k q \<and> same_frame p q \<and> all_healthy q"
  have step: "\<exists>s'. invoke_client ops now k s = Inr s' \<and> ?I (Suc k) s'" if "k < ?n" "?I k s" for k s
  proof -
    let ?c = "pg_clients s ! k"
    have k: "k < length (pg_clients s)" using that by (simp add: same_frame_def)
    then have "healthy ?c" "idle ?c" using that(2) by (auto simp: started_def all_healthy_def)
    from healthy_invoke [OF this, of "now (pg_reads s)" "[]"] k
    obtain s' where "invoke_client ops now k s = Inr s'" by (auto simp: invoke_client_def index_ok)
    with invoke_client_started [of k s now s'] that(2) same_frame_trans [of p s s'] show ?thesis by blast
  qed
  have I0: "?I 0 p" using assms same_frame_refl by blast
  from for_each_upt_ok [of 0 ?n ?I p "invoke_client ops now"] I0 step
  obtain q where q: "for_each (invoke_client ops now) [0..<?n] p = Inr q" by blast
  have "?I ?n q"
  proof (rule for_each_upt [OF q, where I = ?I])
    fix k s s'
    assume "k < ?n" "?I k s" "invoke_client ops now k s = Inr s'"
    with step [of k s] show "?I (Suc k) s'" by auto
  qed (use I0 in auto)
  then have g: "going ?n q" and n: "length (pg_clients q) = ?n"
    using started_driven [of q] by (auto simp: going_def same_frame_def)
  from for_each_ok [of "going ?n" q "[0..<?n]" "serve_client ops now"] g serve_client_ok
  obtain r where "for_each (serve_client ops now) [0..<?n] q = Inr r" "going ?n r" by auto
  with q n show ?thesis by (simp add: run_start_def)
qed

lemma going_reads: "going n (p\<lparr>pg_reads := k\<rparr>) = going n p"
  by (simp add: going_def driven_reads all_healthy_def)

text \<open>One turn of the main loop.\<close>

lemma run_turn_ok:
  assumes "going n p" and "0 < n" and "epoll_ok n epoll" and "set events \<subseteq> {..<n}"
  shows "\<exists>again k' events' p'. run_turn ops now epoll start (k, events, p) = Inr (again, k', events', p') \<and>
    going n p' \<and> set events' \<subseteq> {..<n} \<and> pg_run_duration p' = pg_run_duration p \<and> pg_reads p < pg_reads p' \<and>
    (again \<longrightarrow> te_now (now (pg_reads p)) < start + pg_run_duration p)"
proof -
  let ?p = "p\<lparr>pg_reads := pg_reads p + 1\<rparr>"
  have g: "going n ?p" using assms(1) by (simp add: going_reads)
  show ?thesis
  proof (cases "te_now (now (pg_reads p)) - start < pg_run_duration p")
    case True
    obtain es where es: "epoll k = Some es" "set es \<subseteq> {..<n}" using assms(3) by (auto simp: epoll_ok_def)
    from run_body_ok [OF g assms(2,4) es] obtain events' p' where
      b: "run_body ops now (epoll k) (events, ?p) = Inr (events', p')" "going n p'" "set events' \<subseteq> {..<n}"
      by blast
    have "same_frame ?p p'" using run_body_advanced [OF _ b(1)] g by (simp add: going_def advanced_def)
    then have "pg_run_duration p' = pg_run_duration p" "pg_reads p < pg_reads p'"
      by (simp_all add: same_frame_def)
    moreover have "run_turn ops now epoll start (k, events, p) = Inr (True, k + 1, events', p')"
      using True b(1) by (simp add: run_turn_def)
    moreover have "te_now (now (pg_reads p)) < start + pg_run_duration p" using True by linarith
    ultimately show ?thesis using b(2,3) by blast
  next
    case False
    then have "run_turn ops now epoll start (k, events, p) = Inr (False, k, events, ?p)"
      by (simp add: run_turn_def)
    with g assms(4) show ?thesis
      by (intro exI [of _ False] exI [of _ k] exI [of _ events] exI [of _ ?p]) simp
  qed
qed

lemma run_loop_ok:
  assumes "going n p" and "0 < n" and "epoll_ok n epoll" and "clock_advances now"
  shows "\<exists>k events p'. poll_all (run_turn ops now epoll start) (0, [], p) = Inr (k, events, p') \<and> going n p'"
proof -
  obtain K where K: "\<And>k. K \<le> k \<Longrightarrow> start + pg_run_duration p \<le> te_now (now k)"
    using assms(4) unfolding clock_advances_def by blast
  let ?I = "\<lambda>(k :: nat, events, q). going n q \<and> set events \<subseteq> {..<n} \<and> pg_run_duration q = pg_run_duration p"
  have turn: "\<exists>again s'. run_turn ops now epoll start s = Inr (again, s') \<and> ?I s' \<and>
      (again \<longrightarrow> K - pg_reads (snd (snd s')) < K - pg_reads (snd (snd s)))" if I: "?I s" for s
  proof -
    obtain k events q where s: "s = (k, events, q)" by (cases s)
    have q: "going n q" "set events \<subseteq> {..<n}" "pg_run_duration q = pg_run_duration p" using I by (simp_all add: s)
    from run_turn_ok [OF q(1) assms(2,3) q(2), of now start k] obtain again k' events' q' where
      t: "run_turn ops now epoll start s = Inr (again, k', events', q')"
        "going n q'" "set events' \<subseteq> {..<n}" "pg_run_duration q' = pg_run_duration q"
        "pg_reads q < pg_reads q'" "again \<longrightarrow> te_now (now (pg_reads q)) < start + pg_run_duration q"
      unfolding s by blast
    have "K - pg_reads q' < K - pg_reads q" if again
      using t(5,6) that K [of "pg_reads q"] q(3) by (cases "K \<le> pg_reads q") auto
    with t(1-4) q(3) show ?thesis
      by (intro exI [of _ again] exI [of _ "(k', events', q')"]) (simp add: s)
  qed
  have "\<exists>s'. poll_all (run_turn ops now epoll start) (0, [], p) = Inr s' \<and> ?I s'"
  proof (rule poll_all_ok [where m = "\<lambda>s. K - pg_reads (snd (snd s))"])
    fix s s'
    assume "?I s" "run_turn ops now epoll start s = Inr (True, s')"
    with turn [of s] show "K - pg_reads (snd (snd s')) < K - pg_reads (snd (snd s))" by fastforce
  next
    fix s
    assume "?I s"
    from turn [OF this] show "\<exists>again s'. run_turn ops now epoll start s = Inr (again, s') \<and> ?I s'" by blast
  qed (use assms(1) in simp)
  then show ?thesis by auto
qed

text \<open>The run as a whole.\<close>

lemma bench_run_ok:
  assumes "started 0 p" and "all_healthy p" and "pg_clients p \<noteq> []"
    and "epoll_ok (length (pg_clients p)) epoll" and "clock_advances now"
  shows "\<exists>p'. bench_run ops now epoll p = Inr p' \<and> driven p' \<and>
    length (pg_clients p') = length (pg_clients p)"
proof -
  let ?n = "length (pg_clients p)"
  from run_start_ok [OF assms(1,2)] obtain q where q: "run_start ops now p = Inr q" "going ?n q" by blast
  let ?q = "q\<lparr>pg_reads := pg_reads q + 1\<rparr>"
  have "going ?n ?q" using q(2) by (simp add: going_def driven_reads all_healthy_def)
  from run_loop_ok [OF this _ assms(4,5)] assms(3) obtain k events p' where
    "poll_all (run_turn ops now epoll (te_now (now (pg_reads q)))) (0, [], ?q) = Inr (k, events, p')"
    "going ?n p'" by blast
  with q(1) show ?thesis by (simp add: bench_run_def Let_def going_def)
qed

end

end
