(* ===== verification/Bench_Process.thy ===== *)
theory Bench_Process
  imports Bench_Correct
begin

text \<open>
  The benchmark process of \<open>src/main.rs\<close>: threads that each run a driver, and the thread of
  \<open>main\<close>, which prints once a second how many results the drivers have counted, and joins them.
  The counter is shared by all.
\<close>

section \<open>Threads\<close>

text \<open>
  A driver that has not been started, one at the head of its main loop, which began at the given
  time, one that has returned from \<open>run\<close>, one that has panicked, and one that is in a loop over the
  polls of a client which does not end.
\<close>

datatype 'c bench_thread =
    B_New "'c program"
  | B_Loop instant "nat \<times> usize list \<times> 'c program"
  | B_Done "'c program"
  | B_Panicked failure
  | B_Hung

definition stopped_by :: "failure \<Rightarrow> 'c bench_thread" where
  "stopped_by e = (if e = Diverges then B_Hung else B_Panicked e)"

text \<open>
  What a thread does next: \<open>run\<close> up to the main loop, or one turn of the loop.  With it comes the
  number of results it counts.  A loop over the polls of a client is part of the step; a thread in
  which it does not end stays there.  A thread that stops in a step counts nothing in it.
\<close>

fun thread_step ::
  "'c client_ops \<Rightarrow> (nat \<Rightarrow> time_env) \<Rightarrow> (nat \<Rightarrow> usize list option) \<Rightarrow> 'c bench_thread \<Rightarrow>
   ('c bench_thread \<times> u32) option" where
  "thread_step ops now epoll (B_New p) =
     (case run_start ops now p of
        Inl e \<Rightarrow> Some (stopped_by e, 0)
      | Inr p' \<Rightarrow> Some (B_Loop (te_now (now (pg_reads p'))) (0, [], p'\<lparr>pg_reads := pg_reads p' + 1\<rparr>),
                       pg_n_result p' - pg_n_result p))"
| "thread_step ops now epoll (B_Loop start s) =
     (case run_turn ops now epoll start s of
        Inl e \<Rightarrow> Some (stopped_by e, 0)
      | Inr (again, s') \<Rightarrow> Some (if again then B_Loop start s' else B_Done (snd (snd s')),
                                pg_n_result (snd (snd s')) - pg_n_result (snd (snd s))))"
| "thread_step ops now epoll (B_Done p) = None"
| "thread_step ops now epoll (B_Panicked e) = None"
| "thread_step ops now epoll B_Hung = None"

text \<open>
  The thread of \<open>main\<close> has printed \<open>j\<close> reports, or joins the threads from number \<open>k\<close> on, or has
  returned, or has panicked since the thread it joined had.
\<close>

datatype report_pc = R_Report nat | R_Join nat | R_Return | R_Panic

record 'c bench_process =
  bp_threads :: "'c bench_thread list"
  bp_n_result :: u32
  bp_printed :: "u32 list"
  bp_main :: report_pc

definition bp_init :: "'c program list \<Rightarrow> 'c bench_process" where
  "bp_init programs =
     \<lparr>bp_threads = map B_New programs, bp_n_result = 0, bp_printed = [], bp_main = R_Report 0\<rparr>"

text \<open>\<open>swap\<close> returns the counter and sets it to zero.\<close>

definition report_step :: "nat \<Rightarrow> 'c bench_process \<Rightarrow> 'c bench_process option" where
  "report_step n_report s =
     (case bp_main s of
        R_Report j \<Rightarrow>
          if j < n_report
          then Some (s\<lparr>bp_printed := bp_printed s @ [bp_n_result s], bp_n_result := 0, bp_main := R_Report (j + 1)\<rparr>)
          else Some (s\<lparr>bp_main := R_Join 0\<rparr>)
      | R_Join k \<Rightarrow>
          if k < length (bp_threads s)
          then (case bp_threads s ! k of
                  B_Done p \<Rightarrow> Some (s\<lparr>bp_main := R_Join (k + 1)\<rparr>)
                | B_Panicked e \<Rightarrow> Some (s\<lparr>bp_main := R_Panic\<rparr>)
                | _ \<Rightarrow> None)
          else Some (s\<lparr>bp_main := R_Return\<rparr>)
      | _ \<Rightarrow> None)"

text \<open>One step of any thread.  Each driver has its own readings of the clock and its own epoll.\<close>

inductive bp_step ::
  "'c client_ops \<Rightarrow> (nat \<Rightarrow> nat \<Rightarrow> time_env) \<Rightarrow> (nat \<Rightarrow> nat \<Rightarrow> usize list option) \<Rightarrow> nat \<Rightarrow>
   'c bench_process \<Rightarrow> 'c bench_process \<Rightarrow> bool"
  for ops now epoll n_report where
  driver_steps: "i < length (bp_threads s) \<Longrightarrow>
     thread_step ops (now i) (epoll i) (bp_threads s ! i) = Some (t, d) \<Longrightarrow>
     bp_step ops now epoll n_report s
       (s\<lparr>bp_threads := (bp_threads s)[i := t], bp_n_result := bp_n_result s + d\<rparr>)"
| main_steps: "report_step n_report s = Some s' \<Longrightarrow> bp_step ops now epoll n_report s s'"

section \<open>A thread runs the driver\<close>

text \<open>What is left of the run of the driver.\<close>

definition runs_driver ::
  "'c client_ops \<Rightarrow> (nat \<Rightarrow> time_env) \<Rightarrow> (nat \<Rightarrow> usize list option) \<Rightarrow> 'c program \<Rightarrow> 'c bench_thread \<Rightarrow> bool" where
  "runs_driver ops now epoll p0 t \<longleftrightarrow> bench_run ops now epoll p0 =
     (case t of
        B_New p \<Rightarrow> bench_run ops now epoll p
      | B_Loop start s \<Rightarrow> bind_res (poll_all (run_turn ops now epoll start) s) (\<lambda>(k, events, p). Inr p)
      | B_Done p \<Rightarrow> Inr p
      | B_Panicked e \<Rightarrow> Inl e
      | B_Hung \<Rightarrow> Inl Diverges)"

lemma thread_step_runs:
  assumes "thread_step ops now epoll t = Some (t', d)" and "runs_driver ops now epoll p0 t"
  shows "runs_driver ops now epoll p0 t'"
proof (cases t)
  case (B_New p)
  with assms show ?thesis
    by (auto simp: runs_driver_def bench_run_def stopped_by_def Let_def split: sum.splits)
next
  case (B_Loop start s)
  show ?thesis
  proof (cases "run_turn ops now epoll start s")
    case (Inl e)
    with B_Loop assms show ?thesis by (auto simp: runs_driver_def stopped_by_def poll_all_simps)
  next
    case (Inr r)
    obtain again k es p where r: "r = (again, k, es, p)" by (cases r)
    show ?thesis
    proof (cases again)
      case True
      with B_Loop Inr r assms show ?thesis
        by (auto simp: runs_driver_def poll_all_simps(2) [where poll = "run_turn ops now epoll start"])
    next
      case False
      with B_Loop Inr r assms show ?thesis
        by (auto simp: runs_driver_def poll_all_simps(3) [where poll = "run_turn ops now epoll start"])
    qed
  qed
qed (use assms in simp_all)

section \<open>The process on clients with the contract\<close>

text \<open>The results a thread has counted, and its clients.\<close>

fun thread_program :: "'c bench_thread \<Rightarrow> 'c program option" where
  "thread_program (B_New p) = Some p"
| "thread_program (B_Loop start s) = Some (snd (snd s))"
| "thread_program (B_Done p) = Some p"
| "thread_program (B_Panicked e) = None"
| "thread_program B_Hung = None"

definition thread_results :: "'c bench_thread \<Rightarrow> u32" where
  "thread_results t = (case thread_program t of None \<Rightarrow> 0 | Some p \<Rightarrow> pg_n_result p)"

definition thread_clients :: "'c bench_thread \<Rightarrow> 'c list" where
  "thread_clients t = (case thread_program t of None \<Rightarrow> [] | Some p \<Rightarrow> pg_clients p)"

text \<open>A reading of the clock from which on it shows at least the time \<open>T\<close>.\<close>

definition late_read :: "(nat \<Rightarrow> time_env) \<Rightarrow> nat \<Rightarrow> nat" where
  "late_read now T = (LEAST K. \<forall>k \<ge> K. T \<le> te_now (now k))"

lemma late_read:
  assumes "clock_advances now" and "te_now (now k) < T"
  shows "k < late_read now T"
proof -
  from assms(1) have "\<exists>K. \<forall>k \<ge> K. T \<le> te_now (now k)" by (simp add: clock_advances_def)
  from LeastI_ex [OF this] assms(2) show ?thesis
    unfolding late_read_def [symmetric] by (meson leD leI)
qed

fun bench_weight :: "'c client_ops \<Rightarrow> (nat \<Rightarrow> time_env) \<Rightarrow> 'c bench_thread \<Rightarrow> nat" where
  "bench_weight ops now (B_New p) = 2 + (case run_start ops now p of
      Inl e \<Rightarrow> 0 | Inr p' \<Rightarrow> late_read now (te_now (now (pg_reads p')) + pg_run_duration p'))"
| "bench_weight ops now (B_Loop start s) =
     1 + (late_read now (start + pg_run_duration (snd (snd s))) - pg_reads (snd (snd s)))"
| "bench_weight ops now (B_Done p) = 0"
| "bench_weight ops now (B_Panicked e) = 0"
| "bench_weight ops now B_Hung = 0"

context bench
begin

definition thread_ok :: "nat \<Rightarrow> 'c bench_thread \<Rightarrow> bool" where
  "thread_ok n t \<longleftrightarrow> (case t of
      B_New p \<Rightarrow> started 0 p \<and> all_healthy p \<and> length (pg_clients p) = n
    | B_Loop start s \<Rightarrow> going n (snd (snd s)) \<and> set (fst (snd s)) \<subseteq> {..<n}
    | B_Done p \<Rightarrow> going n p
    | B_Panicked e \<Rightarrow> False
    | B_Hung \<Rightarrow> False)"

text \<open>The operations a client has completed: all it has started but the one in flight.\<close>

definition completed :: "'c \<Rightarrow> u32" where
  "completed c = count c - (if idle c then 0 else 1)"

lemma driven_completed:
  assumes "driven p"
  shows "pg_n_result p = sum_list (map completed (pg_clients p))"
proof -
  have "sum_list (map completed cs) = sum_list (map count cs) - of_nat (length cs)"
    if "\<forall>c \<in> set cs. \<not> idle c" for cs
    using that by (induction cs) (simp_all add: completed_def algebra_simps)
  from this [of "pg_clients p"] assms show ?thesis by (simp add: driven_def)
qed

lemma started_completed:
  assumes "started 0 p"
  shows "pg_n_result p = sum_list (map completed (pg_clients p))"
proof -
  have "map completed (pg_clients p) = replicate (length (pg_clients p)) 0"
    by (rule nth_equalityI) (use assms in \<open>auto simp: started_def completed_def\<close>)
  with assms show ?thesis by (simp add: started_def sum_list_replicate)
qed

lemma thread_results_completed:
  "thread_ok n t \<Longrightarrow> thread_results t = sum_list (map completed (thread_clients t))"
  by (cases t) (auto simp: thread_ok_def thread_results_def thread_clients_def going_def
      intro: driven_completed started_completed)

lemma thread_step_ok:
  assumes "thread_ok n t" and "0 < n" and "epoll_ok n epoll" and "clock_advances now"
    and "\<And>p. t \<noteq> B_Done p"
  shows "\<exists>t' d. thread_step ops now epoll t = Some (t', d) \<and> thread_ok n t' \<and>
    thread_results t' = thread_results t + d \<and> bench_weight ops now t' < bench_weight ops now t"
proof (cases t)
  case (B_New p)
  with assms(1) have p: "started 0 p" "all_healthy p" "length (pg_clients p) = n" by (auto simp: thread_ok_def)
  from run_start_ok [OF p(1,2), of now] p(3) obtain p' where
    "run_start ops now p = Inr p'" "going n p'" by auto
  with B_New show ?thesis by (simp add: thread_ok_def thread_results_def going_reads)
next
  case (B_Loop start s)
  obtain k es p where s: "s = (k, es, p)" by (cases s)
  have p: "going n p" "set es \<subseteq> {..<n}" using assms(1) by (simp_all add: B_Loop s thread_ok_def)
  from run_turn_ok [OF p(1) assms(2,3) p(2), of now start k] obtain again k' es' p' where
    t: "run_turn ops now epoll start s = Inr (again, k', es', p')" "going n p'" "set es' \<subseteq> {..<n}"
      "pg_run_duration p' = pg_run_duration p" "pg_reads p < pg_reads p'"
      "again \<longrightarrow> te_now (now (pg_reads p)) < start + pg_run_duration p"
    unfolding s by blast
  show ?thesis
  proof (cases again)
    case True
    with t(6) have "pg_reads p < late_read now (start + pg_run_duration p)"
      by (intro late_read [OF assms(4)]) simp
    with t True show ?thesis by (simp add: B_Loop s thread_ok_def thread_results_def)
  next
    case False
    with t show ?thesis by (simp add: B_Loop s thread_ok_def thread_results_def)
  qed
qed (use assms in \<open>auto simp: thread_ok_def\<close>)

text \<open>The process whose threads run \<open>programs\<close>, between its steps.\<close>

definition process_ok ::
  "(nat \<Rightarrow> nat \<Rightarrow> time_env) \<Rightarrow> (nat \<Rightarrow> nat \<Rightarrow> usize list option) \<Rightarrow> nat \<Rightarrow> 'c program list \<Rightarrow>
   'c bench_process \<Rightarrow> bool" where
  "process_ok now epoll n_report programs s \<longleftrightarrow>
     length (bp_threads s) = length programs \<and>
     (\<forall>i < length programs. thread_ok (length (pg_clients (programs ! i))) (bp_threads s ! i) \<and>
        runs_driver ops (now i) (epoll i) (programs ! i) (bp_threads s ! i)) \<and>
     sum_list (bp_printed s) + bp_n_result s = sum_list (map thread_results (bp_threads s)) \<and>
     (case bp_main s of
        R_Report j \<Rightarrow> j \<le> n_report \<and> length (bp_printed s) = j
      | R_Join k \<Rightarrow> length (bp_printed s) = n_report \<and> k \<le> length programs \<and>
          (\<forall>i < k. \<exists>p. bp_threads s ! i = B_Done p)
      | R_Return \<Rightarrow> length (bp_printed s) = n_report \<and> (\<forall>i < length programs. \<exists>p. bp_threads s ! i = B_Done p)
      | R_Panic \<Rightarrow> False)"

definition process_env ::
  "(nat \<Rightarrow> nat \<Rightarrow> time_env) \<Rightarrow> (nat \<Rightarrow> nat \<Rightarrow> usize list option) \<Rightarrow> 'c program list \<Rightarrow> bool" where
  "process_env now epoll programs \<longleftrightarrow> (\<forall>i < length programs. pg_clients (programs ! i) \<noteq> [] \<and>
     epoll_ok (length (pg_clients (programs ! i))) (epoll i) \<and> clock_advances (now i))"

fun report_weight :: "nat \<Rightarrow> nat \<Rightarrow> report_pc \<Rightarrow> nat" where
  "report_weight n_report n (R_Report j) = (n_report - j) + n + 2"
| "report_weight n_report n (R_Join k) = n - k + 1"
| "report_weight n_report n R_Return = 0"
| "report_weight n_report n R_Panic = 0"

definition process_weight :: "(nat \<Rightarrow> nat \<Rightarrow> time_env) \<Rightarrow> nat \<Rightarrow> 'c bench_process \<Rightarrow> nat" where
  "process_weight now n_report s = report_weight n_report (length (bp_threads s)) (bp_main s) +
     (\<Sum>i < length (bp_threads s). bench_weight ops (now i) (bp_threads s ! i))"

lemma process_ok_init:
  assumes "\<And>p. p \<in> set programs \<Longrightarrow> started 0 p \<and> all_healthy p"
  shows "process_ok now epoll n_report programs (bp_init programs)"
proof -
  have "map thread_results (map B_New programs) = replicate (length programs) 0"
    by (rule nth_equalityI) (use assms in \<open>auto simp: thread_results_def started_def\<close>)
  with assms show ?thesis
    by (auto simp: process_ok_def bp_init_def thread_ok_def runs_driver_def sum_list_replicate)
qed

lemma driver_steps_ok:
  assumes "process_env now epoll programs" and "process_ok now epoll n_report programs s"
    and "i < length (bp_threads s)" and "\<And>p. bp_threads s ! i \<noteq> B_Done p"
  shows "\<exists>t d. thread_step ops (now i) (epoll i) (bp_threads s ! i) = Some (t, d) \<and>
    process_ok now epoll n_report programs
      (s\<lparr>bp_threads := (bp_threads s)[i := t], bp_n_result := bp_n_result s + d\<rparr>) \<and>
    process_weight now n_report (s\<lparr>bp_threads := (bp_threads s)[i := t], bp_n_result := bp_n_result s + d\<rparr>) <
      process_weight now n_report s"
proof -
  let ?ts = "bp_threads s"
  have i: "i < length programs" and n: "length ?ts = length programs"
    using assms(2,3) by (simp_all add: process_ok_def)
  have t: "thread_ok (length (pg_clients (programs ! i))) (?ts ! i)"
      "runs_driver ops (now i) (epoll i) (programs ! i) (?ts ! i)"
    using assms(2) i by (simp_all add: process_ok_def)
  have e: "0 < length (pg_clients (programs ! i))" "epoll_ok (length (pg_clients (programs ! i))) (epoll i)"
      "clock_advances (now i)" using assms(1) i by (simp_all add: process_env_def)
  obtain t' d where st: "thread_step ops (now i) (epoll i) (?ts ! i) = Some (t', d)"
    "thread_ok (length (pg_clients (programs ! i))) t'" "thread_results t' = thread_results (?ts ! i) + d"
    "bench_weight ops (now i) t' < bench_weight ops (now i) (?ts ! i)"
    using thread_step_ok [OF t(1) e(1-3) assms(4)] by blast
  have sum: "sum_list (map thread_results (?ts[i := t'])) = sum_list (map thread_results ?ts) + d"
    using sum_list_update_word [OF assms(3), of thread_results t'] st(3) by simp
  have done': "\<exists>p. ?ts[i := t'] ! j = B_Done p" if "\<exists>p. ?ts ! j = B_Done p" for j
    using that assms(3,4) by (cases "j = i") auto
  have thr: "thread_ok (length (pg_clients (programs ! j))) (?ts[i := t'] ! j) \<and>
      runs_driver ops (now j) (epoll j) (programs ! j) (?ts[i := t'] ! j)" if "j < length programs" for j
    using assms(2,3) st(2) thread_step_runs [OF st(1) t(2)] that
    by (cases "j = i") (simp_all add: process_ok_def)
  have "process_ok now epoll n_report programs (s\<lparr>bp_threads := ?ts[i := t'], bp_n_result := bp_n_result s + d\<rparr>)"
    using assms(2) sum done' thr
    by (auto simp: process_ok_def add.assoc [symmetric] split: report_pc.splits)
  moreover have "(\<Sum>j < length ?ts. bench_weight ops (now j) (?ts[i := t'] ! j)) <
      (\<Sum>j < length ?ts. bench_weight ops (now j) (?ts ! j))"
    by (rule sum_strict_mono_ex1) (use assms(3) st(4) in \<open>auto simp: nth_list_update less_imp_le\<close>)
  ultimately show ?thesis using st(1) by (auto simp: process_weight_def)
qed

lemma main_steps_ok:
  assumes "process_ok now epoll n_report programs s" and "report_step n_report s = Some s'"
  shows "process_ok now epoll n_report programs s' \<and> process_weight now n_report s' < process_weight now n_report s"
proof (cases "bp_main s")
  case (R_Report j)
  with assms show ?thesis
    by (auto simp: process_ok_def process_weight_def report_step_def add_ac split: if_splits)
next
  case (R_Join k)
  show ?thesis
  proof (cases "k < length (bp_threads s)")
    case True
    then have "thread_ok (length (pg_clients (programs ! k))) (bp_threads s ! k)"
      using assms(1) by (simp add: process_ok_def)
    then have "bp_threads s ! k \<noteq> B_Panicked e" for e by (auto simp: thread_ok_def)
    with True R_Join assms obtain p where p: "bp_threads s ! k = B_Done p" "s' = s\<lparr>bp_main := R_Join (k + 1)\<rparr>"
      by (auto simp: report_step_def split: bench_thread.splits)
    with True R_Join assms(1) show ?thesis
      by (auto simp: process_ok_def process_weight_def less_Suc_eq)
  next
    case False
    with R_Join assms show ?thesis by (auto simp: process_ok_def process_weight_def report_step_def)
  qed
qed (use assms in \<open>simp_all add: report_step_def\<close>)

lemma process_step:
  assumes "bp_step ops now epoll n_report s s'" and "process_env now epoll programs"
    and "process_ok now epoll n_report programs s"
  shows "process_ok now epoll n_report programs s' \<and> process_weight now n_report s' < process_weight now n_report s"
  using assms(1)
proof cases
  case (driver_steps i t d)
  then have "\<And>p. bp_threads s ! i \<noteq> B_Done p" by auto
  from driver_steps_ok [OF assms(2,3) driver_steps(2) this] driver_steps show ?thesis by auto
next
  case main_steps
  with main_steps_ok [OF assms(3)] show ?thesis by simp
qed

lemma process_steps:
  assumes "(bp_step ops now epoll n_report ^^ m) s s'" and "process_env now epoll programs"
    and "process_ok now epoll n_report programs s"
  shows "process_ok now epoll n_report programs s' \<and> m + process_weight now n_report s' \<le> process_weight now n_report s"
  using assms(1)
proof (induction m arbitrary: s')
  case (Suc m)
  then obtain t where "(bp_step ops now epoll n_report ^^ m) s t" "bp_step ops now epoll n_report t s'" by auto
  with Suc.IH process_step [OF _ assms(2)] show ?case by fastforce
qed (use assms(3) in simp)

text \<open>The process has a next step until it has printed all reports and joined all threads.\<close>

lemma process_progress:
  assumes "process_env now epoll programs" and "process_ok now epoll n_report programs s"
    and "\<nexists>s'. bp_step ops now epoll n_report s s'"
  shows "bp_main s = R_Return \<and> length (bp_printed s) = n_report \<and> length (bp_threads s) = length programs \<and>
    (\<forall>i < length programs. \<exists>p. bp_threads s ! i = B_Done p \<and>
       bench_run ops (now i) (epoll i) (programs ! i) = Inr p)"
proof -
  have all_done: "\<exists>p. bp_threads s ! i = B_Done p" if "i < length (bp_threads s)" for i
    using driver_steps_ok [OF assms(1,2) that] bp_step.driver_steps [OF that] assms(3) by blast
  have "bp_main s = R_Return"
  proof (cases "bp_main s")
    case (R_Join k)
    then have "\<exists>s'. report_step n_report s = Some s'" using all_done [of k]
      by (cases "k < length (bp_threads s)") (auto simp: report_step_def)
    with assms(3) show ?thesis by (blast intro: main_steps)
  next
    case (R_Report j)
    then have "\<exists>s'. report_step n_report s = Some s'" by (simp add: report_step_def)
    with assms(3) show ?thesis by (blast intro: main_steps)
  qed (use assms(2) in \<open>simp_all add: process_ok_def\<close>)
  with assms(2) show ?thesis by (fastforce simp: process_ok_def runs_driver_def)
qed

end

end
