(* ===== verification/Bench_Properties.thy ===== *)
theory Bench_Properties
  imports Bench_Process Unreplicated_Correct Pbft_Client Samples
begin

text \<open>
  The driver with the clients of the repository, and its properties.
\<close>

section \<open>The clients as instances\<close>

definition uclient_ops :: "externals \<Rightarrow> uclient client_ops" where
  "uclient_ops X = \<lparr>co_invoke = uclient_invoke X, co_take_result = uclient_take_result,
     co_poll_at = uclient_poll_at, co_poll = uclient_poll X\<rparr>"

definition pclient_ops :: "externals \<Rightarrow> pclient client_ops" where
  "pclient_ops X = \<lparr>co_invoke = pclient_invoke X, co_take_result = pclient_take_result,
     co_poll_at = pclient_poll_at, co_poll = pclient_poll X\<rparr>"

text \<open>What the environment of a client has to provide for it not to panic.\<close>

definition rx_decodes :: "externals \<Rightarrow> rx_channel \<Rightarrow> bool" where
  "rx_decodes X rx \<longleftrightarrow> rx_ok 1500 rx \<and> (\<forall>p \<in> rx_payloads rx. bc_de_reply X (take 1500 p) \<noteq> None)"

lemma receive_decodes:
  assumes "rx_decodes X rx" and "length buf = 1500"
  obtains r rx' buf' where "receive_from rx buf = Inr (r, rx', buf')" and "rx_decodes X rx'"
    and "length buf' = 1500"
    and "\<forall>n a. r = Some (n, a) \<longrightarrow> bc_de_reply X (take n buf') \<noteq> None"
proof -
  from assms receive_from_ok [of buf rx] obtain r rx' buf' where
    r: "receive_from rx buf = Inr (r, rx', buf')" and ok: "rx_ok 1500 rx'" "length buf' = 1500"
    by (auto simp: rx_decodes_def)
  show ?thesis
  proof (cases r)
    case None
    with r ok receive_from_None [of rx buf rx' buf'] assms(1) show ?thesis
      by (intro that [OF r]) (auto simp: rx_decodes_def)
  next
    case (Some na)
    obtain n a where na: "na = (n, a)" by (cases na)
    from receive_from_Some [OF r [unfolded Some na]] obtain p where
      p: "p \<in> rx_payloads rx" "n = min (length p) (length buf)" "take n buf' = take n p"
        "rx_payloads rx' \<subseteq> rx_payloads rx" by metis
    have "take n buf' = take 1500 p" using p(2,3) assms(2) by (auto simp: min_def)
    with p(1,4) assms(1) ok Some na show ?thesis
      by (intro that [OF r]) (auto simp: rx_decodes_def)
  qed
qed

definition uclient_can_send :: "externals \<Rightarrow> uclient \<Rightarrow> bool" where
  "uclient_can_send X c \<longleftrightarrow> unreplicated_ext_ok X \<and> tx_ok X (cc_tx (uc_common c)) \<and>
     tc_replica (cc_config (uc_common c)) \<noteq> []"

definition uclient_healthy :: "externals \<Rightarrow> uclient \<Rightarrow> bool" where
  "uclient_healthy X c \<longleftrightarrow> uclient_can_send X c \<and> rx_decodes X (cc_rx (uc_common c)) \<and>
     rx_quiet (cc_rx (uc_common c))"

definition pclient_healthy :: "externals \<Rightarrow> pclient \<Rightarrow> bool" where
  "pclient_healthy X c \<longleftrightarrow> pbft_ext_ok X \<and> tx_ok X (cc_tx (pc_common c)) \<and>
     0 < tc_n (cc_config (pc_common c)) \<and>
     tc_n (cc_config (pc_common c)) \<le> length (tc_replica (cc_config (pc_common c))) \<and>
     rx_decodes X (cc_rx (pc_common c)) \<and> rx_quiet (cc_rx (pc_common c))"

lemma uclient_send_succeeds:
  assumes "uclient_can_send X c" and "uc_op c \<noteq> None"
  shows "\<exists>due out. uclient_do_send X t c = Inr (c\<lparr>uc_resend_instant := due\<rparr>, out)"
proof -
  from assms(2) obtain op where op: "uc_op c = Some op" by blast
  from assms(1) obtain payload where "bc_ser_request X (uclient_request c op) = Some payload"
    by (auto simp: uclient_can_send_def unreplicated_ext_ok_def elim!: codec_okD [of _ _ "uclient_request c op"])
  from uclient_do_send_ok [OF op this] assms(1) show ?thesis by (auto simp: uclient_can_send_def)
qed

lemma uclient_resend_succeeds:
  assumes "uclient_can_send X c" and "uclient_inv c"
  shows "\<exists>c1 out. uclient_resend X t t' c = Inr (c1, out)"
proof -
  have "uc_resend_instant c \<le> clock_now t (cc_clock (uc_common c)) \<Longrightarrow> uc_op c \<noteq> None"
    using assms(2) due_not_default by (simp add: uclient_inv_def)
  with uclient_send_succeeds [OF assms(1)] show ?thesis
    by (cases "uc_resend_instant c \<le> clock_now t (cc_clock (uc_common c))")
       (fastforce simp: uclient_resend_def)+
qed

lemma uclient_healthy_packet:
  assumes "bc_de_reply X (take n (uc_buffer c)) \<noteq> None"
  shows "\<exists>c'. uclient_on_packet X n c = Inr c' \<and> uc_common c' = uc_common c"
proof -
  from assms obtain m where "bc_de_reply X (take n (uc_buffer c)) = Some m" by blast
  then show ?thesis by (simp add: uclient_on_packet_def)
qed

lemma uclient_healthy_poll:
  assumes "uclient_healthy X c" and "uclient_inv c"
  shows "\<exists>again c' out. uclient_poll X t t' c = Inr (again, c', out) \<and> uclient_healthy X c'"
proof -
  have "uclient_can_send X c" using assms(1) by (simp add: uclient_healthy_def)
  from uclient_resend_succeeds [OF this assms(2)] obtain c1 out where s: "uclient_resend X t t' c = Inr (c1, out)" by blast
  note same = uclient_resend_Inr(3) [OF s]
  have dec: "rx_decodes X (cc_rx (uc_common c1))" and len: "length (uc_buffer c1) = 1500"
    using assms uclient_resend_Inr(6) [OF s assms(2)]
    by (simp_all add: uclient_healthy_def uclient_inv_def same)
  obtain r rx buf where r: "receive_from (cc_rx (uc_common c1)) (uc_buffer c1) = Inr (r, rx, buf)"
    and d: "rx_decodes X rx" and "length buf = 1500"
    and t: "\<forall>n a. r = Some (n, a) \<longrightarrow> bc_de_reply X (take n buf) \<noteq> None"
    by (rule receive_decodes [OF dec len])
  let ?d = "c1\<lparr>uc_common := (uc_common c1)\<lparr>cc_rx := rx\<rparr>, uc_buffer := buf\<rparr>"
  have q: "rx_quiet rx" using receive_from_quiet [OF r] assms(1) by (simp add: uclient_healthy_def same)
  have h: "uclient_healthy X c'" if "uc_common c' = uc_common ?d" for c'
    using assms(1) d q that by (simp add: uclient_healthy_def uclient_can_send_def same)
  have "\<exists>again c'. uclient_receive X c1 = Inr (again, c') \<and> uclient_healthy X c'"
  proof (cases r)
    case None
    with r h show ?thesis by (auto simp: uclient_receive_def)
  next
    case (Some na)
    obtain n a where na: "na = (n, a)" by (cases na)
    from uclient_healthy_packet [of X n ?d] t Some na
    obtain c' where "uclient_on_packet X n ?d = Inr c'" "uc_common c' = uc_common ?d" by auto
    with r h [of c'] Some na show ?thesis by (auto simp: uclient_receive_def Let_def)
  qed
  with s show ?thesis by (auto simp: uclient_poll_split)
qed

lemma pclient_healthy_send:
  assumes "pclient_healthy X c" and "pc_op c \<noteq> None"
  shows "\<exists>due out. pclient_do_send X t c = Inr (c\<lparr>pc_resend_instant := due\<rparr>, out)"
proof -
  from assms(2) obtain op where op: "pc_op c = Some op" by blast
  let ?m = "Request (pclient_request c op)"
  from assms(1) obtain payload where p: "bc_ser_to_replica X ?m = Some payload"
    by (auto simp: pclient_healthy_def pbft_ext_ok_def elim!: codec_okD [of _ _ ?m])
  have "pclient_primary c < tc_n (cc_config (pc_common c))"
    using assms(1) by (simp add: pclient_primary_def pclient_healthy_def)
  with pclient_do_send_ok [OF op p] assms(1) show ?thesis by (auto simp: pclient_healthy_def)
qed

lemma pclient_healthy_packet:
  assumes "pbft_ext_ok X" and "bc_de_reply X (take n (pc_buffer c)) \<noteq> None"
  shows "\<exists>c'. pclient_on_packet X n c = Inr c' \<and> pc_common c' = pc_common c"
proof -
  from assms(2) obtain m where m: "bc_de_reply X (take n (pc_buffer c)) = Some m" by blast
  have "pclient_insert m c \<noteq> Map.empty" by (simp add: pclient_insert_def)
  with hm_first_okD assms(1) obtain v where
    "pclient_insert m c (hm_first X (pclient_insert m c)) = Some v"
    unfolding pbft_ext_ok_def by blast
  with m show ?thesis by (simp add: pclient_on_packet_def Let_def)
qed

lemma pclient_healthy_poll:
  assumes "pclient_healthy X c" and "pclient_inv c"
  shows "\<exists>again c' out. pclient_poll X t t' c = Inr (again, c', out) \<and> pclient_healthy X c'"
proof -
  have "pc_resend_instant c \<le> clock_now t (cc_clock (pc_common c)) \<Longrightarrow> pc_op c \<noteq> None"
    using assms(2) due_not_default by (simp add: pclient_inv_def)
  with pclient_healthy_send [OF assms(1)]
  have "\<exists>c1 out. pclient_resend X t t' c = Inr (c1, out)"
    by (cases "pc_resend_instant c \<le> clock_now t (cc_clock (pc_common c))")
       (fastforce simp: pclient_resend_def)+
  then obtain c1 out where s: "pclient_resend X t t' c = Inr (c1, out)" by blast
  note same = pclient_resend_Inr(3) [OF s]
  have dec: "rx_decodes X (cc_rx (pc_common c1))" and len: "length (pc_buffer c1) = 1500"
    using assms pclient_resend_Inr(8) [OF s assms(2)]
    by (simp_all add: pclient_healthy_def pclient_inv_def same)
  obtain r rx buf where r: "receive_from (cc_rx (pc_common c1)) (pc_buffer c1) = Inr (r, rx, buf)"
    and d: "rx_decodes X rx" and "length buf = 1500"
    and t: "\<forall>n a. r = Some (n, a) \<longrightarrow> bc_de_reply X (take n buf) \<noteq> None"
    by (rule receive_decodes [OF dec len])
  let ?d = "c1\<lparr>pc_common := (pc_common c1)\<lparr>cc_rx := rx\<rparr>, pc_buffer := buf\<rparr>"
  have q: "rx_quiet rx" using receive_from_quiet [OF r] assms(1) by (simp add: pclient_healthy_def same)
  have h: "pclient_healthy X c'" if "pc_common c' = pc_common ?d" for c'
    using assms(1) d q that by (simp add: pclient_healthy_def same)
  have "\<exists>again c'. pclient_receive X c1 = Inr (again, c') \<and> pclient_healthy X c'"
  proof (cases r)
    case None
    with r h show ?thesis by (auto simp: pclient_receive_def)
  next
    case (Some na)
    obtain n a where na: "na = (n, a)" by (cases na)
    from pclient_healthy_packet [of X n ?d] t assms(1) Some na
    obtain c' where "pclient_on_packet X n ?d = Inr c'" "pc_common c' = pc_common ?d"
      by (auto simp: pclient_healthy_def)
    with r h [of c'] Some na show ?thesis by (auto simp: pclient_receive_def Let_def)
  qed
  with s show ?thesis by (auto simp: pclient_poll_split)
qed

lemma uclient_healthy_invoke:
  assumes "uclient_healthy X c" and "uclient_idle c"
  shows "\<exists>c' out. uclient_invoke X t op c = Inr (c', out) \<and> uclient_healthy X c'"
proof -
  let ?c = "c\<lparr>uc_request_number := uc_request_number c + 1, uc_op := Some op, uc_result := None\<rparr>"
  have "uclient_can_send X ?c" using assms(1) by (simp add: uclient_healthy_def uclient_can_send_def)
  from uclient_send_succeeds [OF this, of t] assms show ?thesis
    by (auto simp: uclient_invoke_def uclient_idle_def uclient_healthy_def uclient_can_send_def)
qed

lemma pclient_healthy_invoke:
  assumes "pclient_healthy X c" and "pclient_idle c"
  shows "\<exists>c' out. pclient_invoke X t op c = Inr (c', out) \<and> pclient_healthy X c'"
proof -
  let ?c = "c\<lparr>pc_request_number := pc_request_number c + 1, pc_op := Some op,
    pc_committed_result := None\<rparr>"
  have "pclient_healthy X ?c" using assms(1) by (simp add: pclient_healthy_def)
  from pclient_healthy_send [OF this, of t] assms show ?thesis
    by (auto simp: pclient_invoke_def pclient_idle_def pclient_healthy_def)
qed

lemma uclient_poll_number:
  assumes "uclient_poll X t t' c = Inr (again, c', out)"
  shows "uc_request_number c' = uc_request_number c"
proof -
  from assms obtain c1 where "uclient_resend X t t' c = Inr (c1, out)"
    and "uclient_receive X c1 = Inr (again, c')" by (rule uclient_poll_Inr)
  with uclient_resend_Inr(5) [OF this(1)] show ?thesis
    by (auto simp: uclient_receive_def Let_def split: option.splits dest!: uclient_on_packet_Inr)
qed

lemma pclient_on_packet_number:
  "pclient_on_packet X len c = Inr c' \<Longrightarrow> pc_request_number c' = pc_request_number c"
  by (cases "c' = c") (auto elim!: pclient_on_packet_Inr)

lemma pclient_poll_number:
  assumes "pclient_poll X t t' c = Inr (again, c', out)"
  shows "pc_request_number c' = pc_request_number c"
proof -
  from assms obtain c1 where "pclient_resend X t t' c = Inr (c1, out)"
    and "pclient_receive X c1 = Inr (again, c')" by (rule pclient_poll_Inr)
  with pclient_resend_Inr(6) [OF this(1)] show ?thesis
    by (auto simp: pclient_receive_def Let_def split: option.splits dest!: pclient_on_packet_number)
qed

interpretation ub: bench "uclient_ops X" uclient_inv uclient_idle uclient_pending uc_request_number
  "uclient_healthy X" for X
proof (rule bench.intro)
  show "client_state (co_invoke (uclient_ops X)) (co_take_result (uclient_ops X))
      (co_poll_at (uclient_ops X)) (co_poll (uclient_ops X)) uclient_inv uclient_idle uclient_pending"
    by (simp add: uclient_ops_def uc.client_state_axioms)
  show "bench_axioms (uclient_ops X) uclient_inv uclient_idle uclient_pending uc_request_number
      (uclient_healthy X)"
  proof (rule bench_axioms.intro, goal_cases)
    case (1 t op c c' out)
    then show ?case
      by (auto simp: uclient_ops_def uclient_invoke_def split: if_splits dest!: uclient_do_send_Inr)
  next
    case (3 t t' c again c' out)
    then show ?case by (simp add: uclient_ops_def uclient_poll_number)
  next
    case (4 c t op)
    then show ?case using uclient_healthy_invoke [of X c t op] by (simp add: uclient_ops_def)
  next
    case (6 c t t')
    then show ?case using uclient_healthy_poll [of X c t t'] by (simp add: uclient_ops_def)
  next
    case (7 c)
    then show ?case by (simp add: uclient_pending_def uclient_healthy_def rx_quiet_finite)
  qed (simp_all add: uclient_ops_def uclient_take_result_def uclient_healthy_def uclient_can_send_def)
qed

interpretation pb: bench "pclient_ops X" pclient_inv pclient_idle pclient_pending pc_request_number
  "pclient_healthy X" for X
proof (rule bench.intro)
  show "client_state (co_invoke (pclient_ops X)) (co_take_result (pclient_ops X))
      (co_poll_at (pclient_ops X)) (co_poll (pclient_ops X)) pclient_inv pclient_idle pclient_pending"
    by (simp add: pclient_ops_def pc.client_state_axioms)
  show "bench_axioms (pclient_ops X) pclient_inv pclient_idle pclient_pending pc_request_number
      (pclient_healthy X)"
  proof (rule bench_axioms.intro, goal_cases)
    case (1 t op c c' out)
    then show ?case
      by (auto simp: pclient_ops_def pclient_invoke_def split: if_splits dest!: pclient_do_send_Inr)
  next
    case (3 t t' c again c' out)
    then show ?case by (simp add: pclient_ops_def pclient_poll_number)
  next
    case (4 c t op)
    then show ?case using pclient_healthy_invoke [of X c t op] by (simp add: pclient_ops_def)
  next
    case (6 c t t')
    then show ?case using pclient_healthy_poll [of X c t t'] by (simp add: pclient_ops_def)
  next
    case (7 c)
    then show ?case by (simp add: pclient_pending_def pclient_healthy_def rx_quiet_finite)
  qed (simp_all add: pclient_ops_def pclient_take_result_def pclient_healthy_def)
qed

section \<open>New drivers\<close>

definition uprogram_new ::
  "transport_config \<Rightarrow> u16 \<Rightarrow> (socket_addr \<times> udp_recv stream) list \<Rightarrow> duration \<Rightarrow> uclient program" where
  "uprogram_new config next_id sockets run_duration =
     program_new uclient_new (fst (bench_commons config next_id sockets)) run_duration"

definition pprogram_new ::
  "transport_config \<Rightarrow> u16 \<Rightarrow> (socket_addr \<times> udp_recv stream) list \<Rightarrow> duration \<Rightarrow> pclient program" where
  "pprogram_new config next_id sockets run_duration =
     program_new pclient_new (fst (bench_commons config next_id sockets)) run_duration"

lemma bench_commons_in:
  assumes "c \<in> set (fst (bench_commons config k sockets))"
  shows "cc_config c = config \<and> cc_tx c = Tx_Udp \<and> (\<exists>s \<in> set sockets. cc_rx c = Rx_Udp (snd s))"
  using assms
  by (induction config k sockets rule: bench_commons.induct)
     (auto simp: bench_common_def alloc_client_id_def Let_def split: prod.splits)

lemma bench_commons_length [simp]: "length (fst (bench_commons config k sockets)) = length sockets"
  by (induction config k sockets rule: bench_commons.induct) (auto simp: Let_def split: prod.splits)

lemma uprogram_started: "ub.started 0 (uprogram_new config k sockets d)"
  by (auto simp: ub.started_def timers_ok_new uprogram_new_def)
     (auto simp: program_new_def uclient_inv_new, simp_all add: uclient_new_def uclient_idle_def)

lemma pprogram_started: "pb.started 0 (pprogram_new config k sockets d)"
  by (auto simp: pb.started_def timers_ok_new pprogram_new_def)
     (auto simp: program_new_def pclient_inv_new, simp_all add: pclient_new_def pclient_idle_def)

lemma uprogram_healthy:
  assumes "unreplicated_ext_ok X" and "\<And>d b. os_send_ok X d b" and "tc_replica config \<noteq> []"
    and "\<And>s. s \<in> set sockets \<Longrightarrow> rx_decodes X (Rx_Udp (snd s)) \<and> rx_quiet (Rx_Udp (snd s))"
  shows "ub.all_healthy X (uprogram_new config k sockets d)"
  using assms bench_commons_in [of _ config k sockets]
  by (fastforce simp: ub.all_healthy_def uprogram_new_def program_new_def uclient_healthy_def
      uclient_can_send_def uclient_new_def tx_ok_def)

section \<open>Properties\<close>

text \<open>
  C9. The benchmark driver runs to its end: when the clock goes on, epoll names only clients of the
  driver, sending works, every datagram the sockets return decodes to a reply, and no socket delivers
  datagrams for ever without \<open>WouldBlock\<close> in between (\<open>rx_quiet\<close>; without it \<open>run\<close> need not return, see
  \<open>driver_can_livelock\<close>), \<open>run\<close> returns without a panic: neither the assertion on the timer tables nor
  the unwrap of the first timer nor an \<open>invoke\<close> of a busy client fails, and every loop over
  \<open>poll\<close> and the main loop end; in the end every client is busy and the driver has counted all
  operations but those in flight.
\<close>
theorem bench_run_returns:
  assumes "unreplicated_ext_ok X" and "\<forall>d b. os_send_ok X d b" and "tc_replica config \<noteq> []"
    and "sockets \<noteq> []"
    and "\<forall>s \<in> set sockets. rx_decodes X (Rx_Udp (snd s)) \<and> rx_quiet (Rx_Udp (snd s))"
    and "epoll_ok (length sockets) epoll" and "clock_advances now"
  shows "\<exists>p. bench_run (uclient_ops X) now epoll (uprogram_new config k sockets d) = Inr p \<and>
    timers_ok p \<and> length (pg_clients p) = length sockets \<and>
    (\<forall>c \<in> set (pg_clients p). uclient_inv c \<and> \<not> uclient_idle c) \<and>
    sum_list (map uc_request_number (pg_clients p)) = of_nat (length sockets) + pg_n_result p"
proof -
  let ?p = "uprogram_new config k sockets d"
  have n: "length (pg_clients ?p) = length sockets" by (simp add: uprogram_new_def program_new_def)
  have "ub.all_healthy X ?p" by (rule uprogram_healthy) (use assms in auto)
  moreover have "pg_clients ?p \<noteq> []" using n assms(4) by (metis length_0_conv)
  moreover have "epoll_ok (length (pg_clients ?p)) epoll" using assms(6) n by simp
  ultimately obtain p where "bench_run (uclient_ops X) now epoll ?p = Inr p" "ub.driven p"
    "length (pg_clients p) = length sockets"
    using ub.bench_run_ok [OF uprogram_started _ _ _ assms(7)] n by metis
  then show ?thesis by (intro exI [of _ p]) (simp add: ub.driven_def)
qed

text \<open>One client, to whose first request an answer is in its socket.\<close>

definition bench_sockets :: "(socket_addr \<times> udp_recv stream) list" where
  "bench_sockets = [(sample_client_addr, then_silent [Udp_Packet [0] (sample_addr 1)])]"

definition bench_ext :: externals where
  "bench_ext = sample_ext [sample_request 1] [reply_default\<lparr>rp_request_number := 1\<rparr>] []"

definition bench_clock :: "nat \<Rightarrow> time_env" where
  "bench_clock k = \<lparr>te_now = k, te_elapsed = 0\<rparr>"

lemma bench_clock_advances: "clock_advances bench_clock"
  unfolding clock_advances_def bench_clock_def by auto

lemma bench_epoll_ok: "epoll_ok (length bench_sockets) (\<lambda>k. Some [0])"
  by (simp add: epoll_ok_def bench_sockets_def)

lemma bench_ext_ok: "unreplicated_ext_ok bench_ext" "os_send_ok bench_ext d b"
  "s \<in> set bench_sockets \<Longrightarrow> rx_decodes bench_ext (Rx_Udp (snd s)) \<and> rx_quiet (Rx_Udp (snd s))"
  unfolding bench_ext_def
  by (rule sample_unreplicated_ext_ok, simp_all)
     (auto simp: bench_sockets_def rx_decodes_def sample_ext_def untagged_def)

theorem bench_run_returns_witness:
  "\<exists>p. bench_run (uclient_ops bench_ext) bench_clock (\<lambda>k. Some [0])
       (uprogram_new sample_config 1 bench_sockets 100) = Inr p \<and>
     timers_ok p \<and> length (pg_clients p) = 1 \<and> \<not> uclient_idle (pg_clients p ! 0)"
  using bench_run_returns [OF bench_ext_ok(1) _ _ _ _ bench_epoll_ok bench_clock_advances,
      where config = sample_config and k = 1 and d = 100] bench_ext_ok
  by (force simp: bench_sockets_def sample_config_def)

text \<open>
  C10. The timer tables of the driver agree: whenever its main loop reads the clock, the set of timers
  holds exactly the entry of each client in \<open>poll_instants\<close>, which is the time at which this client
  wants to be polled, except for the one whose event is being handled; every client is busy with an
  operation, so that no assertion in \<open>invoke\<close> fails; and \<open>n_result\<close> counts the results.
\<close>
theorem bench_timers_agree:
  assumes "bench_reach (pclient_ops X) now epoll (pprogram_new config next_id sockets d) start
    (k, events, p)"
  shows "timers_ok p \<and> timers_synced (pclient_ops X) (set (take 1 events)) p \<and>
    (\<forall>c \<in> set (pg_clients p). pclient_inv c \<and> \<not> pclient_idle c) \<and>
    sum_list (map pc_request_number (pg_clients p)) = of_nat (length (pg_clients p)) + pg_n_result p"
  using pb.bench_reach_inv [OF assms pprogram_started] by (simp add: pb.loop_inv_def pb.driven_def)

lemma uprogram_reach:
  assumes "ub.all_healthy X (uprogram_new config next_id sockets d)"
  shows "\<exists>start p. bench_reach (uclient_ops X) now epoll (uprogram_new config next_id sockets d) start (0, [], p)"
  using ub.run_start_ok [OF uprogram_started assms, of now]
    bench_start [of "uclient_ops X" now "uprogram_new config next_id sockets d" _ epoll] by blast

lemma pprogram_reach:
  assumes "pb.all_healthy X (pprogram_new config next_id sockets d)"
  shows "\<exists>start p. bench_reach (pclient_ops X) now epoll (pprogram_new config next_id sockets d) start (0, [], p) \<and>
    length (pg_clients p) = length sockets"
proof -
  from pb.run_start_ok [OF pprogram_started assms, of now] obtain p where
    p: "run_start (pclient_ops X) now (pprogram_new config next_id sockets d) = Inr p"
    "pb.going X (length sockets) p" by (auto simp: pprogram_new_def program_new_def)
  from bench_start [OF p(1), of epoll] p(2) show ?thesis by (fastforce simp: pb.going_def)
qed

lemma pprogram_healthy:
  "pb.all_healthy bench_ext (pprogram_new sample_config next_id bench_sockets d)"
proof -
  have "pbft_ext_ok bench_ext" unfolding bench_ext_def by (rule sample_pbft_ext_ok) simp_all
  with bench_commons_in [of _ sample_config next_id bench_sockets] bench_ext_ok show ?thesis
    by (fastforce simp: pb.all_healthy_def pprogram_new_def program_new_def pclient_healthy_def
        pclient_new_def tx_ok_def sample_config_def)
qed

theorem bench_timers_agree_witness:
  "\<exists>start p. bench_reach (pclient_ops bench_ext) bench_clock (\<lambda>k. Some [0])
       (pprogram_new sample_config 1 bench_sockets 100) start (0, [], p) \<and>
     timers_ok p \<and> timers_synced (pclient_ops bench_ext) {} p \<and> \<not> pclient_idle (pg_clients p ! 0)"
proof -
  from pprogram_reach [OF pprogram_healthy] obtain start p where
    r: "bench_reach (pclient_ops bench_ext) bench_clock (\<lambda>k. Some [0])
       (pprogram_new sample_config 1 bench_sockets 100) start (0, [], p)"
    and "length (pg_clients p) = length bench_sockets" by blast
  then have "pg_clients p ! 0 \<in> set (pg_clients p)" by (simp add: bench_sockets_def)
  with bench_timers_agree [OF r] r show ?thesis by (intro exI [of _ start] exI [of _ p]) simp
qed

text \<open>
  C22. The two timer tables are equivalent to a scan of the clients: when the main loop reads the
  clock and no event is left, the first timer is that of the client whose \<open>poll_at\<close> comes first in
  time, an unset timer last, and among equals of the client with the least index.
\<close>
theorem first_timer_is_earliest:
  assumes "bench_reach (uclient_ops X) now epoll (uprogram_new config next_id sockets d) start (k, [], p)"
  shows "first_timer p = Some (t, i) \<longleftrightarrow>
    i < length (pg_clients p) \<and> t = uclient_poll_at (pg_clients p ! i) \<and>
    (\<forall>j < length (pg_clients p).
       (due_time t, i) \<le> (due_time (uclient_poll_at (pg_clients p ! j)), j))"
proof -
  from ub.bench_reach_inv [OF assms uprogram_started] have ok: "timers_ok p"
    and "timers_synced (uclient_ops X) {} p"
    by (simp_all add: ub.loop_inv_def ub.driven_def)
  then have "pg_poll_instants p ! j = uclient_poll_at (pg_clients p ! j)" if "j < length (pg_clients p)" for j
    using that by (simp add: timers_synced_def uclient_ops_def)
  with first_timer_least [OF ok] show ?thesis by auto
qed

theorem first_timer_is_earliest_witness:
  "\<exists>start p. bench_reach (uclient_ops bench_ext) bench_clock (\<lambda>k. Some [0])
       (uprogram_new sample_config 1 bench_sockets 100) start (0, [], p) \<and>
     (first_timer p = Some (uclient_poll_at (pg_clients p ! 0), 0) \<longleftrightarrow>
        0 < length (pg_clients p) \<and> {..<length (pg_clients p)} \<subseteq>
          {j. (due_time (uclient_poll_at (pg_clients p ! 0)), 0) \<le>
              (due_time (uclient_poll_at (pg_clients p ! j)), j)})"
proof -
  have "ub.all_healthy bench_ext (uprogram_new sample_config 1 bench_sockets 100)"
    by (rule uprogram_healthy) (use bench_ext_ok in \<open>auto simp: sample_config_def\<close>)
  from uprogram_reach [OF this] obtain start p where
    r: "bench_reach (uclient_ops bench_ext) bench_clock (\<lambda>k. Some [0])
       (uprogram_new sample_config 1 bench_sockets 100) start (0, [], p)" by blast
  from first_timer_is_earliest [OF r, of _ 0] r show ?thesis
    by (intro exI [of _ start] exI [of _ p]) auto
qed

end
