(* ===== verification/Replica_Program.thy ===== *)
theory Replica_Program
  imports Unreplicated Pbft_Replica
begin

text \<open>
  The program that runs a replica, \<open>src/program/replica.rs\<close>: which thread runs which part of the
  replica.  Parts with a state of their own get a thread each, shared parts are polled by the
  threads that are left and by the others when they are idle.
\<close>

section \<open>The program\<close>

text \<open>A thread that owns a part, or one that polls the shared parts round and round.\<close>

datatype ('s, 'x) worker = Dedicated 's | Pool "'x list"

text \<open>
  \<open>rg_to_thread\<close> is the content of the channel to the threads: for each message the shared parts
  its closure polls.  A thread takes its closure at any time; the model takes the closures out
  when the threads are joined.
\<close>

record ('s, 'x) rprogram =
  rg_threads :: "('s, 'x) worker list"
  rg_shutdown :: bool
  rg_to_thread :: "'x list list"
  rg_shared_states :: "'x list"
  rg_n_thread :: usize

definition rprogram_new :: "usize \<Rightarrow> ('s, 'x) rprogram" where
  "rprogram_new n_thread =
     \<lparr>rg_threads = [], rg_shutdown = False, rg_to_thread = [], rg_shared_states = [],
      rg_n_thread = n_thread\<rparr>"

definition rprogram_deploy :: "'s \<Rightarrow> ('s, 'x) rprogram \<Rightarrow> ('s, 'x) rprogram res" where
  "rprogram_deploy state p =
     (if length (rg_threads p) < rg_n_thread p
      then Inr (p\<lparr>rg_threads := rg_threads p @ [Dedicated state]\<rparr>)
      else Inl Assert_Failed)"

definition rprogram_deploy_shared :: "'x \<Rightarrow> ('s, 'x) rprogram \<Rightarrow> ('s, 'x) rprogram" where
  "rprogram_deploy_shared shared_state p =
     p\<lparr>rg_shared_states := rg_shared_states p @ [shared_state]\<rparr>"

text \<open>
  One turn of a thread that owns a part, at the time \<open>now\<close>: it polls its part, remembers when the
  part last had something to do, and when that is 100 milliseconds ago, calls the closure \<open>on_idle\<close>,
  which polls the shared parts.
\<close>

definition dedicated_turn ::
  "('s \<Rightarrow> (bool \<times> 's) res) \<Rightarrow> ('w \<Rightarrow> 'w res) \<Rightarrow> instant \<Rightarrow> 's \<times> instant \<times> 'w \<Rightarrow>
   ('s \<times> instant \<times> 'w) res" where
  "dedicated_turn poll on_idle now s =
     (let (state, last_busy, world) = s in
      bind_res (poll state) (\<lambda>(busy, state).
      let last_busy = (if busy then now else last_busy) in
      if now - last_busy \<ge> from_millis 100
      then bind_res (on_idle world) (\<lambda>world. Inr (state, last_busy, world))
      else Inr (state, last_busy, world)))"

text \<open>The threads that \<open>run_until_interrupt\<close> adds.\<close>

function fill_threads :: "('s, 'x) rprogram \<Rightarrow> ('s, 'x) rprogram" where
  "fill_threads p =
     (if length (rg_threads p) < rg_n_thread p
      then fill_threads (p\<lparr>rg_threads := rg_threads p @ [Pool (rg_shared_states p)]\<rparr>)
      else p)"
  by pat_completeness auto
termination
  by (relation "measure (\<lambda>p. rg_n_thread p - length (rg_threads p))") auto

declare fill_threads.simps [simp del]

text \<open>The part of \<open>run_until_interrupt\<close> before it waits, and the part after that.\<close>

definition rprogram_start :: "('s, 'x) rprogram \<Rightarrow> ('s, 'x) rprogram res" where
  "rprogram_start p =
     (if rg_shutdown p then Inl Assert_Failed
      else Inr (fill_threads (p\<lparr>rg_to_thread :=
             rg_to_thread p @ replicate (length (rg_threads p)) (rg_shared_states p)\<rparr>)))"

text \<open>
  Setting the flag and joining the threads.  A thread that owns a part first takes a closure from
  the channel, and looks at the flag only then: without a closure for each of them, the threads
  are never joined.
\<close>

definition n_dedicated :: "('s, 'x) rprogram \<Rightarrow> usize" where
  "n_dedicated p =
     length (filter (\<lambda>t. case t of Dedicated state \<Rightarrow> True | Pool shared_states \<Rightarrow> False) (rg_threads p))"

definition join_threads :: "('s, 'x) rprogram \<Rightarrow> ('s, 'x) rprogram res" where
  "join_threads p =
     (if n_dedicated p \<le> length (rg_to_thread p)
      then Inr (p\<lparr>rg_threads := [], rg_to_thread := drop (n_dedicated p) (rg_to_thread p)\<rparr>)
      else Inl Diverges)"

definition rprogram_stop :: "('s, 'x) rprogram \<Rightarrow> ('s, 'x) rprogram res" where
  "rprogram_stop p = join_threads (p\<lparr>rg_shutdown := True\<rparr>)"

text \<open>\<open>drop\<close>: whether it prints its message, and what it leaves.\<close>

definition rprogram_drop :: "('s, 'x) rprogram \<Rightarrow> (bool \<times> ('s, 'x) rprogram) res" where
  "rprogram_drop p =
     bind_res (join_threads (p\<lparr>rg_shutdown := True\<rparr>)) (\<lambda>p'. Inr (\<not> rg_shutdown p, p'))"

lemma fill_threads_eq:
  "fill_threads p = p\<lparr>rg_threads := rg_threads p @
     replicate (rg_n_thread p - length (rg_threads p)) (Pool (rg_shared_states p))\<rparr>"
proof (induction p rule: fill_threads.induct)
  case (1 p)
  show ?case
  proof (cases "length (rg_threads p) < rg_n_thread p")
    case True
    then have "rg_n_thread p - length (rg_threads p) = Suc (rg_n_thread p - Suc (length (rg_threads p)))"
      by simp
    with 1 True show ?thesis by (subst fill_threads.simps) (simp add: replicate_app_Cons_same)
  qed (simp add: fill_threads.simps)
qed

text \<open>A program that runs is stopped, and its \<open>drop\<close> then has nothing to do.\<close>

lemma n_dedicated_fill: "n_dedicated (fill_threads p) = n_dedicated p"
  by (simp add: fill_threads_eq n_dedicated_def)

lemma rprogram_start_stops:
  assumes "rprogram_start p = Inr p1"
  shows "\<exists>p2. rprogram_stop p1 = Inr p2 \<and> rg_threads p2 = [] \<and> rprogram_drop p2 = Inr (False, p2)"
proof -
  let ?p = "p\<lparr>rg_to_thread := rg_to_thread p @ replicate (length (rg_threads p)) (rg_shared_states p)\<rparr>"
  have p1: "p1 = fill_threads ?p"
    using assms by (simp add: rprogram_start_def split: if_splits)
  then have "n_dedicated p1 \<le> length (rg_to_thread p1)"
    by (simp add: n_dedicated_fill) (simp add: fill_threads_eq n_dedicated_def le_trans [OF length_filter_le])
  then have "n_dedicated (p1\<lparr>rg_shutdown := True\<rparr>) \<le> length (rg_to_thread p1)"
    by (simp add: n_dedicated_def)
  then show ?thesis
    by (simp add: rprogram_stop_def join_threads_def rprogram_drop_def) (simp add: n_dedicated_def)
qed

text \<open>
  A program that has been given a part and is dropped without having run is not shut down, though
  \<open>drop\<close> says that it does so: nothing has been sent to the thread of the part.
\<close>

lemma rprogram_drop_blocks:
  assumes "rprogram_deploy state p = Inr p'" and "rg_to_thread p = []"
  shows "rprogram_drop p' = Inl Diverges"
  using assms
  by (auto simp: rprogram_deploy_def rprogram_drop_def join_threads_def n_dedicated_def split: if_splits)

section \<open>Replicas on the program\<close>

datatype part = P_Main pmain | P_Listen plisten | U_Main umain | U_Listen ulisten

datatype shared_part = P_Crypto pcrypto | U_Effect ueffect

definition preplica_deploy ::
  "preplica \<Rightarrow> (part, shared_part) rprogram \<Rightarrow> (part, shared_part) rprogram res" where
  "preplica_deploy r p =
     bind_res (rprogram_deploy (P_Main (pr_main r)) p) (\<lambda>p.
     bind_res (rprogram_deploy (P_Listen (pr_listen r)) p) (\<lambda>p.
     Inr (rprogram_deploy_shared (P_Crypto (pr_crypto r)) p)))"

definition ureplica_deploy ::
  "ureplica \<Rightarrow> (part, shared_part) rprogram \<Rightarrow> (part, shared_part) rprogram res" where
  "ureplica_deploy r p =
     bind_res (rprogram_deploy (U_Main (ur_main r)) p) (\<lambda>p.
     bind_res (rprogram_deploy (U_Listen (ur_listen r)) p) (\<lambda>p.
     Inr (rprogram_deploy_shared (U_Effect (ur_effect r)) p)))"

text \<open>
  \<open>Program::args\<close>.  \<open>os_bind a\<close> is what the socket bound to \<open>a\<close> will return, if it can be bound.
\<close>

definition replica_args ::
  "(socket_addr \<Rightarrow> udp_recv stream option) \<Rightarrow> transport_config \<Rightarrow> usize \<Rightarrow> app \<Rightarrow> replica_common res" where
  "replica_args os_bind config i app =
     bind_res (index (tc_replica config) i) (\<lambda>addr.
     bind_res (unwrap_ok (os_bind addr)) (\<lambda>arrivals.
     Inr \<lparr>rc_common_id = i, rc_config = config, rc_app = app, rc_tx = Tx_Udp,
          rc_rx = Rx_Udp arrivals, rc_clock = Clock_Real\<rparr>))"

text \<open>The threads of a program on which one replica is deployed.\<close>

lemma preplica_deploy_threads:
  "preplica_deploy r (rprogram_new n) =
     (if n < 2 then Inl Assert_Failed
      else Inr ((rprogram_new n)\<lparr>rg_threads := [Dedicated (P_Main (pr_main r)), Dedicated (P_Listen (pr_listen r))],
             rg_shared_states := [P_Crypto (pr_crypto r)]\<rparr>))"
  by (auto simp: preplica_deploy_def rprogram_deploy_def rprogram_new_def rprogram_deploy_shared_def)

end
