(* ===== verification/Deployment.thy ===== *)
theory Deployment
  imports Replica_Program
begin

text \<open>
  The deployment: the commands that \<open>src/run/examples/localhost.rs\<close> sends, and what
  \<open>src/main.rs\<close> does with the command it receives.
\<close>

section \<open>The receiving side\<close>

text \<open>A benchmark thread is given these arguments for its program.\<close>

record bench_args =
  ba_protocol :: protocol_mode
  ba_n_client :: usize
  ba_config :: transport_config
  ba_ip :: ip_addr
  ba_run_duration :: duration

text \<open>What a command makes the process do: run a replica, or benchmark threads.\<close>

datatype main_action =
    Run_Replica "(part, shared_part) rprogram"
  | Run_Clients "bench_args list"

fun app_of_mode :: "app_mode \<Rightarrow> app" where
  "app_of_mode AppMode_Null = Null"

definition main_replica ::
  "(socket_addr \<Rightarrow> udp_recv stream option) \<Rightarrow> command \<Rightarrow> replica_command \<Rightarrow> main_action res" where
  "main_replica os_bind cmd replica =
     (let program = rprogram_new (rc_n_thread replica) in
      bind_res (replica_args os_bind (cd_config cmd) (rc_id replica) (app_of_mode (cd_app cmd))) (\<lambda>args.
      bind_res (case cd_protocol cmd of
          Protocol_Unreplicated \<Rightarrow> ureplica_deploy (ureplica_new args) program
        | Protocol_Pbft \<Rightarrow> bind_res (preplica_new args) (\<lambda>r. preplica_deploy r program)) (\<lambda>program.
      Inr (Run_Replica program))))"

definition main_client :: "command \<Rightarrow> client_command \<Rightarrow> main_action res" where
  "main_client cmd client =
     Inr (Run_Clients (replicate (lc_n_thread client)
       \<lparr>ba_protocol = cd_protocol cmd, ba_n_client = lc_n_client client, ba_config = cd_config cmd,
        ba_ip = lc_ip client,
        ba_run_duration = from_secs (lc_n_report client) + from_millis 100\<rparr>))"

text \<open>\<open>de\<close> decodes a command: \<open>bincode::options().deserialize_from(..).ok()\<close>.\<close>

definition main_run_command ::
  "(bytes \<Rightarrow> command option) \<Rightarrow> (socket_addr \<Rightarrow> udp_recv stream option) \<Rightarrow> bytes \<Rightarrow> main_action res" where
  "main_run_command de os_bind b =
     bind_res (unwrap_ok (de b)) (\<lambda>cmd.
     case (cd_replica cmd, cd_client cmd) of
       (Some replica, None) \<Rightarrow> main_replica os_bind cmd replica
     | (None, Some client) \<Rightarrow> main_client cmd client
     | _ \<Rightarrow> Inl Unreachable)"

text \<open>
  Where \<open>main\<close> listens: on the address of the server in \<open>SSH_CONNECTION\<close>, the third of its words, or
  on all addresses.  \<open>ssh\<close> is the variable, if it is set; it is a string of ASCII characters, so \<open>trim\<close>
  removes the ASCII white space.
\<close>

fun split_on :: "char \<Rightarrow> string \<Rightarrow> string list" where
  "split_on c [] = [[]]"
| "split_on c (x # xs) =
     (if x = c then [] # split_on c xs
      else case split_on c xs of [] \<Rightarrow> [[x]] | w # ws \<Rightarrow> (x # w) # ws)"

definition is_space :: "char \<Rightarrow> bool" where
  "is_space c \<longleftrightarrow> of_char c \<in> {9 :: nat, 10, 11, 12, 13, 32}"

definition trim :: "string \<Rightarrow> string" where
  "trim s = rev (dropWhile is_space (rev (dropWhile is_space s)))"

definition main_host :: "string option \<Rightarrow> string res" where
  "main_host ssh =
     (case ssh of
        None \<Rightarrow> Inr ''0.0.0.0''
      | Some s \<Rightarrow> bind_res (unwrap (case drop 2 (split_on CHR '' '' s) of [] \<Rightarrow> None | w # ws \<Rightarrow> Some w))
                   (\<lambda>w. Inr (trim w)))"

text \<open>
  \<open>main\<close>: \<open>tcp host\<close> is what the first connection to port 7000 of the host sends, if the socket can
  be bound and accepts one.
\<close>

definition main_process ::
  "(bytes \<Rightarrow> command option) \<Rightarrow> (socket_addr \<Rightarrow> udp_recv stream option) \<Rightarrow> (string \<Rightarrow> bytes option) \<Rightarrow>
   string option \<Rightarrow> main_action res" where
  "main_process de os_bind tcp ssh =
     bind_res (main_host ssh) (\<lambda>host.
     bind_res (unwrap_ok (tcp host)) (main_run_command de os_bind))"

section \<open>The sending side\<close>

definition replica_hosts :: "ip_addr list" where
  "replica_hosts = [V4 127 0 0 1, V4 127 0 0 2, V4 127 0 0 3, V4 127 0 0 4]"

definition client_hosts :: "ip_addr list" where
  "client_hosts = [V4 127 0 0 101]"

definition localhost_config :: "(secret_key \<times> public_key) list \<Rightarrow> transport_config" where
  "localhost_config keys =
     \<lparr>tc_n = 4, tc_f = 1,
      tc_replica = [SocketAddr (V4 127 0 0 1) 7001, SocketAddr (V4 127 0 0 2) 7001,
                    SocketAddr (V4 127 0 0 3) 7001, SocketAddr (V4 127 0 0 4) 7001],
      tc_public_keys = map snd keys, tc_secret_keys = map fst keys\<rparr>"

text \<open>Four key pairs, in the order in which the generator makes them.\<close>

definition generate_keys :: "(nat \<Rightarrow> secret_key \<times> public_key) \<Rightarrow> (secret_key \<times> public_key) list" where
  "generate_keys generate_keypair = map generate_keypair [0..<4]"

text \<open>The loop over the replica hosts, which counts up the number in the command.\<close>

fun send_replica_commands ::
  "(command \<Rightarrow> bytes option) \<Rightarrow> ip_addr list \<Rightarrow> command \<Rightarrow> ((ip_addr \<times> bytes) list \<times> command) res" where
  "send_replica_commands ser [] cmd = Inr ([], cmd)"
| "send_replica_commands ser (host # hosts) cmd =
     bind_res (unwrap_ok (ser cmd)) (\<lambda>b.
     bind_res (unwrap (cd_replica cmd)) (\<lambda>r.
     bind_res (send_replica_commands ser hosts
        (cmd\<lparr>cd_replica := Some (r\<lparr>rc_id := rc_id r + 1\<rparr>)\<rparr>)) (\<lambda>(sends, cmd).
     Inr ((host, b) # sends, cmd))))"

fun send_client_commands ::
  "(command \<Rightarrow> bytes option) \<Rightarrow> ip_addr list \<Rightarrow> command \<Rightarrow> (ip_addr \<times> bytes) list res" where
  "send_client_commands ser [] cmd = Inr []"
| "send_client_commands ser (host # hosts) cmd =
     bind_res (unwrap_ok (ser cmd)) (\<lambda>b.
     bind_res (send_client_commands ser hosts cmd) (\<lambda>sends. Inr ((host, b) # sends)))"

text \<open>What is written to port 7000 of each host, in order, with the four generated key pairs.\<close>

definition lift_off ::
  "(command \<Rightarrow> bytes option) \<Rightarrow> (secret_key \<times> public_key) list \<Rightarrow> (ip_addr \<times> bytes) list res" where
  "lift_off ser keys =
     (let cmd = \<lparr>cd_config = localhost_config keys, cd_app = AppMode_Null, cd_protocol = Protocol_Pbft,
                 cd_replica = None, cd_client = None\<rparr>;
          cmd = cmd\<lparr>cd_replica := Some \<lparr>rc_id = 0, rc_n_thread = 4\<rparr>, cd_client := None\<rparr>
      in bind_res (send_replica_commands ser replica_hosts cmd) (\<lambda>(sends, cmd).
         let cmd = cmd\<lparr>cd_replica := None,
                       cd_client := Some \<lparr>lc_n_client = 1, lc_n_thread = 1, lc_ip = V4 127 0 0 101,
                                          lc_n_report = 10\<rparr>\<rparr>
         in bind_res (send_client_commands ser client_hosts cmd) (\<lambda>sends'.
            Inr (sends @ sends'))))"

text \<open>The program by its argument: the list of hosts for the wrapper script, or the commands.\<close>

datatype script_action = Exported "string list" | Lifted_Off "(ip_addr \<times> bytes) list"

definition sync_hosts :: "string list" where
  "sync_hosts = [''127.0.0.1'']"

definition export_lines :: "string list" where
  "export_lines =
     map (\<lambda>host. ''SYNC '' @ host) sync_hosts @
     map (\<lambda>host. ''RUN_KILL '' @ host) [''127.0.0.1'', ''127.0.0.2'', ''127.0.0.3'', ''127.0.0.4''] @
     map (\<lambda>host. ''RUN_WAIT '' @ host) [''127.0.0.101'']"

definition localhost_main ::
  "(command \<Rightarrow> bytes option) \<Rightarrow> (nat \<Rightarrow> secret_key \<times> public_key) \<Rightarrow> string option \<Rightarrow> script_action res" where
  "localhost_main ser generate_keypair arg =
     (if arg = Some ''export'' then Inr (Exported export_lines)
      else if arg = Some ''liftoff''
      then bind_res (lift_off ser (generate_keys generate_keypair)) (\<lambda>sends. Inr (Lifted_Off sends))
      else Inl Panicked)"

section \<open>The host\<close>

lemma split_on_word: "c \<notin> set w \<Longrightarrow> split_on c w = [w]"
  by (induction w) auto

lemma split_on_append: "c \<notin> set w \<Longrightarrow> split_on c (w @ c # s) = w # split_on c s"
  by (induction w) auto

lemma trim_word: "(\<And>c. c \<in> set w \<Longrightarrow> \<not> is_space c) \<Longrightarrow> trim w = w"
proof -
  assume w: "\<And>c. c \<in> set w \<Longrightarrow> \<not> is_space c"
  have "dropWhile is_space v = v" if "set v \<subseteq> set w" for v using that w by (cases v) auto
  then show "trim w = w" by (simp add: trim_def)
qed

text \<open>
  The variable has the form \<open>client_ip client_port server_ip server_port\<close>; other forms with less than
  three words panic.
\<close>

lemma main_host_ssh:
  assumes "CHR '' '' \<notin> set client_ip" and "CHR '' '' \<notin> set client_port"
    and "\<And>c. c \<in> set server_ip \<Longrightarrow> \<not> is_space c"
  shows "main_host (Some (client_ip @ CHR '' '' # client_port @ CHR '' '' # server_ip @ CHR '' '' # server_port)) =
    Inr server_ip"
proof -
  have "CHR '' '' \<notin> set server_ip" using assms(3) [of "CHR '' ''"] by (auto simp: is_space_def)
  with assms show ?thesis by (simp add: main_host_def split_on_append trim_word)
qed

lemma main_host_short:
  assumes "CHR '' '' \<notin> set v" and "CHR '' '' \<notin> set w"
  shows "main_host (Some (v @ CHR '' '' # w)) = Inl Unwrap_None" and "main_host (Some v) = Inl Unwrap_None"
  using assms by (simp_all add: main_host_def split_on_append split_on_word)

end
