(* ===== verification/Bench_Process_Properties.thy ===== *)
theory Bench_Process_Properties
  imports Bench_Properties Deployment
begin

text \<open>
  The benchmark process that \<open>src/main.rs\<close> makes of a command: it ends, and what it prints adds up
  to the operations of its clients.
\<close>

section \<open>The threads of a command\<close>

text \<open>
  The drivers that the threads of \<open>main\<close> construct and run.  \<open>parts\<close> has for each
  thread the next client number at the time it asks for them, and its sockets.
\<close>

type_synonym bench_part = "u16 \<times> (socket_addr \<times> udp_recv stream) list"

definition ubench_programs :: "bench_args list \<Rightarrow> bench_part list \<Rightarrow> uclient program list" where
  "ubench_programs args parts =
     map2 (\<lambda>a (next_id, sockets). uprogram_new (ba_config a) next_id sockets (ba_run_duration a)) args parts"

definition pbench_programs :: "bench_args list \<Rightarrow> bench_part list \<Rightarrow> pclient program list" where
  "pbench_programs args parts =
     map2 (\<lambda>a (next_id, sockets). pprogram_new (ba_config a) next_id sockets (ba_run_duration a)) args parts"

text \<open>
  The environment does its part: the operating system gives each thread as many
  sockets as it asks for and names only these in its events, sending works, what arrives decodes,
  no socket delivers datagrams for ever without \<open>WouldBlock\<close> in between, and time goes on.
\<close>

definition bench_env ::
  "externals \<Rightarrow> client_command \<Rightarrow> bench_part list \<Rightarrow> (nat \<Rightarrow> nat \<Rightarrow> time_env) \<Rightarrow>
   (nat \<Rightarrow> nat \<Rightarrow> usize list option) \<Rightarrow> bool" where
  "bench_env X client parts now epoll \<longleftrightarrow> 0 < lc_n_client client \<and>
     length parts = lc_n_thread client \<and> (\<forall>d b. os_send_ok X d b) \<and>
     (\<forall>part \<in> set parts. length (snd part) = lc_n_client client \<and>
        (\<forall>s \<in> set (snd part). rx_decodes X (Rx_Udp (snd s)) \<and> rx_quiet (Rx_Udp (snd s)))) \<and>
     (\<forall>i < lc_n_thread client. epoll_ok (lc_n_client client) (epoll i) \<and> clock_advances (now i))"

text \<open>The configuration names a replica for every number the client may take for the primary.\<close>

definition bench_config_ok :: "transport_config \<Rightarrow> bool" where
  "bench_config_ok config \<longleftrightarrow> 0 < tc_n config \<and> tc_n config \<le> length (tc_replica config)"

lemma pprogram_healthy_new:
  assumes "pbft_ext_ok X" and "\<And>d b. os_send_ok X d b" and "bench_config_ok config"
    and "\<And>s. s \<in> set sockets \<Longrightarrow> rx_decodes X (Rx_Udp (snd s)) \<and> rx_quiet (Rx_Udp (snd s))"
  shows "pb.all_healthy X (pprogram_new config k sockets d)"
  using assms bench_commons_in [of _ config k sockets]
  by (fastforce simp: pb.all_healthy_def pprogram_new_def program_new_def pclient_healthy_def pclient_new_def
      tx_ok_def bench_config_ok_def)

lemma pbench_programs_eq:
  assumes "main_client cmd client = Inr (Run_Clients args)" and "length parts = lc_n_thread client"
  shows "pbench_programs args parts = map (\<lambda>(next_id, sockets). pprogram_new (cd_config cmd) next_id sockets
    (from_secs (lc_n_report client) + from_millis 100)) parts"
  using assms
  by (auto simp: main_client_def pbench_programs_def zip_replicate1 map_zip_map2 o_def split_beta
      intro: nth_equalityI)

lemma pbench_ok:
  assumes "main_client cmd client = Inr (Run_Clients args)" and "bench_env X client parts now epoll"
    and "pbft_ext_ok X" and "bench_config_ok (cd_config cmd)"
  shows "length (pbench_programs args parts) = lc_n_thread client"
    and "pb.process_env now epoll (pbench_programs args parts)"
    and "pb.process_ok X now epoll r (pbench_programs args parts) (bp_init (pbench_programs args parts))"
proof -
  have n: "length parts = lc_n_thread client" using assms(2) by (simp add: bench_env_def)
  note eq = pbench_programs_eq [OF assms(1) n]
  show "length (pbench_programs args parts) = lc_n_thread client" by (simp add: eq n)
  have part: "length (snd (parts ! i)) = lc_n_client client" if "i < length parts" for i
    using assms(2) that by (simp add: bench_env_def)
  show "pb.process_env now epoll (pbench_programs args parts)"
    unfolding pb.process_env_def eq
    using assms(2) part
    by (auto simp: bench_env_def split_beta pprogram_new_def program_new_def simp flip: length_greater_0_conv)
  show "pb.process_ok X now epoll r (pbench_programs args parts) (bp_init (pbench_programs args parts))"
  proof (rule pb.process_ok_init)
    fix p
    assume "p \<in> set (pbench_programs args parts)"
    then obtain next_id sockets d where "(next_id, sockets) \<in> set parts"
      "p = pprogram_new (cd_config cmd) next_id sockets d" by (auto simp: eq)
    with assms pprogram_started pprogram_healthy_new [of X "cd_config cmd" sockets]
    show "pb.started 0 p \<and> pb.all_healthy X p" by (fastforce simp: bench_env_def)
  qed
qed

lemma pbench_steps:
  assumes "main_client cmd client = Inr (Run_Clients args)" and "bench_env X client parts now epoll"
    and "pbft_ext_ok X" and "bench_config_ok (cd_config cmd)"
    and "(bp_step (pclient_ops X) now epoll r ^^ m) (bp_init (pbench_programs args parts)) s"
  shows "pb.process_ok X now epoll r (pbench_programs args parts) s"
    and "m \<le> pb.process_weight X now r (bp_init (pbench_programs args parts))"
  using pb.process_steps [OF assms(5) pbench_ok(2,3) [OF assms(1-4)]] by simp_all

section \<open>Properties\<close>

text \<open>
  C8. The benchmark process ends: when the environment does its part (\<open>bench_env\<close>: the sockets and
  events are those of the thread's clients, sending works, what arrives decodes, no socket
  delivers datagrams for ever without \<open>WouldBlock\<close> in between, and the clock advances), every
  execution of the process that a benchmark command for PBFT starts is finite, with a bound on its
  length, in whatever order its threads run; and it only stops when \<open>main\<close> has printed as
  many reports as the command asks for and has joined all threads, each of which has run its
  driver to the end.  A step of a thread is one turn of its main loop with the loop over the polls of a
  client in it; that this loop ends is part of what is shown, as a thread in which it does not is
  \<open>B_Hung\<close>, has no next step, and keeps \<open>main\<close> from its end.
\<close>

theorem bench_process_returns:
  assumes "main_client cmd client = Inr (Run_Clients args)" and "bench_env X client parts now epoll"
    and "pbft_ext_ok X" and "bench_config_ok (cd_config cmd)"
  shows "(\<exists>N. \<forall>m s. (bp_step (pclient_ops X) now epoll (lc_n_report client) ^^ m)
        (bp_init (pbench_programs args parts)) s \<longrightarrow> m \<le> N) \<and>
    (\<forall>s. (bp_step (pclient_ops X) now epoll (lc_n_report client))\<^sup>*\<^sup>* (bp_init (pbench_programs args parts)) s \<and>
        (\<nexists>s'. bp_step (pclient_ops X) now epoll (lc_n_report client) s s') \<longrightarrow>
      bp_main s = R_Return \<and> length (bp_printed s) = lc_n_report client \<and>
      length (bp_threads s) = lc_n_thread client \<and>
      (\<forall>i < lc_n_thread client. \<exists>p. bp_threads s ! i = B_Done p \<and>
         bench_run (pclient_ops X) (now i) (epoll i) (pbench_programs args parts ! i) = Inr p))"
proof -
  note ok = pbench_ok [OF assms] and steps = pbench_steps [OF assms, where r = "lc_n_report client"]
  have "\<exists>N. \<forall>m s. (bp_step (pclient_ops X) now epoll (lc_n_report client) ^^ m)
        (bp_init (pbench_programs args parts)) s \<longrightarrow> m \<le> N" using steps(2) by blast
  moreover have reached: "pb.process_ok X now epoll (lc_n_report client) (pbench_programs args parts) s"
    if "(bp_step (pclient_ops X) now epoll (lc_n_report client))\<^sup>*\<^sup>* (bp_init (pbench_programs args parts)) s" for s
    using that steps(1) unfolding rtranclp_power by blast
  note pb.process_progress [OF ok(2) reached, unfolded ok(1)]
  ultimately show ?thesis by blast
qed

text \<open>Two threads with one client each, which print one report.\<close>

definition bench_command :: command where
  "bench_command =
     \<lparr>cd_config = sample_config, cd_app = AppMode_Null, cd_protocol = Protocol_Pbft, cd_replica = None,
      cd_client = Some \<lparr>lc_n_client = 1, lc_n_thread = 2, lc_ip = V4 127 0 0 101, lc_n_report = 1\<rparr>\<rparr>"

definition bench_parts :: "bench_part list" where
  "bench_parts = [(1, bench_sockets), (2, bench_sockets)]"

lemma bench_command_ok:
  "\<exists>args. main_client bench_command (the (cd_client bench_command)) = Inr (Run_Clients args)"
  "bench_env bench_ext (the (cd_client bench_command)) bench_parts (\<lambda>i. bench_clock) (\<lambda>i k. Some [0])"
  "pbft_ext_ok bench_ext" "bench_config_ok (cd_config bench_command)"
  "lc_n_report (the (cd_client bench_command)) = 1" "lc_n_thread (the (cd_client bench_command)) = 2"
proof -
  show "pbft_ext_ok bench_ext" unfolding bench_ext_def by (rule sample_pbft_ext_ok) simp_all
  show "bench_env bench_ext (the (cd_client bench_command)) bench_parts (\<lambda>i. bench_clock) (\<lambda>i k. Some [0])"
    using bench_ext_ok(2,3) bench_clock_advances
    by (auto simp: bench_env_def bench_command_def bench_parts_def epoll_ok_def) (auto simp: bench_sockets_def)
qed (simp_all add: main_client_def bench_command_def bench_config_ok_def sample_config_def)

text \<open>An execution that is as long as possible ends.\<close>

lemma bounded_steps_end:
  assumes "\<forall>m s. (R ^^ m) s0 s \<longrightarrow> m \<le> (N :: nat)"
  shows "\<exists>s. R\<^sup>*\<^sup>* s0 s \<and> (\<nexists>s'. R s s')"
proof (rule ccontr)
  assume "\<nexists>s. R\<^sup>*\<^sup>* s0 s \<and> (\<nexists>s'. R s s')"
  then have more: "\<exists>s'. R s s'" if "(R ^^ m) s0 s" for m s using that by (meson rtranclp_power)
  have "\<exists>s. (R ^^ m) s0 s" for m
  proof (induction m)
    case (Suc m)
    then show ?case using more [of m] by (meson relpowp_Suc_I)
  qed (simp add: exI [of _ s0])
  from this [of "Suc N"] assms show False by fastforce
qed

lemma bench_command_ends:
  "\<exists>args s. main_client bench_command (the (cd_client bench_command)) = Inr (Run_Clients args) \<and>
     (bp_step (pclient_ops bench_ext) (\<lambda>i. bench_clock) (\<lambda>i k. Some [0]) 1)\<^sup>*\<^sup>*
       (bp_init (pbench_programs args bench_parts)) s \<and>
     bp_main s = R_Return \<and> length (bp_printed s) = 1"
proof -
  from bench_command_ok(1) obtain args where
    args: "main_client bench_command (the (cd_client bench_command)) = Inr (Run_Clients args)" by blast
  note env = bench_command_ok(2-4)
  obtain N where "\<forall>m s. (bp_step (pclient_ops bench_ext) (\<lambda>i. bench_clock) (\<lambda>i k. Some [0]) 1 ^^ m)
       (bp_init (pbench_programs args bench_parts)) s \<longrightarrow> m \<le> N"
    using pbench_steps(2) [OF args env] by blast
  from bounded_steps_end [OF this] obtain s where
    s: "(bp_step (pclient_ops bench_ext) (\<lambda>i. bench_clock) (\<lambda>i k. Some [0]) 1)\<^sup>*\<^sup>*
       (bp_init (pbench_programs args bench_parts)) s"
    and e: "\<nexists>s'. bp_step (pclient_ops bench_ext) (\<lambda>i. bench_clock) (\<lambda>i k. Some [0]) 1 s s'" by blast
  from s obtain m where "(bp_step (pclient_ops bench_ext) (\<lambda>i. bench_clock) (\<lambda>i k. Some [0]) 1 ^^ m)
       (bp_init (pbench_programs args bench_parts)) s" by (auto simp: rtranclp_power)
  from pb.process_progress [OF pbench_ok(2) [OF args env] pbench_steps(1) [OF args env this] e] args s
  show ?thesis by blast
qed

theorem bench_process_returns_witness:
  "\<exists>args N. main_client bench_command (the (cd_client bench_command)) = Inr (Run_Clients args) \<and>
     {m. \<exists>s. (bp_step (pclient_ops bench_ext) (\<lambda>i. bench_clock) (\<lambda>i k. Some [0]) 1 ^^ m)
        (bp_init (pbench_programs args bench_parts)) s} \<subseteq> {..N} \<and>
     (\<exists>s. (bp_step (pclient_ops bench_ext) (\<lambda>i. bench_clock) (\<lambda>i k. Some [0]) 1)\<^sup>*\<^sup>*
        (bp_init (pbench_programs args bench_parts)) s \<and>
        bp_main s = R_Return \<and> length (bp_printed s) = 1 \<and> length (bp_threads s) = 2)"
proof -
  from bench_command_ok(1) obtain args where
    args: "main_client bench_command (the (cd_client bench_command)) = Inr (Run_Clients args)" by blast
  let ?step = "bp_step (pclient_ops bench_ext) (\<lambda>i. bench_clock) (\<lambda>i k. Some [0]) 1"
  let ?s0 = "bp_init (pbench_programs args bench_parts)"
  note ends = bench_process_returns [OF args bench_command_ok(2-4), unfolded bench_command_ok(5,6)]
  from ends obtain N where N: "\<forall>m s. (?step ^^ m) ?s0 s \<longrightarrow> m \<le> N" by blast
  from bounded_steps_end [OF this] obtain s where "?step\<^sup>*\<^sup>* ?s0 s" "\<nexists>s'. ?step s s'" by blast
  with ends have "bp_main s = R_Return \<and> length (bp_printed s) = 1 \<and> length (bp_threads s) = 2" by blast
  moreover have "{m. \<exists>s. (?step ^^ m) ?s0 s} \<subseteq> {..N}" using N by blast
  ultimately show ?thesis using args \<open>?step\<^sup>*\<^sup>* ?s0 s\<close> by blast
qed

lemma sum_list_map_concat:
  "sum_list (map f (concat xss)) = sum_list (map (\<lambda>xs. sum_list (map f xs)) xss)"
  by (induction xss) simp_all

text \<open>
  C11. The reports add up: in every state of the process, the numbers it has printed and the one in the
  counter are together the number of operations that the clients of all threads have completed,
  in 32 bits, so that no result is lost or counted twice between two reports; and no thread has
  panicked.
\<close>

theorem throughput_adds_up:
  assumes "main_client cmd client = Inr (Run_Clients args)" and "bench_env X client parts now epoll"
    and "pbft_ext_ok X" and "bench_config_ok (cd_config cmd)"
    and "(bp_step (pclient_ops X) now epoll (lc_n_report client))\<^sup>*\<^sup>* (bp_init (pbench_programs args parts)) s"
  shows "sum_list (bp_printed s) + bp_n_result s =
      (\<Sum>c \<leftarrow> concat (map thread_clients (bp_threads s)).
         pc_request_number c - (if pclient_idle c then 0 else 1)) \<and>
    length (bp_printed s) \<le> lc_n_report client \<and>
    bp_main s \<noteq> R_Panic \<and> (\<nexists>e. B_Panicked e \<in> set (bp_threads s))"
proof -
  from assms(5) obtain m where
    m: "(bp_step (pclient_ops X) now epoll (lc_n_report client) ^^ m) (bp_init (pbench_programs args parts)) s"
    by (auto simp: rtranclp_power)
  note s = pbench_steps(1) [OF assms(1-4) m]
  have t: "\<exists>n. pb.thread_ok X n t" if "t \<in> set (bp_threads s)" for t
  proof -
    from that obtain i where "i < length (bp_threads s)" "t = bp_threads s ! i" by (auto simp: in_set_conv_nth)
    with s have "pb.thread_ok X (length (pg_clients (pbench_programs args parts ! i))) t"
      by (simp add: pb.process_ok_def)
    then show ?thesis by blast
  qed
  have "map thread_results (bp_threads s) = map (\<lambda>t. sum_list (map pb.completed (thread_clients t))) (bp_threads s)"
    using t pb.thread_results_completed by (intro map_cong) blast+
  then have "sum_list (bp_printed s) + bp_n_result s =
      (\<Sum>c \<leftarrow> concat (map thread_clients (bp_threads s)). pb.completed c)"
    using s by (simp add: pb.process_ok_def sum_list_map_concat cong: map_cong)
  moreover have "length (bp_printed s) \<le> lc_n_report client" "bp_main s \<noteq> R_Panic"
    using s by (auto simp: pb.process_ok_def split: report_pc.splits)
  moreover have "B_Panicked e \<notin> set (bp_threads s)" for e
    using t [of "B_Panicked e"] by (auto simp: pb.thread_ok_def)
  ultimately show ?thesis by (simp add: pb.completed_def)
qed

theorem throughput_adds_up_witness:
  "\<exists>args. main_client bench_command (the (cd_client bench_command)) = Inr (Run_Clients args) \<and>
     (\<exists>s. (bp_step (pclient_ops bench_ext) (\<lambda>i. bench_clock) (\<lambda>i k. Some [0]) 1)\<^sup>*\<^sup>*
         (bp_init (pbench_programs args bench_parts)) s \<and> bp_main s = R_Return \<and>
       hd (bp_printed s) + bp_n_result s =
         (\<Sum>c \<leftarrow> concat (map thread_clients (bp_threads s)).
            pc_request_number c - (if pclient_idle c then 0 else 1)))"
proof -
  from bench_command_ends obtain args s where
    args: "main_client bench_command (the (cd_client bench_command)) = Inr (Run_Clients args)"
    and s: "(bp_step (pclient_ops bench_ext) (\<lambda>i. bench_clock) (\<lambda>i k. Some [0]) 1)\<^sup>*\<^sup>*
       (bp_init (pbench_programs args bench_parts)) s"
    and r: "bp_main s = R_Return" "length (bp_printed s) = 1" by blast
  from r(2) have sum: "sum_list (bp_printed s) = hd (bp_printed s)" by (cases "bp_printed s") auto
  note adds_up = throughput_adds_up [OF args bench_command_ok(2-4), unfolded bench_command_ok(5), OF s]
  show ?thesis
    by (intro exI conjI, rule args, rule s, rule r(1), rule conjunct1 [OF adds_up, unfolded sum])
qed

end
