(* ===== verification/Bench_Livelock.thy ===== *)
theory Bench_Livelock
  imports Bench_Properties
begin

text \<open>
  The answer to the question in a comment of \<open>src/program/bench_client.rs\<close>, whether the loop over the
  polls of a client can live lock: it does when the datagrams in the socket of the client never stop.
\<close>

section \<open>A client under a flood\<close>

text \<open>
  Replies that decode but do not answer the request of the client, one after the other without end.
\<close>

definition stray_reply :: "externals \<Rightarrow> u32 \<Rightarrow> bytes \<Rightarrow> bool" where
  "stray_reply X k p \<longleftrightarrow> (\<exists>m. bc_de_reply X (take 1500 p) = Some m \<and> rp_request_number m \<noteq> k)"

definition uclient_flooded :: "externals \<Rightarrow> uclient \<Rightarrow> bool" where
  "uclient_flooded X c \<longleftrightarrow> uclient_inv c \<and> uc_op c \<noteq> None \<and> uclient_can_send X c \<and>
     rx_flooded (stray_reply X (uc_request_number c)) (cc_rx (uc_common c))"

lemma take_min_length: "take (min (length p) n) p = take n p"
  by (simp add: min_def)

text \<open>Such a client reads a datagram in every poll and never has a result.\<close>

lemma uclient_flooded_poll:
  assumes "uclient_flooded X c"
  shows "\<exists>c1 c2 out. uclient_poll X t t' c = Inr (True, c1, out) \<and>
    uclient_take_result c1 = (None, c2) \<and> uclient_flooded X c2"
proof -
  have inv: "uclient_inv c" and op: "uc_op c \<noteq> None" and send: "uclient_can_send X c"
    and flood: "rx_flooded (stray_reply X (uc_request_number c)) (cc_rx (uc_common c))"
    using assms by (simp_all add: uclient_flooded_def)
  from uclient_resend_succeeds [OF send inv] obtain d out where
    d: "uclient_resend X t t' c = Inr (d, out)" by blast
  note same = uclient_resend_Inr [OF d]
  have len: "length (uc_buffer d) = 1500" using same(6) [OF inv] by (simp add: uclient_inv_def)
  from receive_from_flooded [OF flood, of "uc_buffer d"] obtain p a rx buf where
    r: "receive_from (cc_rx (uc_common d)) (uc_buffer d) = Inr (Some (min (length p) 1500, a), rx, buf)"
    and p: "stray_reply X (uc_request_number c) p" "take (min (length p) 1500) buf = take 1500 p"
    and buf: "length buf = 1500"
    and rx: "rx_flooded (stray_reply X (uc_request_number c)) rx"
    unfolding same(3) len by blast
  let ?c = "d\<lparr>uc_common := (uc_common d)\<lparr>cc_rx := rx\<rparr>, uc_buffer := buf\<rparr>"
  have "uclient_on_packet X (min (length p) 1500) ?c = Inr ?c"
    using p op same(1,5) by (auto simp: uclient_on_packet_def stray_reply_def)
  with r have "uclient_receive X d = Inr (True, ?c)" by (simp add: uclient_receive_def Let_def)
  with d have poll: "uclient_poll X t t' c = Inr (True, ?c, out)" by (simp add: uclient_poll_split)
  have i: "uclient_inv d" using same(6) inv by simp
  then have "uc_result ?c = None" using op same(1,2) inv by (auto simp: uclient_inv_def)
  then have "uclient_take_result ?c = (None, ?c)" by (simp add: uclient_take_result_def)
  moreover have "uclient_flooded X ?c"
    using i op send rx buf same by (simp add: uclient_flooded_def uclient_inv_def uclient_can_send_def)
  ultimately show ?thesis using poll by blast
qed

lemma uclient_flooded_diverges:
  assumes "i < length (pg_clients p)" and "uclient_flooded X (pg_clients p ! i)"
  shows "poll_all (poll_client (uclient_ops X) now i) p = Inl Diverges"
  using assms uclient_flooded_poll
  by (intro drain_diverges [where F = "uclient_flooded X"]) (simp_all add: uclient_ops_def)

section \<open>The start of the driver\<close>

text \<open>A client that can send before its first operation, and starts it.\<close>

definition uclient_fresh :: "externals \<Rightarrow> uclient \<Rightarrow> bool" where
  "uclient_fresh X c \<longleftrightarrow> uclient_inv c \<and> uclient_idle c \<and> uc_request_number c = 0 \<and> uclient_can_send X c"

lemma uclient_fresh_invoke:
  assumes "uclient_fresh X c"
  shows "\<exists>c' out. uclient_invoke X t op c = Inr (c', out) \<and> uclient_inv c' \<and> uc_op c' \<noteq> None \<and>
    uc_request_number c' = 1 \<and> uclient_can_send X c' \<and> cc_rx (uc_common c') = cc_rx (uc_common c)"
proof -
  let ?c = "c\<lparr>uc_request_number := uc_request_number c + 1, uc_op := Some op, uc_result := None\<rparr>"
  have "uclient_can_send X ?c" using assms by (simp add: uclient_fresh_def uclient_can_send_def)
  from uclient_send_succeeds [OF this, of t] assms obtain c' out where
    i: "uclient_invoke X t op c = Inr (c', out)" and "\<exists>due. c' = ?c\<lparr>uc_resend_instant := due\<rparr>"
    by (auto simp: uclient_invoke_def uclient_fresh_def uclient_idle_def)
  moreover have "uclient_inv c'" using uc.invoke_inv [OF _ i] assms by (simp add: uclient_fresh_def)
  ultimately show ?thesis using assms by (auto simp: uclient_fresh_def uclient_can_send_def)
qed

lemma invoke_clients_then_diverge:
  assumes "\<forall>c \<in> set (pg_clients p). uclient_fresh X c" and "pg_clients p \<noteq> []"
    and "rx_flooded (stray_reply X 1) (cc_rx (uc_common (hd (pg_clients p))))"
  shows "run_start (uclient_ops X) now p = Inl Diverges"
proof -
  let ?n = "length (pg_clients p)"
  let ?I = "\<lambda>k q. length (pg_clients q) = ?n \<and> (\<forall>j < ?n. k \<le> j \<longrightarrow> pg_clients q ! j = pg_clients p ! j) \<and>
    (0 < k \<longrightarrow> uclient_flooded X (pg_clients q ! 0))"
  have step: "\<exists>s'. invoke_client (uclient_ops X) now k s = Inr s' \<and> ?I (Suc k) s'" if "k < ?n" "?I k s" for k s
  proof -
    have c: "uclient_fresh X (pg_clients s ! k)" using that assms(1) by simp
    from uclient_fresh_invoke [OF c, of "now (pg_reads s)" "[]"] obtain c' out where
      c': "uclient_invoke X (now (pg_reads s)) [] (pg_clients s ! k) = Inr (c', out)" "uclient_inv c'"
        "uc_op c' \<noteq> None" "uc_request_number c' = 1" "uclient_can_send X c'"
        "cc_rx (uc_common c') = cc_rx (uc_common (pg_clients s ! k))" by blast
    have "uclient_flooded X c'" if "k = 0"
      using c' that \<open>?I k s\<close> assms(2,3) by (simp add: uclient_flooded_def hd_conv_nth)
    with c'(1) that show ?thesis
      by (auto simp: invoke_client_def index_ok uclient_ops_def nth_list_update)
  qed
  have I0: "?I 0 p" by simp
  from for_each_upt_ok [of 0 ?n ?I p "invoke_client (uclient_ops X) now"] I0 step
  obtain q where q: "for_each (invoke_client (uclient_ops X) now) [0..<?n] p = Inr q" by blast
  have "?I ?n q"
  proof (rule for_each_upt [OF q, where I = ?I])
    fix k s s'
    assume "k < ?n" "?I k s" "invoke_client (uclient_ops X) now k s = Inr s'"
    with step [of k s] show "?I (Suc k) s'" by auto
  qed (use I0 in auto)
  then have n: "length (pg_clients q) = ?n" and "uclient_flooded X (pg_clients q ! 0)"
    using assms(2) by simp_all
  then have "poll_all (poll_client (uclient_ops X) now 0) q = Inl Diverges"
    using assms(2) by (intro uclient_flooded_diverges) simp_all
  moreover have "[0..<?n] = 0 # [Suc 0..<?n]" using assms(2) by (simp add: upt_conv_Cons)
  ultimately have "for_each (serve_client (uclient_ops X) now) [0..<?n] q = Inl Diverges"
    by (simp add: serve_client_def)
  with q n show ?thesis by (simp add: run_start_def)
qed

section \<open>The property\<close>

text \<open>
  The loop over the polls of a client can live lock: when one datagram after the other arrives in
  the socket of the first client, each of which decodes to a reply to another request, \<open>run\<close> never
  returns, whatever the clock and \<open>epoll_wait\<close> show and however short the run is to be, although
  nothing else goes wrong; it does not get to its main loop, where it would look at the time.
\<close>
theorem driver_can_livelock:
  assumes "unreplicated_ext_ok X" and "\<forall>d b. os_send_ok X d b" and "tc_replica config \<noteq> []"
    and "rx_flooded (stray_reply X 1) (Rx_Udp (snd s))"
  shows "bench_run (uclient_ops X) now epoll (uprogram_new config next_id (s # sockets) run_duration) =
    Inl Diverges"
proof -
  let ?p = "uprogram_new config next_id (s # sockets) run_duration"
  have c: "uclient_fresh X (uclient_new c)" if "c \<in> set (fst (bench_commons config next_id (s # sockets)))" for c
    using bench_commons_in [OF that] assms(1-3)
    by (simp add: uclient_fresh_def uclient_inv_new uclient_can_send_def tx_ok_def)
       (simp add: uclient_new_def uclient_idle_def)
  have "run_start (uclient_ops X) now ?p = Inl Diverges"
  proof (rule invoke_clients_then_diverge)
    show "\<forall>c \<in> set (pg_clients ?p). uclient_fresh X c"
      using c by (auto simp: uprogram_new_def program_new_def)
    show "pg_clients ?p \<noteq> []" "rx_flooded (stray_reply X 1) (cc_rx (uc_common (hd (pg_clients ?p))))"
      using assms(4) by (simp_all add: uprogram_new_def program_new_def bench_common_def alloc_client_id_def
          uclient_new_def Let_def del: rx_flooded.simps split: prod.splits)
  qed
  then show ?thesis by (simp add: bench_run_def)
qed

definition flood :: "socket_addr \<times> udp_recv stream" where
  "flood = (sample_client_addr, sconst (Udp_Packet [0] (sample_addr 1)))"

definition flood_ext :: externals where
  "flood_ext = sample_ext [] [reply_default\<lparr>rp_request_number := 7\<rparr>] []"

theorem driver_can_livelock_witness:
  "bench_run (uclient_ops flood_ext) bench_clock (\<lambda>k. Some [0])
     (uprogram_new sample_config 1 [flood] 0) = Inl Diverges"
  by (rule driver_can_livelock, unfold flood_ext_def)
     (simp_all add: sample_unreplicated_ext_ok sample_config_def flood_def stray_reply_def,
      simp_all add: sample_ext_def untagged_def)

end
