(* ===== verification/Simulated.thy ===== *)
theory Simulated
  imports Unreplicated
begin

text \<open>
  The simulated network of \<open>src/simulated.rs\<close>, and a client and a replica of the unreplicated
  service that use it, as the tests of \<open>src/unreplicated.rs\<close> put them together.
\<close>

section \<open>The network\<close>

text \<open>
  A channel is the list of the datagrams in it.  The network holds the senders of all channels and
  hands out the receivers, so \<open>nw_routes\<close> has the content of the channel behind each address.
\<close>

record network =
  nw_instant :: instant
  nw_elapsed :: duration
  nw_routes :: "socket_addr \<rightharpoonup> (socket_addr \<times> bytes) list"
  nw_config :: transport_config
  nw_n_client :: usize
  nw_tx :: "(socket_addr \<times> socket_addr \<times> bytes) list"

definition network_addr :: "usize \<Rightarrow> socket_addr" where
  "network_addr i = SocketAddr (V4 10 0 0 (of_nat i)) 8000"

text \<open>
  \<open>secret_key\<close> is \<open>SecretKey::from_slice(..).ok()\<close>.  The \<open>i\<close>-th key has 31 bytes \<open>0x7f\<close> and \<open>i\<close>.
\<close>

fun unwrap_all :: "'a option list \<Rightarrow> 'a list res" where
  "unwrap_all [] = Inr []"
| "unwrap_all (x # xs) =
     bind_res (unwrap_ok x) (\<lambda>a. bind_res (unwrap_all xs) (\<lambda>as. Inr (a # as)))"

definition network_new ::
  "externals \<Rightarrow> (bytes \<Rightarrow> secret_key option) \<Rightarrow> instant \<Rightarrow> usize \<Rightarrow> usize \<Rightarrow> network res" where
  "network_new X secret_key instant n f =
     bind_res (unwrap_all (map (\<lambda>i. secret_key (replicate 31 0x7f @ [of_nat i])) [0..<n])) (\<lambda>secret_keys.
     let replica = map network_addr [0..<n] in
     Inr \<lparr>nw_instant = instant, nw_elapsed = 0,
          nw_routes = (\<lambda>a. if a \<in> set replica then Some [] else None),
          nw_config = \<lparr>tc_n = n, tc_f = f, tc_replica = replica,
                       tc_public_keys = map (sc_public_key X) secret_keys,
                       tc_secret_keys = secret_keys\<rparr>,
          nw_n_client = 0, nw_tx = []\<rparr>)"

definition network_elapse :: "duration \<Rightarrow> network \<Rightarrow> network" where
  "network_elapse d nw = nw\<lparr>nw_elapsed := nw_elapsed nw + d\<rparr>"

text \<open>The receiving end of the channel behind an address, as it is now.\<close>

definition network_rx :: "network \<Rightarrow> socket_addr \<Rightarrow> rx_channel" where
  "network_rx nw a = Rx_Simulated (case nw_routes nw a of None \<Rightarrow> [] | Some q \<Rightarrow> q) True"

definition network_replica :: "usize \<Rightarrow> app \<Rightarrow> network \<Rightarrow> replica_common res" where
  "network_replica i app nw =
     bind_res (index (tc_replica (nw_config nw)) i) (\<lambda>addr.
     Inr \<lparr>rc_common_id = i, rc_config = nw_config nw, rc_app = app, rc_tx = Tx_Simulated addr,
          rc_rx = network_rx nw addr, rc_clock = Clock_Simulated (nw_instant nw)\<rparr>)"

definition network_insert_client :: "network \<Rightarrow> client_common \<times> network" where
  "network_insert_client nw =
     (let n_client = nw_n_client nw + 1;
          rx_addr = SocketAddr (V4 10 0 0 101) (of_nat n_client);
          nw = nw\<lparr>nw_n_client := n_client, nw_routes := (nw_routes nw)(rx_addr \<mapsto> [])\<rparr>
      in (\<lparr>cc_id = of_nat n_client, cc_config = nw_config nw, cc_tx = Tx_Simulated rx_addr,
           cc_rx = network_rx nw rx_addr, cc_rx_addr = rx_addr,
           cc_clock = Clock_Simulated (nw_instant nw)\<rparr>, nw))"

text \<open>Indexing a hash map with a key that is not there panics.\<close>

definition network_poll ::
  "(socket_addr \<Rightarrow> socket_addr \<Rightarrow> bytes \<Rightarrow> bool) \<Rightarrow> network \<Rightarrow> (bool \<times> network) res" where
  "network_poll pass nw =
     (case nw_tx nw of
        [] \<Rightarrow> Inr (False, nw)
      | (source, dest, buffer) # rest \<Rightarrow>
          let nw = nw\<lparr>nw_tx := rest\<rparr> in
          if pass source dest buffer
          then bind_res (unwrap (nw_routes nw dest)) (\<lambda>q.
            Inr (True, nw\<lparr>nw_routes := (nw_routes nw)(dest \<mapsto> q @ [(source, buffer)])\<rparr>))
          else Inr (True, nw))"

section \<open>A client and a replica on the network\<close>

text \<open>
  The time a simulated clock reads, and the effects of a poll on the network: the channel of the
  actor has what the poll left of it, and what the actor sent is in the channel of the network.
\<close>

definition network_time :: "network \<Rightarrow> time_env" where
  "network_time nw = \<lparr>te_now = nw_instant nw + nw_elapsed nw, te_elapsed = nw_elapsed nw\<rparr>"

fun sent_triple :: "sent \<Rightarrow> (socket_addr \<times> socket_addr \<times> bytes) list" where
  "sent_triple (Sim_Sent source dest b) = [(source, dest, b)]"
| "sent_triple (Udp_Sent dest b) = []"

fun rx_queue :: "rx_channel \<Rightarrow> (socket_addr \<times> bytes) list" where
  "rx_queue (Rx_Simulated q alive) = q"
| "rx_queue (Rx_Udp rs) = []"

definition network_after :: "socket_addr \<Rightarrow> rx_channel \<Rightarrow> sent list \<Rightarrow> network \<Rightarrow> network" where
  "network_after a rx out nw =
     nw\<lparr>nw_routes := (nw_routes nw)(a \<mapsto> rx_queue rx), nw_tx := nw_tx nw @ concat (map sent_triple out)\<rparr>"

record world =
  wd_network :: network
  wd_replica :: ureplica
  wd_client :: uclient

definition poll_network :: "bool \<Rightarrow> world \<Rightarrow> (bool \<times> world) res" where
  "poll_network pass w =
     bind_res (network_poll (\<lambda>_ _ _. pass) (wd_network w)) (\<lambda>(again, nw).
     Inr (again, w\<lparr>wd_network := nw\<rparr>))"

definition poll_uclient :: "externals \<Rightarrow> world \<Rightarrow> (bool \<times> world) res" where
  "poll_uclient X w =
     (let nw = wd_network w; c = wd_client w; a = cc_rx_addr (uc_common c); t = network_time nw in
      bind_res (uclient_poll X t t (c\<lparr>uc_common := (uc_common c)\<lparr>cc_rx := network_rx nw a\<rparr>\<rparr>)) (\<lambda>(again, c, out).
      Inr (again, w\<lparr>wd_client := c, wd_network := network_after a (cc_rx (uc_common c)) out nw\<rparr>)))"

definition poll_ureplica :: "externals \<Rightarrow> world \<Rightarrow> (bool \<times> world) res" where
  "poll_ureplica X w =
     (let nw = wd_network w; r = wd_replica w in
      bind_res (index (tc_replica (nw_config nw)) 0) (\<lambda>a.
      bind_res (ureplica_poll X (r\<lparr>ur_listen := (ur_listen r)\<lparr>ul_rx := network_rx nw a\<rparr>\<rparr>)) (\<lambda>(again, r, out).
      Inr (again, w\<lparr>wd_replica := r, wd_network := network_after a (ul_rx (ur_listen r)) out nw\<rparr>))))"

text \<open>The beginning of each test: a network of one replica, the client with an operation.\<close>

definition world_new ::
  "externals \<Rightarrow> (bytes \<Rightarrow> secret_key option) \<Rightarrow> instant \<Rightarrow> bytes \<Rightarrow> world res" where
  "world_new X secret_key instant op =
     bind_res (network_new X secret_key instant 1 0) (\<lambda>nw.
     bind_res (network_replica 0 Null nw) (\<lambda>common.
     let r = ureplica_new common; (ccommon, nw) = network_insert_client nw; c = uclient_new ccommon in
     bind_res (uclient_invoke X (network_time nw) op c) (\<lambda>(c, out).
     bind_res (poll_all (poll_uclient X)
        \<lparr>wd_network = nw\<lparr>nw_tx := concat (map sent_triple out)\<rparr>, wd_replica = r, wd_client = c\<rparr>) Inr)))"

text \<open>
  One attempt: the network passes or drops what the client sent, the replica handles what arrived,
  the network passes or drops what the replica sent, the client handles what arrived.
\<close>

definition attempt :: "externals \<Rightarrow> bool \<times> bool \<Rightarrow> world \<Rightarrow> world res" where
  "attempt X pass w =
     bind_res (poll_all (poll_network (fst pass)) w) (\<lambda>w.
     bind_res (poll_all (poll_ureplica X) w) (\<lambda>w.
     bind_res (poll_all (poll_network (snd pass)) w) (\<lambda>w.
     poll_all (poll_uclient X) w)))"

text \<open>Between two attempts 15 milliseconds pass and the client polls.\<close>

definition retry :: "externals \<Rightarrow> world \<Rightarrow> world res" where
  "retry X w =
     poll_all (poll_uclient X) (w\<lparr>wd_network := network_elapse (from_millis 15) (wd_network w)\<rparr>)"

fun attempts :: "externals \<Rightarrow> (bool \<times> bool) list \<Rightarrow> world \<Rightarrow> world res" where
  "attempts X [] w = Inr w"
| "attempts X [pass] w = attempt X pass w"
| "attempts X (pass # passes) w =
     bind_res (attempt X pass w) (\<lambda>w. bind_res (retry X w) (attempts X passes))"

end
