(* ===== verification/Simulated_Properties.thy ===== *)
theory Simulated_Properties
  imports Simulated Unreplicated_Properties
begin

text \<open>
  Requests over the simulated network: whatever is lost, the operation is executed at most once,
  and the client has its result once a request and its reply get through.
\<close>

section \<open>The parties\<close>

definition net_client :: socket_addr where
  "net_client = SocketAddr (V4 10 0 0 101) 1"

abbreviation net_replica :: socket_addr where
  "net_replica \<equiv> network_addr 0"

definition net_request :: "bytes \<Rightarrow> request" where
  "net_request op =
     \<lparr>rq_client_id = 1, rq_request_number = 1, rq_op = op, rq_addr = net_client\<rparr>"

definition net_reply :: reply where
  "net_reply = reply_default\<lparr>rp_request_number := 1\<rparr>"

lemma net_addr_distinct [simp]: "net_client \<noteq> net_replica" "net_replica \<noteq> net_client"
  by (simp_all add: net_client_def network_addr_def)

text \<open>
  The datagrams in the channels of the replica, of the client and of the network, and the state of
  the replica before and after it has executed the operation.
\<close>

definition net_holds ::
  "network \<Rightarrow> (socket_addr \<times> bytes) list \<Rightarrow> (socket_addr \<times> bytes) list \<Rightarrow>
   (socket_addr \<times> socket_addr \<times> bytes) list \<Rightarrow> bool" where
  "net_holds nw qr qc tx \<longleftrightarrow> nw_routes nw net_replica = Some qr \<and> nw_routes nw net_client = Some qc \<and>
     nw_tx nw = tx \<and> tc_replica (nw_config nw) = [net_replica]"

definition net_replica_ok :: "bool \<Rightarrow> ureplica \<Rightarrow> bool" where
  "net_replica_ok executed r \<longleftrightarrow> ur_message_channel r = [] \<and> ur_effect_channel r = [] \<and>
     length (ul_buffer (ur_listen r)) = 1500 \<and> ul_to_main (ur_listen r) \<and> ur_effect r = \<lparr>ue_tx = Tx_Simulated net_replica\<rparr> \<and>
     um_app (ur_main r) = Null \<and> um_op_number (ur_main r) = (if executed then 1 else 0) \<and>
     um_client_table (ur_main r) 1 = (if executed then Some net_reply else None)"

definition net_client_ok :: "instant \<Rightarrow> uclient \<Rightarrow> bool" where
  "net_client_ok instant c \<longleftrightarrow> uclient_inv c \<and> cc_id (uc_common c) = 1 \<and>
     cc_rx_addr (uc_common c) = net_client \<and> cc_tx (uc_common c) = Tx_Simulated net_client \<and>
     cc_clock (uc_common c) = Clock_Simulated instant \<and>
     tc_replica (cc_config (uc_common c)) = [net_replica] \<and> uc_request_number c = 1"

definition net_waiting :: "instant \<Rightarrow> bytes \<Rightarrow> instant \<Rightarrow> uclient \<Rightarrow> bool" where
  "net_waiting instant op due c \<longleftrightarrow> net_client_ok instant c \<and> uc_op c = Some op \<and> uc_result c = None \<and>
     uc_resend_instant c = at_instant due"

definition net_finished :: "instant \<Rightarrow> uclient \<Rightarrow> bool" where
  "net_finished instant c \<longleftrightarrow> net_client_ok instant c \<and> uc_op c = None \<and> uc_result c = Some [] \<and>
     uc_resend_instant c = default_instant"

section \<open>Polls\<close>

text \<open>The network passes on or drops the one datagram it has.\<close>

lemma net_poll_none:
  "nw_tx (wd_network w) = [] \<Longrightarrow> poll_all (poll_network pass) w = Inr w"
  by (rule poll_all_simps(3)) (simp add: poll_network_def network_poll_def)

lemma net_poll_one:
  assumes "nw_tx (wd_network w) = [(s, d, b)]" and "nw_routes (wd_network w) d = Some q"
  shows "poll_all (poll_network pass) w = Inr (w\<lparr>wd_network := (wd_network w)\<lparr>nw_tx := [],
    nw_routes := (if pass then (nw_routes (wd_network w))(d \<mapsto> q @ [(s, b)]) else nw_routes (wd_network w))\<rparr>\<rparr>)"
    (is "_ = Inr ?w")
proof -
  have "poll_network pass w = Inr (True, ?w)"
    using assms by (simp add: poll_network_def network_poll_def Let_def del: bind_res_eq_Inr)
  moreover have "poll_all (poll_network pass) ?w = Inr ?w" by (rule net_poll_none) simp
  ultimately show ?thesis by (simp add: poll_all_simps(2) [where poll = "poll_network pass"])
qed

text \<open>The replica, with nothing to read and with the request.\<close>

lemma replica_idle_once:
  assumes "net_holds (wd_network w) [] qc tx" and "net_replica_ok ex (wd_replica w)"
  shows "\<exists>w'. poll_ureplica X w = Inr (False, w') \<and> net_holds (wd_network w') [] qc tx \<and>
    net_replica_ok ex (wd_replica w') \<and> wd_client w' = wd_client w \<and>
    nw_elapsed (wd_network w') = nw_elapsed (wd_network w)"
  using assms
  by (auto simp: poll_ureplica_def ureplica_poll_def ulisten_poll_def net_holds_def net_replica_ok_def
      network_rx_def network_after_def network_time_def Let_def index_ok)

lemma replica_poll_idle:
  assumes "net_holds (wd_network w) [] qc tx" and "net_replica_ok ex (wd_replica w)"
  shows "\<exists>w'. poll_all (poll_ureplica X) w = Inr w' \<and> net_holds (wd_network w') [] qc tx \<and>
    net_replica_ok ex (wd_replica w') \<and> wd_client w' = wd_client w \<and>
    nw_elapsed (wd_network w') = nw_elapsed (wd_network w)"
  using replica_idle_once [OF assms, of X] by (metis poll_all_simps(3))

lemma replica_poll_request:
  assumes "unreplicated_ext_ok X" and "bc_ser_request X (net_request op) = Some b" and "length b \<le> 1500"
    and "bc_ser_reply X net_reply = Some b'"
    and "net_holds (wd_network w) [(net_client, b)] qc []" and "net_replica_ok ex (wd_replica w)"
  shows "\<exists>w'. poll_all (poll_ureplica X) w = Inr w' \<and>
    net_holds (wd_network w') [] qc [(net_replica, net_client, b')] \<and>
    net_replica_ok True (wd_replica w') \<and> wd_client w' = wd_client w \<and>
    nw_elapsed (wd_network w') = nw_elapsed (wd_network w)"
proof -
  from assms(1,2) have d: "bc_de_request X b = Some (net_request op)"
    by (auto simp: unreplicated_ext_ok_def elim!: codec_okD [of _ _ "net_request op"])
  obtain s' where h: "umain_handle_request (net_request op) (ur_main (wd_replica w)) = (s', [(net_client, net_reply)])"
    and s': "um_app s' = Null" "um_op_number s' = 1" "um_client_table s' 1 = Some net_reply"
    using assms(6) umain_handle_request_simps(2) [of "ur_main (wd_replica w)" "net_request op" net_reply]
      umain_handle_request_simps(3) [of "ur_main (wd_replica w)" "net_request op"]
    by (cases ex) (auto simp: net_replica_ok_def net_request_def net_reply_def reply_default_def Let_def)
  have "\<exists>w1. poll_ureplica X w = Inr (True, w1) \<and>
    net_holds (wd_network w1) [] qc [(net_replica, net_client, b')] \<and>
    net_replica_ok True (wd_replica w1) \<and> wd_client w1 = wd_client w \<and>
    nw_elapsed (wd_network w1) = nw_elapsed (wd_network w)"
    using assms(3-6) d h s'
    by (auto simp: poll_ureplica_def ureplica_poll_def ulisten_poll_def net_holds_def net_replica_ok_def
        network_rx_def network_after_def network_time_def Let_def index_ok)
  then obtain w1 where w1: "poll_ureplica X w = Inr (True, w1)"
    "net_holds (wd_network w1) [] qc [(net_replica, net_client, b')]" "net_replica_ok True (wd_replica w1)"
    "wd_client w1 = wd_client w" "nw_elapsed (wd_network w1) = nw_elapsed (wd_network w)" by blast
  from replica_poll_idle [OF w1(2,3), of X] w1 show ?thesis
    by (simp add: poll_all_simps(2) [where poll = "poll_ureplica X", OF w1(1)])
qed

text \<open>The time of the client, and a client that has nothing to send.\<close>

definition net_quiet :: "instant \<Rightarrow> network \<Rightarrow> uclient \<Rightarrow> bool" where
  "net_quiet instant nw c \<longleftrightarrow> \<not> uc_resend_instant c \<le> at_instant (instant + nw_elapsed nw)"

lemma client_idle_once:
  assumes "net_holds (wd_network w) qr [] tx" and "net_client_ok instant (wd_client w)"
    and "net_quiet instant (wd_network w) (wd_client w)"
  shows "\<exists>w'. poll_uclient X w = Inr (False, w') \<and> net_holds (wd_network w') qr [] tx \<and>
    net_client_ok instant (wd_client w') \<and> uc_op (wd_client w') = uc_op (wd_client w) \<and>
    uc_result (wd_client w') = uc_result (wd_client w) \<and>
    uc_resend_instant (wd_client w') = uc_resend_instant (wd_client w) \<and>
    wd_replica w' = wd_replica w \<and> nw_elapsed (wd_network w') = nw_elapsed (wd_network w)"
  using assms
  by (auto simp: poll_uclient_def uclient_poll_def net_holds_def net_client_ok_def net_quiet_def
      network_rx_def network_after_def network_time_def uclient_inv_def Let_def)

lemma client_poll_idle:
  assumes "net_holds (wd_network w) qr [] tx" and "net_client_ok instant (wd_client w)"
    and "net_quiet instant (wd_network w) (wd_client w)"
  shows "\<exists>w'. poll_all (poll_uclient X) w = Inr w' \<and> net_holds (wd_network w') qr [] tx \<and>
    net_client_ok instant (wd_client w') \<and> uc_op (wd_client w') = uc_op (wd_client w) \<and>
    uc_result (wd_client w') = uc_result (wd_client w) \<and>
    uc_resend_instant (wd_client w') = uc_resend_instant (wd_client w) \<and>
    wd_replica w' = wd_replica w \<and> nw_elapsed (wd_network w') = nw_elapsed (wd_network w)"
  using client_idle_once [OF assms, of X] by (metis poll_all_simps(3))

lemma client_poll_due:
  assumes "unreplicated_ext_ok X" and "bc_ser_request X (net_request op) = Some b"
    and "net_holds (wd_network w) [] [] []" and "net_waiting instant op due (wd_client w)"
    and "due \<le> instant + nw_elapsed (wd_network w)"
  shows "\<exists>w'. poll_all (poll_uclient X) w = Inr w' \<and>
    net_holds (wd_network w') [] [] [(net_client, net_replica, b)] \<and>
    net_waiting instant op (instant + nw_elapsed (wd_network w) + from_millis 10) (wd_client w') \<and>
    wd_replica w' = wd_replica w \<and> nw_elapsed (wd_network w') = nw_elapsed (wd_network w)"
proof -
  have "\<exists>w'. poll_uclient X w = Inr (False, w') \<and>
    net_holds (wd_network w') [] [] [(net_client, net_replica, b)] \<and>
    net_waiting instant op (instant + nw_elapsed (wd_network w) + from_millis 10) (wd_client w') \<and>
    wd_replica w' = wd_replica w \<and> nw_elapsed (wd_network w') = nw_elapsed (wd_network w)"
    using assms
    by (auto simp: poll_uclient_def uclient_poll_def uclient_do_send_def net_holds_def net_waiting_def
        net_client_ok_def net_request_def network_rx_def network_after_def network_time_def
        uclient_inv_def Let_def sent_by_def index_ok)
  then show ?thesis by (metis poll_all_simps(3))
qed

lemma client_poll_reply:
  assumes "unreplicated_ext_ok X" and "bc_ser_reply X net_reply = Some b" and "length b \<le> 1500"
    and "net_holds (wd_network w) [] [(net_replica, b)] []" and "net_waiting instant op due (wd_client w)"
    and "instant + nw_elapsed (wd_network w) < due"
  shows "\<exists>w'. poll_all (poll_uclient X) w = Inr w' \<and> net_holds (wd_network w') [] [] [] \<and>
    net_finished instant (wd_client w') \<and> wd_replica w' = wd_replica w \<and>
    nw_elapsed (wd_network w') = nw_elapsed (wd_network w)"
proof -
  from assms(1,2) have "bc_de_reply X b = Some net_reply"
    by (auto simp: unreplicated_ext_ok_def elim!: codec_okD [of _ _ net_reply])
  with assms(3-6) have "\<exists>w1. poll_uclient X w = Inr (True, w1) \<and> net_holds (wd_network w1) [] [] [] \<and>
    net_finished instant (wd_client w1) \<and> wd_replica w1 = wd_replica w \<and>
    nw_elapsed (wd_network w1) = nw_elapsed (wd_network w)"
    by (auto simp: poll_uclient_def uclient_poll_def uclient_on_packet_def net_holds_def net_waiting_def
        net_client_ok_def net_finished_def net_reply_def reply_default_def network_rx_def
        network_after_def network_time_def uclient_inv_def Let_def)
  then obtain w1 where w1: "poll_uclient X w = Inr (True, w1)" "net_holds (wd_network w1) [] [] []"
    "net_finished instant (wd_client w1)" "wd_replica w1 = wd_replica w"
    "nw_elapsed (wd_network w1) = nw_elapsed (wd_network w)" by blast
  then have "net_client_ok instant (wd_client w1)" "net_quiet instant (wd_network w1) (wd_client w1)"
    by (simp_all add: net_finished_def net_quiet_def)
  from client_poll_idle [OF w1(2) this, of X] w1 show ?thesis
    by (auto simp: poll_all_simps(2) [where poll = "poll_uclient X", OF w1(1)] net_finished_def)
qed

section \<open>Attempts\<close>

text \<open>
  Between two attempts: the client waits and has nothing or its request in the network, or it has
  its result.
\<close>

definition net_pending ::
  "instant \<Rightarrow> bytes \<Rightarrow> (socket_addr \<times> socket_addr \<times> bytes) list \<Rightarrow> bool \<Rightarrow> world \<Rightarrow> bool" where
  "net_pending instant op tx ex w \<longleftrightarrow> net_holds (wd_network w) [] [] tx \<and>
     net_replica_ok ex (wd_replica w) \<and>
     (\<exists>due. net_waiting instant op due (wd_client w) \<and> instant + nw_elapsed (wd_network w) < due \<and>
        due \<le> instant + nw_elapsed (wd_network w) + from_millis 15)"

definition net_done :: "instant \<Rightarrow> world \<Rightarrow> bool" where
  "net_done instant w \<longleftrightarrow> net_holds (wd_network w) [] [] [] \<and> net_replica_ok True (wd_replica w) \<and>
     net_finished instant (wd_client w)"

text \<open>What the operation and its result are sent as.\<close>

definition net_codes :: "externals \<Rightarrow> bytes \<Rightarrow> bytes \<Rightarrow> bytes \<Rightarrow> bool" where
  "net_codes X op b b' \<longleftrightarrow> unreplicated_ext_ok X \<and> bc_ser_request X (net_request op) = Some b \<and>
     length b \<le> 1500 \<and> bc_ser_reply X net_reply = Some b' \<and> length b' \<le> 1500"

abbreviation net_sent :: "bytes \<Rightarrow> (socket_addr \<times> socket_addr \<times> bytes) list" where
  "net_sent b \<equiv> [(net_client, net_replica, b)]"

lemma client_idle_pending:
  assumes "net_pending instant op tx ex w"
  shows "\<exists>w'. poll_all (poll_uclient X) w = Inr w' \<and> net_pending instant op tx ex w'"
proof -
  from assms obtain due where w: "net_holds (wd_network w) [] [] tx" "net_replica_ok ex (wd_replica w)"
    "net_waiting instant op due (wd_client w)" "instant + nw_elapsed (wd_network w) < due"
    "due \<le> instant + nw_elapsed (wd_network w) + from_millis 15" by (auto simp: net_pending_def)
  then have "net_client_ok instant (wd_client w)" "net_quiet instant (wd_network w) (wd_client w)"
    by (simp_all add: net_waiting_def net_quiet_def)
  from client_poll_idle [OF w(1) this, of X] w show ?thesis
    by (fastforce simp: net_pending_def net_waiting_def)
qed

lemma client_idle_done:
  assumes "net_done instant w"
  shows "\<exists>w'. poll_all (poll_uclient X) w = Inr w' \<and> net_done instant w'"
proof -
  from assms have w: "net_holds (wd_network w) [] [] []" "net_client_ok instant (wd_client w)"
    "net_quiet instant (wd_network w) (wd_client w)"
    by (simp_all add: net_done_def net_finished_def net_quiet_def)
  from client_poll_idle [OF w, of X] assms show ?thesis
    by (fastforce simp: net_done_def net_finished_def)
qed

lemma attempt_done:
  assumes "net_done instant w"
  shows "\<exists>w'. attempt X pass w = Inr w' \<and> net_done instant w'"
proof -
  from assms have h: "net_holds (wd_network w) [] [] []" "net_replica_ok True (wd_replica w)"
    by (simp_all add: net_done_def)
  from replica_poll_idle [OF h, of X] obtain w1 where
    w1: "poll_all (poll_ureplica X) w = Inr w1" "net_done instant w1"
    using assms by (auto simp: net_done_def)
  from client_idle_done [OF w1(2), of X] obtain w2 where
    "poll_all (poll_uclient X) w1 = Inr w2" "net_done instant w2" by blast
  moreover have "nw_tx (wd_network w) = []" "nw_tx (wd_network w1) = []"
    using h(1) w1(2) by (simp_all add: net_done_def net_holds_def)
  ultimately show ?thesis using w1(1) by (simp add: attempt_def net_poll_none)
qed

text \<open>An attempt whose request is lost.\<close>

lemma attempt_request_lost:
  assumes "net_pending instant op (net_sent b) ex w"
  shows "\<exists>w'. attempt X (False, p) w = Inr w' \<and> net_pending instant op [] ex w'"
proof -
  let ?w1 = "w\<lparr>wd_network := (wd_network w)\<lparr>nw_tx := []\<rparr>\<rparr>"
  have n: "poll_all (poll_network False) w = Inr ?w1"
    using net_poll_one [of w net_client net_replica b "[]" False] assms
    by (auto simp: net_pending_def net_holds_def)
  have "net_pending instant op [] ex ?w1"
    using assms by (simp add: net_pending_def net_holds_def)
  then have "net_holds (wd_network ?w1) [] [] []" "net_replica_ok ex (wd_replica ?w1)"
    by (simp_all add: net_pending_def)
  from replica_poll_idle [OF this, of X] obtain w2 where
    r: "poll_all (poll_ureplica X) ?w1 = Inr w2" and "net_holds (wd_network w2) [] [] []"
      "net_replica_ok ex (wd_replica w2)" "wd_client w2 = wd_client ?w1"
      "nw_elapsed (wd_network w2) = nw_elapsed (wd_network ?w1)" by blast
  with \<open>net_pending instant op [] ex ?w1\<close> have w2: "net_pending instant op [] ex w2"
    by (simp add: net_pending_def)
  from client_idle_pending [OF w2, of X] obtain w3 where
    w3: "poll_all (poll_uclient X) w2 = Inr w3" "net_pending instant op [] ex w3" by blast
  moreover have "nw_tx (wd_network w2) = []" using w2 by (simp add: net_pending_def net_holds_def)
  ultimately show ?thesis using n r by (simp add: attempt_def net_poll_none)
qed

text \<open>An attempt whose request arrives, and whose reply arrives or is lost.\<close>

lemma attempt_request_arrives:
  assumes "net_pending instant op (net_sent b) ex w" and "net_codes X op b b'"
  shows "\<exists>w1 w2 w3 due. poll_all (poll_network True) w = Inr w1 \<and> poll_all (poll_ureplica X) w1 = Inr w2 \<and>
    poll_all (poll_network p) w2 = Inr w3 \<and>
    (if p then net_holds (wd_network w3) [] [(net_replica, b')] [] \<and> net_replica_ok True (wd_replica w3) \<and>
       net_waiting instant op due (wd_client w3) \<and> instant + nw_elapsed (wd_network w3) < due
     else net_pending instant op [] True w3)"
proof -
  let ?nw = "wd_network w"
  let ?w1 = "w\<lparr>wd_network := ?nw\<lparr>nw_tx := [], nw_routes := (nw_routes ?nw)(net_replica \<mapsto> [(net_client, b)])\<rparr>\<rparr>"
  from assms(1) obtain due where w: "net_holds ?nw [] [] (net_sent b)" "net_replica_ok ex (wd_replica w)"
    "net_waiting instant op due (wd_client w)" "instant + nw_elapsed ?nw < due"
    "due \<le> instant + nw_elapsed ?nw + from_millis 15" by (auto simp: net_pending_def)
  note codes = assms(2) [unfolded net_codes_def]
  have n1: "poll_all (poll_network True) w = Inr ?w1"
    using net_poll_one [of w net_client net_replica b "[]" True] w(1) by (simp add: net_holds_def)
  have "net_holds (wd_network ?w1) [(net_client, b)] [] []" using w(1) by (simp add: net_holds_def)
  from replica_poll_request [OF _ _ _ _ this, of X op b' ex] codes w(2) obtain w2 where
    w2: "poll_all (poll_ureplica X) ?w1 = Inr w2"
      "net_holds (wd_network w2) [] [] [(net_replica, net_client, b')]"
      "net_replica_ok True (wd_replica w2)" "wd_client w2 = wd_client w"
      "nw_elapsed (wd_network w2) = nw_elapsed ?nw" by auto
  let ?nw2 = "wd_network w2"
  let ?w3 = "w2\<lparr>wd_network := ?nw2\<lparr>nw_tx := [], nw_routes :=
    (if p then (nw_routes ?nw2)(net_client \<mapsto> [(net_replica, b')]) else nw_routes ?nw2)\<rparr>\<rparr>"
  have n2: "poll_all (poll_network p) w2 = Inr ?w3"
    using net_poll_one [of w2 net_replica net_client b' "[]" p] w2(2) by (simp add: net_holds_def)
  show ?thesis
    by (rule exI [of _ ?w1], rule exI [of _ w2], rule exI [of _ ?w3], rule exI [of _ due])
       (use n1 n2 w w2 in \<open>auto simp: net_holds_def net_pending_def\<close>)
qed

lemma attempt_request_passed:
  assumes "net_pending instant op (net_sent b) ex w" and "net_codes X op b b'"
  shows "\<exists>w'. attempt X (True, p) w = Inr w' \<and>
    (if p then net_done instant w' else net_pending instant op [] True w')"
proof -
  from attempt_request_arrives [OF assms, of p] obtain w1 w2 w3 due where
    n: "poll_all (poll_network True) w = Inr w1" "poll_all (poll_ureplica X) w1 = Inr w2"
      "poll_all (poll_network p) w2 = Inr w3"
    and w3: "if p then net_holds (wd_network w3) [] [(net_replica, b')] [] \<and> net_replica_ok True (wd_replica w3) \<and>
       net_waiting instant op due (wd_client w3) \<and> instant + nw_elapsed (wd_network w3) < due
     else net_pending instant op [] True w3" by blast
  have "\<exists>w'. poll_all (poll_uclient X) w3 = Inr w' \<and>
    (if p then net_done instant w' else net_pending instant op [] True w')"
  proof (cases p)
    case True
    with w3 client_poll_reply [of X b' w3 instant op due] assms(2) show ?thesis
      by (auto simp: net_done_def net_codes_def)
  next
    case False
    with w3 client_idle_pending [of instant op "[]" True w3 X] show ?thesis by simp
  qed
  with n show ?thesis by (simp add: attempt_def)
qed

lemma retry_pending:
  assumes "net_pending instant op [] ex w" and "net_codes X op b b'"
  shows "\<exists>w'. retry X w = Inr w' \<and> net_pending instant op (net_sent b) ex w'"
proof -
  let ?w = "w\<lparr>wd_network := network_elapse (from_millis 15) (wd_network w)\<rparr>"
  from assms(1) obtain due where w: "net_holds (wd_network w) [] [] []" "net_replica_ok ex (wd_replica w)"
    "net_waiting instant op due (wd_client w)"
    "due \<le> instant + nw_elapsed (wd_network w) + from_millis 15" by (auto simp: net_pending_def)
  then have "net_holds (wd_network ?w) [] [] []" "net_waiting instant op due (wd_client ?w)"
    "due \<le> instant + nw_elapsed (wd_network ?w)"
    by (simp_all add: network_elapse_def net_holds_def)
  from client_poll_due [OF _ _ this, of X b] assms(2) obtain w' where
    r: "poll_all (poll_uclient X) ?w = Inr w'" and "net_holds (wd_network w') [] [] (net_sent b)"
      "net_waiting instant op (instant + nw_elapsed (wd_network ?w) + from_millis 10) (wd_client w')"
      "wd_replica w' = wd_replica ?w" "nw_elapsed (wd_network w') = nw_elapsed (wd_network ?w)"
    by (auto simp: net_codes_def)
  with w(2) have "net_pending instant op (net_sent b) ex w'"
    unfolding net_pending_def
    by (intro conjI exI [of _ "instant + nw_elapsed (wd_network ?w) + from_millis 10"])
       (simp_all add: from_millis_def)
  with r show ?thesis by (simp add: retry_def)
qed

lemma retry_done:
  assumes "net_done instant w"
  shows "\<exists>w'. retry X w = Inr w' \<and> net_done instant w'"
proof -
  have "net_done instant (w\<lparr>wd_network := network_elapse (from_millis 15) (wd_network w)\<rparr>)"
    using assms by (simp add: net_done_def network_elapse_def net_holds_def)
  from client_idle_done [OF this, of X] show ?thesis by (simp add: retry_def)
qed

text \<open>All attempts, from a state in which the request is in the network.\<close>

lemma attempts_done:
  assumes "net_done instant w"
  shows "\<exists>w'. attempts X passes w = Inr w' \<and> net_done instant w'"
  using assms
proof (induction passes arbitrary: w rule: induct_list012)
  case (2 pass)
  then show ?case using attempt_done by simp
next
  case (3 pass pass' passes)
  from attempt_done [OF 3(3), of X pass] obtain w1 where "attempt X pass w = Inr w1" "net_done instant w1" by blast
  moreover from retry_done [OF this(2), of X] obtain w2 where "retry X w1 = Inr w2" "net_done instant w2" by blast
  ultimately show ?case using 3(2) by simp
qed simp

lemma attempt_pending:
  assumes "net_pending instant op (net_sent b) ex w" and "net_codes X op b b'"
  shows "\<exists>w'. attempt X pass w = Inr w' \<and>
    (if pass = (True, True) then net_done instant w' else net_pending instant op [] (ex \<or> fst pass) w')"
proof (cases "fst pass")
  case True
  with attempt_request_passed [OF assms, of "snd pass"] show ?thesis
    by (cases pass) (auto split: if_splits)
next
  case False
  with attempt_request_lost [OF assms(1), of X "snd pass"] show ?thesis by (cases pass) auto
qed

lemma attempts_pending:
  assumes "net_pending instant op (net_sent b) ex w" and "net_codes X op b b'"
  shows "\<exists>w' tx. attempts X passes w = Inr w' \<and>
    (if (True, True) \<in> set passes then net_done instant w'
     else net_pending instant op tx (ex \<or> True \<in> fst ` set passes) w')"
  using assms(1)
proof (induction passes arbitrary: ex w rule: induct_list012)
  case 1
  then show ?case by auto
next
  case (2 pass)
  from attempt_pending [OF 2 assms(2), of pass] obtain w' where "attempt X pass w = Inr w'"
    "if pass = (True, True) then net_done instant w' else net_pending instant op [] (ex \<or> fst pass) w'"
    by blast
  then show ?case by (intro exI [of _ w'] exI [of _ "[]"]) (cases pass, auto split: if_splits)
next
  case (3 pass pass' passes)
  from attempt_pending [OF 3(3) assms(2), of pass] obtain w1 where w1: "attempt X pass w = Inr w1"
    "if pass = (True, True) then net_done instant w1 else net_pending instant op [] (ex \<or> fst pass) w1"
    by blast
  show ?case
  proof (cases "pass = (True, True)")
    case True
    with w1 have d: "net_done instant w1" by simp
    obtain w2 where w2: "retry X w1 = Inr w2" "net_done instant w2" using retry_done [OF d] by blast
    from attempts_done [OF w2(2), of X "pass' # passes"] w1(1) w2(1) True show ?thesis by auto
  next
    case False
    with w1 have p: "net_pending instant op [] (ex \<or> fst pass) w1" by simp
    from retry_pending [OF p assms(2)] obtain w2 where
      w2: "retry X w1 = Inr w2" "net_pending instant op (net_sent b) (ex \<or> fst pass) w2" by blast
    have "(ex \<or> True \<in> fst ` set (pass # pass' # passes)) =
        ((ex \<or> fst pass) \<or> True \<in> fst ` set (pass' # passes))" by auto
    with 3(2) [OF w2(2)] w1(1) w2(1) False show ?thesis by (auto split: if_splits)
  qed
qed

lemma world_new_pending:
  assumes "secret_key (replicate 31 0x7f @ [0]) \<noteq> None" and "net_codes X op b b'"
  shows "\<exists>w. world_new X secret_key instant op = Inr w \<and> net_pending instant op (net_sent b) False w"
proof -
  from assms(1) obtain nw where nw: "network_new X secret_key instant 1 0 = Inr nw"
    by (auto simp: network_new_def Let_def)
  have n: "nw_instant nw = instant" "nw_elapsed nw = 0" "nw_n_client nw = 0" "nw_tx nw = []"
    "tc_replica (nw_config nw) = [net_replica]" "nw_routes nw net_replica = Some []"
    using nw by (auto simp: network_new_def Let_def)
  from n obtain common where r: "network_replica 0 Null nw = Inr common"
    by (auto simp: network_replica_def index_ok)
  then have rep: "net_replica_ok False (ureplica_new common)"
    using n by (auto simp: network_replica_def net_replica_ok_def ureplica_new_def)
  define c0 where "c0 = uclient_new (fst (network_insert_client nw))"
  have ins: "cc_id (uc_common c0) = 1" "cc_rx_addr (uc_common c0) = net_client"
    "cc_tx (uc_common c0) = Tx_Simulated net_client" "cc_clock (uc_common c0) = Clock_Simulated instant"
    "tc_replica (cc_config (uc_common c0)) = [net_replica]" "uc_request_number c0 = 0"
    "uc_op c0 = None" "uc_result c0 = None" "length (uc_buffer c0) = 1500"
    using n by (simp_all add: c0_def network_insert_client_def net_client_def uclient_new_def Let_def)
  have net: "nw_routes (snd (network_insert_client nw)) net_replica = Some []"
    "nw_routes (snd (network_insert_client nw)) net_client = Some []"
    "tc_replica (nw_config (snd (network_insert_client nw))) = [net_replica]"
    "nw_elapsed (snd (network_insert_client nw)) = 0"
    using n net_addr_distinct by (simp_all add: network_insert_client_def net_client_def Let_def)
  let ?c1 = "c0\<lparr>uc_request_number := 1, uc_op := Some op, uc_result := None\<rparr>"
  let ?c = "?c1\<lparr>uc_resend_instant := at_instant (instant + from_millis 10)\<rparr>"
  have "uclient_request ?c1 op = net_request op"
    using ins by (simp add: uclient_request_def net_request_def)
  with assms(2) have ser: "bc_ser_request X (uclient_request ?c1 op) = Some b"
    by (simp only: net_codes_def)
  have "uclient_do_send X (network_time (snd (network_insert_client nw))) ?c1 =
      Inr (?c, [Sim_Sent net_client net_replica b])"
    by (subst uclient_do_send_ok [OF _ ser])
       (use ins in \<open>simp_all add: sent_by_def network_time_def net tx_ok_def\<close>)
  then have c: "uclient_invoke X (network_time (snd (network_insert_client nw))) op c0 =
      Inr (?c, [Sim_Sent net_client net_replica b])"
    using ins by (simp add: uclient_invoke_def)
  have cc: "net_waiting instant op (instant + from_millis 10) ?c"
    using ins by (simp add: net_waiting_def net_client_ok_def uclient_inv_def)
  let ?w0 = "\<lparr>wd_network = (snd (network_insert_client nw))\<lparr>nw_tx := net_sent b\<rparr>,
      wd_replica = ureplica_new common, wd_client = ?c\<rparr>"
  have "net_pending instant op (net_sent b) False ?w0"
    using rep net cc by (auto simp: net_pending_def net_holds_def from_millis_def)
  from client_idle_pending [OF this, of X] nw r c show ?thesis
    by (auto simp: world_new_def Let_def case_prod_beta c0_def)
qed

text \<open>
  C12. At most once and eventually, over the simulated network: with one client, one replica and any
  attempts in which the network passes or drops the request and the reply, the client has the result
  exactly when both have got through in one attempt, and the replica has executed the operation once
  if some request got through and not at all otherwise.  The three tests of the unreplicated service
  are the attempts \<open>[(True, True)]\<close>, \<open>[(False, _), (True, True)]\<close> and \<open>[(True, False), (True, True)]\<close>.
\<close>
theorem simulated_at_most_once:
  assumes "secret_key (replicate 31 0x7f @ [0]) \<noteq> None" and "net_codes X op b b'"
  shows "\<exists>w w'. world_new X secret_key instant op = Inr w \<and> attempts X passes w = Inr w' \<and>
    fst (uclient_take_result (wd_client w')) = (if (True, True) \<in> set passes then Some [] else None) \<and>
    um_op_number (ur_main (wd_replica w')) = (if True \<in> fst ` set passes then 1 else 0)"
proof -
  from world_new_pending [where secret_key = secret_key, OF assms] obtain w where w: "world_new X secret_key instant op = Inr w"
    "net_pending instant op (net_sent b) False w" by blast
  from attempts_pending [OF w(2) assms(2), of passes] obtain w' tx where
    w': "attempts X passes w = Inr w'"
    "if (True, True) \<in> set passes then net_done instant w'
     else net_pending instant op tx (False \<or> True \<in> fst ` set passes) w'" by blast
  have "True \<in> fst ` set passes" if "(True, True) \<in> set passes" using that by force
  with w w' show ?thesis
    by (auto simp: net_done_def net_pending_def net_finished_def net_waiting_def net_replica_ok_def
        uclient_take_result_def split: if_splits)
qed

text \<open>The test \<open>resend_reply\<close>: the reply is lost once.\<close>

theorem simulated_at_most_once_witness:
  "\<exists>w w'. world_new (sample_ext [net_request []] [net_reply] []) Some 0 [] = Inr w \<and>
     attempts (sample_ext [net_request []] [net_reply] []) [(True, False), (True, True)] w = Inr w' \<and>
     fst (uclient_take_result (wd_client w')) = Some [] \<and> um_op_number (ur_main (wd_replica w')) = 1"
proof -
  have "net_codes (sample_ext [net_request []] [net_reply] []) [] [0] [0]"
    using sample_unreplicated_ext_ok [of "[net_request []]" "[net_reply]" "[]"]
    by (simp add: net_codes_def) (simp add: sample_ext_def tagged_def)
  from simulated_at_most_once [OF _ this, of Some 0 "[(True, False), (True, True)]"] show ?thesis
    by simp
qed

end
