(* ===== verification/Unreplicated_Tests.thy ===== *)
theory Unreplicated_Tests
  imports Simulated_Properties
begin

text \<open>
  The three tests of \<open>src/unreplicated.rs\<close>, line by line, and the proof that they pass, whatever the
  encoding is.
\<close>

section \<open>The tests\<close>

definition assert_that :: "bool \<Rightarrow> 'a \<Rightarrow> 'a res" where
  "assert_that b a = (if b then Inr a else Inl Assert_Failed)"

lemma assert_that_simps [simp]: "assert_that True a = Inr a" "assert_that False a = Inl Assert_Failed"
  by (simp_all add: assert_that_def)

text \<open>The last assertions: the client has a result, and the replica has executed one operation.\<close>

definition assert_result :: "world \<Rightarrow> world res" where
  "assert_result w = assert_that (fst (uclient_take_result (wd_client w)) \<noteq> None) w"

definition assert_op_number :: "world \<Rightarrow> world res" where
  "assert_op_number w = assert_that (um_op_number (ur_main (wd_replica w)) = 1) w"

definition one_op :: "externals \<Rightarrow> (bytes \<Rightarrow> secret_key option) \<Rightarrow> instant \<Rightarrow> world res" where
  "one_op X secret_key instant =
     bind_res (world_new X secret_key instant []) (\<lambda>w.
     bind_res (attempt X (True, True) w) (\<lambda>w.
     bind_res (assert_result w) assert_op_number))"

definition resend_request :: "externals \<Rightarrow> (bytes \<Rightarrow> secret_key option) \<Rightarrow> instant \<Rightarrow> world res" where
  "resend_request X secret_key instant =
     bind_res (world_new X secret_key instant []) (\<lambda>w.
     bind_res (poll_all (poll_network False) w) (\<lambda>w.
     bind_res (poll_ureplica X w) (\<lambda>(again, w).
     bind_res (assert_that (\<not> again) w) (\<lambda>w.
     bind_res (retry X w) (\<lambda>w.
     bind_res (attempt X (True, True) w) assert_result)))))"

definition resend_reply :: "externals \<Rightarrow> (bytes \<Rightarrow> secret_key option) \<Rightarrow> instant \<Rightarrow> world res" where
  "resend_reply X secret_key instant =
     bind_res (world_new X secret_key instant []) (\<lambda>w.
     bind_res (poll_all (poll_network True) w) (\<lambda>w.
     bind_res (poll_all (poll_ureplica X) w) (\<lambda>w.
     bind_res (poll_all (poll_network False) w) (\<lambda>w.
     bind_res (poll_uclient X w) (\<lambda>(again, w).
     bind_res (assert_that (\<not> again) w) (\<lambda>w.
     bind_res (retry X w) (\<lambda>w.
     bind_res (attempt X (True, True) w) (\<lambda>w.
     bind_res (assert_result w) assert_op_number))))))))"

section \<open>They pass\<close>

lemma assert_done: "net_done instant w \<Longrightarrow> assert_result w = Inr w \<and> assert_op_number w = Inr w"
  by (simp add: assert_result_def assert_op_number_def net_done_def net_finished_def net_replica_ok_def
      uclient_take_result_def)

text \<open>The end of both tests that send again.\<close>

lemma retry_attempt:
  assumes "net_pending instant [] [] ex w" and "net_codes X [] b b'"
  shows "\<exists>w1 w2. retry X w = Inr w1 \<and> attempt X (True, True) w1 = Inr w2 \<and> net_done instant w2"
proof -
  from retry_pending [OF assms] obtain w1 where
    "retry X w = Inr w1" "net_pending instant [] (net_sent b) ex w1" by blast
  with attempt_pending [OF _ assms(2), of instant ex w1 "(True, True)"] show ?thesis by auto
qed

lemma one_op_passes:
  assumes "secret_key (replicate 31 0x7f @ [0]) \<noteq> None" and "net_codes X [] b b'"
  shows "\<exists>w. one_op X secret_key instant = Inr w"
proof -
  from world_new_pending [where secret_key = secret_key, OF assms] obtain w where
    w: "world_new X secret_key instant [] = Inr w" "net_pending instant [] (net_sent b) False w" by blast
  from attempt_pending [OF w(2) assms(2), of "(True, True)"] obtain w' where
    "attempt X (True, True) w = Inr w'" "net_done instant w'" by auto
  with w(1) assert_done [of instant w'] show ?thesis by (simp add: one_op_def)
qed

lemma resend_request_passes:
  assumes "secret_key (replicate 31 0x7f @ [0]) \<noteq> None" and "net_codes X [] b b'"
  shows "\<exists>w. resend_request X secret_key instant = Inr w"
proof -
  from world_new_pending [where secret_key = secret_key, OF assms] obtain w where
    w: "world_new X secret_key instant [] = Inr w" "net_pending instant [] (net_sent b) False w" by blast
  let ?w1 = "w\<lparr>wd_network := (wd_network w)\<lparr>nw_tx := []\<rparr>\<rparr>"
  have n: "poll_all (poll_network False) w = Inr ?w1"
    using net_poll_one [of w net_client net_replica b "[]" False] w(2)
    by (auto simp: net_pending_def net_holds_def)
  have p1: "net_pending instant [] [] False ?w1" using w(2) by (simp add: net_pending_def net_holds_def)
  then have "net_holds (wd_network ?w1) [] [] []" "net_replica_ok False (wd_replica ?w1)"
    by (simp_all add: net_pending_def)
  from replica_idle_once [OF this, of X] obtain w2 where r: "poll_ureplica X ?w1 = Inr (False, w2)"
    and "net_holds (wd_network w2) [] [] []" "net_replica_ok False (wd_replica w2)"
      "wd_client w2 = wd_client ?w1" "nw_elapsed (wd_network w2) = nw_elapsed (wd_network ?w1)" by blast
  with p1 have "net_pending instant [] [] False w2" by (simp add: net_pending_def)
  from retry_attempt [OF this assms(2)] obtain w3 w4 where
    "retry X w2 = Inr w3" "attempt X (True, True) w3 = Inr w4" "net_done instant w4" by blast
  with w(1) n r assert_done [of instant w4] show ?thesis by (simp add: resend_request_def)
qed

lemma resend_reply_passes:
  assumes "secret_key (replicate 31 0x7f @ [0]) \<noteq> None" and "net_codes X [] b b'"
  shows "\<exists>w. resend_reply X secret_key instant = Inr w"
proof -
  from world_new_pending [where secret_key = secret_key, OF assms] obtain w where
    w: "world_new X secret_key instant [] = Inr w" "net_pending instant [] (net_sent b) False w" by blast
  from attempt_request_arrives [OF w(2) assms(2), of False] obtain w1 w2 w3 where
    n: "poll_all (poll_network True) w = Inr w1" "poll_all (poll_ureplica X) w1 = Inr w2"
      "poll_all (poll_network False) w2 = Inr w3"
    and p3: "net_pending instant [] [] True w3" by auto
  then have "net_holds (wd_network w3) [] [] []" "net_client_ok instant (wd_client w3)"
      "net_quiet instant (wd_network w3) (wd_client w3)"
    by (auto simp: net_pending_def net_waiting_def net_quiet_def)
  from client_idle_once [OF this, of X] obtain w4 where c: "poll_uclient X w3 = Inr (False, w4)"
    and "net_pending instant [] [] True w4" using p3 by (auto simp: net_pending_def net_waiting_def)
  from retry_attempt [OF this(2) assms(2)] obtain w5 w6 where
    "retry X w4 = Inr w5" "attempt X (True, True) w5 = Inr w6" "net_done instant w6" by blast
  with w(1) n c assert_done [of instant w6] show ?thesis by (simp add: resend_reply_def)
qed

end
