(* ===== verification/Deployment_Properties.thy ===== *)
theory Deployment_Properties
  imports Deployment Pbft_Replica_Correct Samples
begin

text \<open>
  The commands of the deployment script make every host start what it is meant to run, with a
  configuration that satisfies what the theorems about replicas assume.
\<close>

section \<open>The commands\<close>

definition replica_command_of :: "(secret_key \<times> public_key) list \<Rightarrow> usize \<Rightarrow> command" where
  "replica_command_of keys i =
     \<lparr>cd_config = localhost_config keys, cd_app = AppMode_Null, cd_protocol = Protocol_Pbft,
      cd_replica = Some \<lparr>rc_id = i, rc_n_thread = 4\<rparr>, cd_client = None\<rparr>"

definition client_command_of :: "(secret_key \<times> public_key) list \<Rightarrow> command" where
  "client_command_of keys =
     \<lparr>cd_config = localhost_config keys, cd_app = AppMode_Null, cd_protocol = Protocol_Pbft,
      cd_replica = None,
      cd_client = Some \<lparr>lc_n_client = 1, lc_n_thread = 1, lc_ip = V4 127 0 0 101, lc_n_report = 10\<rparr>\<rparr>"

lemma lift_off_result:
  assumes "codec_ok ser de"
  shows "\<exists>enc. lift_off ser keys = Inr (zip replica_hosts (map (\<lambda>i. enc (replica_command_of keys i)) [0, 1, 2, 3]) @
      [(V4 127 0 0 101, enc (client_command_of keys))]) \<and> (\<forall>cmd. de (enc cmd) = Some cmd)"
proof -
  have "\<exists>b. ser cmd = Some b \<and> de b = Some cmd" for cmd using assms by (auto elim!: codec_okD [of _ _ cmd])
  then obtain enc where enc: "\<And>cmd. ser cmd = Some (enc cmd)" "\<And>cmd. de (enc cmd) = Some cmd" by metis
  then show ?thesis
    by (intro exI [of _ enc])
       (simp add: lift_off_def Let_def replica_hosts_def client_hosts_def replica_command_of_def
          client_command_of_def numeral_2_eq_2 numeral_3_eq_3)
qed

text \<open>The program with the argument \<open>liftoff\<close>, whose key pairs belong together.\<close>

lemma generate_keys_ok:
  assumes "\<And>i. snd (generate_keypair i) = sc_public_key X (fst (generate_keypair i))"
  shows "length (generate_keys generate_keypair) = 4"
    and "k \<in> set (generate_keys generate_keypair) \<Longrightarrow> snd k = sc_public_key X (fst k)"
  using assms by (auto simp: generate_keys_def)

lemma localhost_main_lifts_off:
  assumes "codec_ok ser de"
  shows "\<exists>sends. localhost_main ser generate_keypair (Some ''liftoff'') = Inr (Lifted_Off sends) \<and>
    map fst sends = replica_hosts @ client_hosts"
  using lift_off_result [OF assms, of "generate_keys generate_keypair"]
  by (auto simp: localhost_main_def replica_hosts_def client_hosts_def)

section \<open>What they start\<close>

definition localhost_common ::
  "(socket_addr \<Rightarrow> udp_recv stream option) \<Rightarrow> (secret_key \<times> public_key) list \<Rightarrow> usize \<Rightarrow> replica_common" where
  "localhost_common os_bind keys i =
     \<lparr>rc_common_id = i, rc_config = localhost_config keys, rc_app = Null, rc_tx = Tx_Udp,
      rc_rx = Rx_Udp (the (os_bind (tc_replica (localhost_config keys) ! i))), rc_clock = Clock_Real\<rparr>"

text \<open>
  The threads of a running replica: its main and its listening thread on a thread each, its crypto
  thread on all \<open>n\<close> others.
\<close>

definition replica_threads :: "preplica \<Rightarrow> usize \<Rightarrow> (part, shared_part) worker list" where
  "replica_threads r n =
     [Dedicated (P_Main (pr_main r)), Dedicated (P_Listen (pr_listen r))] @
     replicate n (Pool [P_Crypto (pr_crypto r)])"

lemma localhost_deploy_ok:
  assumes "length keys = 4" and "i < 4" and "\<And>k. k \<in> set keys \<Longrightarrow> snd k = sc_public_key X (fst k)"
  shows "deploy_ok X (localhost_common os_bind keys i)"
  using assms by (auto simp: deploy_ok_def localhost_common_def localhost_config_def)

lemma replica_command_runs:
  assumes "length keys = 4" and "i < 4" and "\<And>a. os_bind a \<noteq> None"
  shows "\<exists>r p p'. preplica_new (localhost_common os_bind keys i) = Inr r \<and>
    main_replica os_bind (replica_command_of keys i) \<lparr>rc_id = i, rc_n_thread = 4\<rparr> = Inr (Run_Replica p) \<and>
    rprogram_start p = Inr p' \<and> rg_threads p' = replica_threads r 2"
proof -
  let ?common = "localhost_common os_bind keys i"
  have "i < length (tc_secret_keys (rc_config ?common))" and j: "i < length (tc_replica (localhost_config keys))"
    using assms(1,2) by (simp_all add: localhost_common_def localhost_config_def)
  then obtain r where r: "preplica_new ?common = Inr r"
    by (simp add: preplica_new_def localhost_common_def index_ok)
  obtain rs where "os_bind (tc_replica (localhost_config keys) ! i) = Some rs" using assms(3) by blast
  then have "replica_args os_bind (localhost_config keys) i Null = Inr ?common"
    using j by (simp add: replica_args_def localhost_common_def index_ok)
  with r have m: "main_replica os_bind (replica_command_of keys i) \<lparr>rc_id = i, rc_n_thread = 4\<rparr> =
      Inr (Run_Replica ((rprogram_new 4)\<lparr>rg_threads := [Dedicated (P_Main (pr_main r)),
        Dedicated (P_Listen (pr_listen r))], rg_shared_states := [P_Crypto (pr_crypto r)]\<rparr>))"
    (is "_ = Inr (Run_Replica ?p)")
    by (simp add: main_replica_def replica_command_of_def preplica_deploy_threads del: bind_res_eq_Inr)
  have "rprogram_start ?p = Inr (fill_threads (?p\<lparr>rg_to_thread := [rg_shared_states ?p, rg_shared_states ?p]\<rparr>))"
    by (simp add: rprogram_start_def rprogram_new_def)
  moreover have "rg_threads (fill_threads (?p\<lparr>rg_to_thread := [rg_shared_states ?p, rg_shared_states ?p]\<rparr>)) =
      replica_threads r 2"
    by (simp add: fill_threads_eq rprogram_new_def replica_threads_def)
  ultimately show ?thesis using r m by blast
qed

text \<open>
  C23. The deployment is well-formed: \<open>liftoff\<close> sends one command to each replica host and one to the
  client host; the command for host \<open>i\<close> makes \<open>main\<close> configure PBFT replica \<open>i\<close> with a configuration
  that has its keys and addresses in order and deploy it on four threads without a failed
  assertion: the main thread, the listening thread and two that poll the crypto thread; the last
  command starts one benchmark thread with one client.
\<close>
theorem localhost_deployment:
  assumes "codec_ok ser de" and "length keys = 4"
    and "\<And>k. k \<in> set keys \<Longrightarrow> snd k = sc_public_key X (fst k)" and "\<And>a. os_bind a \<noteq> None"
  shows "\<exists>sends. lift_off ser keys = Inr sends \<and> map fst sends = replica_hosts @ client_hosts \<and>
    (\<forall>i < 4. deploy_ok X (localhost_common os_bind keys i) \<and>
       (\<exists>r p p'. preplica_new (localhost_common os_bind keys i) = Inr r \<and>
          main_run_command de os_bind (snd (sends ! i)) = Inr (Run_Replica p) \<and>
          rprogram_start p = Inr p' \<and> rg_threads p' = replica_threads r 2)) \<and>
    main_run_command de os_bind (snd (sends ! 4)) =
      Inr (Run_Clients [\<lparr>ba_protocol = Protocol_Pbft, ba_n_client = 1, ba_config = localhost_config keys,
        ba_ip = V4 127 0 0 101, ba_run_duration = from_millis 10100\<rparr>])"
proof -
  from lift_off_result [OF assms(1), of keys] obtain enc where
    l: "lift_off ser keys = Inr (zip replica_hosts (map (\<lambda>i. enc (replica_command_of keys i)) [0, 1, 2, 3]) @
      [(V4 127 0 0 101, enc (client_command_of keys))])" (is "_ = Inr ?sends")
    and e: "\<And>cmd. de (enc cmd) = Some cmd" by blast
  have hosts: "map fst ?sends = replica_hosts @ client_hosts"
    by (simp add: replica_hosts_def client_hosts_def)
  have at: "snd (?sends ! i) = enc (replica_command_of keys i)" if "i < 4" for i
  proof -
    from that have "i = 0 \<or> i = 1 \<or> i = 2 \<or> i = 3" by auto
    then show ?thesis by (auto simp: replica_hosts_def)
  qed
  have run: "main_run_command de os_bind (enc (replica_command_of keys i)) =
      main_replica os_bind (replica_command_of keys i) \<lparr>rc_id = i, rc_n_thread = 4\<rparr>" for i
    by (simp add: main_run_command_def e) (simp add: replica_command_of_def)
  have "main_run_command de os_bind (snd (?sends ! 4)) =
      Inr (Run_Clients [\<lparr>ba_protocol = Protocol_Pbft, ba_n_client = 1, ba_config = localhost_config keys,
        ba_ip = V4 127 0 0 101, ba_run_duration = from_millis 10100\<rparr>])"
    by (simp add: replica_hosts_def main_run_command_def e)
       (simp add: client_command_of_def main_client_def from_millis_def from_secs_def)
  moreover have "\<forall>i < 4. deploy_ok X (localhost_common os_bind keys i) \<and>
       (\<exists>r p p'. preplica_new (localhost_common os_bind keys i) = Inr r \<and>
          main_run_command de os_bind (snd (?sends ! i)) = Inr (Run_Replica p) \<and>
          rprogram_start p = Inr p' \<and> rg_threads p' = replica_threads r 2)"
  proof (intro allI impI conjI)
    fix i :: nat
    assume i: "i < 4"
    show "deploy_ok X (localhost_common os_bind keys i)" by (rule localhost_deploy_ok [OF assms(2) i assms(3)])
    show "\<exists>r p p'. preplica_new (localhost_common os_bind keys i) = Inr r \<and>
          main_run_command de os_bind (snd (?sends ! i)) = Inr (Run_Replica p) \<and>
          rprogram_start p = Inr p' \<and> rg_threads p' = replica_threads r 2"
      unfolding at [OF i] run by (rule replica_command_runs [OF assms(2) i assms(4)])
  qed
  ultimately show ?thesis using l hosts by blast
qed

text \<open>Four key pairs, an encoding of commands, and sockets on which nothing arrives.\<close>

instance app_mode :: countable
  by countable_datatype

instance protocol_mode :: countable
  by countable_datatype

instance transport_config_ext :: (countable) countable
  by (rule countable_classI [of "\<lambda>r. to_nat (tc_n r, tc_f r, tc_replica r, tc_public_keys r,
        tc_secret_keys r, transport_config.more r)"]) simp

instance replica_command_ext :: (countable) countable
  by (rule countable_classI [of "\<lambda>r. to_nat (rc_id r, rc_n_thread r, replica_command.more r)"]) simp

instance client_command_ext :: (countable) countable
  by (rule countable_classI [of "\<lambda>r. to_nat (lc_n_client r, lc_n_thread r, lc_ip r, lc_n_report r,
        client_command.more r)"]) simp

instance command_ext :: (countable) countable
  by (rule countable_classI [of "\<lambda>r. to_nat (cd_config r, cd_app r, cd_protocol r, cd_replica r,
        cd_client r, command.more r)"]) simp

definition sample_keys :: "(secret_key \<times> public_key) list" where
  "sample_keys = map (\<lambda>b. ([b], [b])) [10, 11, 12, 13]"

theorem localhost_deployment_witness:
  "\<exists>sends p p'. lift_off (\<lambda>m. Some (tagged [] m)) sample_keys = Inr sends \<and> length sends = 5 \<and>
     deploy_ok (sample_ext [] [] []) (localhost_common (\<lambda>a. Some (then_silent [])) sample_keys 3) \<and>
     main_run_command (untagged []) (\<lambda>a. Some (then_silent [])) (snd (sends ! 3)) = Inr (Run_Replica p) \<and>
     rprogram_start p = Inr p' \<and> length (rg_threads p') = 4"
proof -
  have codec: "codec_ok (\<lambda>m. Some (tagged [] m)) (untagged [] :: bytes \<Rightarrow> command option)"
    by (rule codec_ok_tagged) simp
  have keys: "snd k = sc_public_key (sample_ext [] [] []) (fst k)" if "k \<in> set sample_keys" for k
    using that by (auto simp: sample_keys_def sample_ext_def)
  have len: "length sample_keys = 4" by (simp add: sample_keys_def)
  have bind: "(\<lambda>a. Some (then_silent [])) a \<noteq> (None :: udp_recv stream option)" for a :: socket_addr by simp
  from localhost_deployment [OF codec len keys bind] obtain sends where
    s: "lift_off (\<lambda>m. Some (tagged [] m)) sample_keys = Inr sends"
      "map fst sends = replica_hosts @ client_hosts"
    and t: "\<forall>i < 4. deploy_ok (sample_ext [] [] []) (localhost_common (\<lambda>a. Some (then_silent [])) sample_keys i) \<and>
       (\<exists>r p p'. preplica_new (localhost_common (\<lambda>a. Some (then_silent [])) sample_keys i) = Inr r \<and>
          main_run_command (untagged []) (\<lambda>a. Some (then_silent [])) (snd (sends ! i)) = Inr (Run_Replica p) \<and>
          rprogram_start p = Inr p' \<and> rg_threads p' = replica_threads r 2)" by blast
  have "length sends = 5"
    using arg_cong [OF s(2), of length] by (simp add: replica_hosts_def client_hosts_def)
  moreover from spec [OF t, of 3] obtain r p p' where
    "deploy_ok (sample_ext [] [] []) (localhost_common (\<lambda>a. Some (then_silent [])) sample_keys 3)"
    "main_run_command (untagged []) (\<lambda>a. Some (then_silent [])) (snd (sends ! 3)) = Inr (Run_Replica p)"
    "rprogram_start p = Inr p'" "rg_threads p' = replica_threads r 2"
    by auto
  ultimately show ?thesis using s(1) by (auto simp: replica_threads_def)
qed

end
