(* ===== verification/Replica_Threads.thy ===== *)
theory Replica_Threads
  imports Replica_Program
begin

text \<open>
  The running replica program: the threads of \<open>src/program/replica.rs\<close>, the thread that waits in
  \<open>run_until_interrupt\<close>, and the handler of the interrupt signal, interleaved.  The flag and its
  mutex and condition variable are the static \<open>FLAG\<close>.
\<close>

section \<open>Threads\<close>

text \<open>
  A thread that owns a part waits for its closure first; then it polls until it is shut down, or
  until a poll panics.
\<close>

datatype thread_pc = T_Closure | T_Loop | T_Done | T_Panicked

text \<open>
  The thread in \<open>run_until_interrupt\<close>, after it has installed the handler: it is about to lock the
  mutex, holds it and looks at the flag, sleeps in \<open>wait_while\<close>, has returned from there (it then
  still holds the mutex, as \<open>_unused\<close> lives to the end of the function), has reset the handler,
  joins the threads from number \<open>k\<close> on, has returned, or has panicked on the unwrap of a join.
\<close>

datatype main_pc = M_Lock | M_Check | M_Wait | M_Reset | M_Store | M_Join nat | M_Return | M_Panic

text \<open>\<open>on_interrupt\<close>: it locks the mutex, sets the flag and unlocks, and notifies the waiting thread.\<close>

datatype handler_pc = H_Lock | H_Set | H_Notify

text \<open>A handler runs on a thread: \<open>None\<close> is the one in \<open>run_until_interrupt\<close>.\<close>

datatype owner = By_Main | By_Handler "nat option"

text \<open>\<open>rt_interrupts\<close> counts the signals delivered.\<close>

record rthreads =
  rt_workers :: "thread_pc list"
  rt_closures :: nat
  rt_shutdown :: bool
  rt_flag :: bool
  rt_lock :: "owner option"
  rt_main :: main_pc
  rt_handlers :: "nat option \<rightharpoonup> handler_pc"
  rt_interrupts :: nat

definition rt_init :: "('s, 'x) rprogram \<Rightarrow> rthreads" where
  "rt_init p =
     \<lparr>rt_workers = map (\<lambda>t. case t of Dedicated state \<Rightarrow> T_Closure | Pool shared_states \<Rightarrow> T_Loop) (rg_threads p),
      rt_closures = length (rg_to_thread p), rt_shutdown = rg_shutdown p, rt_flag = False,
      rt_lock = None, rt_main = M_Lock, rt_handlers = Map.empty, rt_interrupts = 0\<rparr>"

text \<open>
  One step of one thread.  A thread on which a handler runs is suspended until the handler returns.
  With \<open>faults\<close> the condition variable may wake up without a notification, and any poll may panic,
  which ends its thread; the join of such a thread panics, the guard of the mutex is dropped with the
  function, which leaves the mutex poisoned, so that no handler gets it any more.
\<close>

inductive rt_step :: "bool \<Rightarrow> rthreads \<Rightarrow> rthreads \<Rightarrow> bool" for faults where
  main_lock: "rt_handlers s None = None \<Longrightarrow> rt_main s = M_Lock \<Longrightarrow> rt_lock s = None \<Longrightarrow>
     rt_step faults s (s\<lparr>rt_main := M_Check, rt_lock := Some By_Main\<rparr>)"
| main_stop: "rt_handlers s None = None \<Longrightarrow> rt_main s = M_Check \<Longrightarrow> rt_flag s \<Longrightarrow>
     rt_step faults s (s\<lparr>rt_main := M_Reset\<rparr>)"
| main_wait: "rt_handlers s None = None \<Longrightarrow> rt_main s = M_Check \<Longrightarrow> \<not> rt_flag s \<Longrightarrow>
     rt_step faults s (s\<lparr>rt_main := M_Wait, rt_lock := None\<rparr>)"
| main_spurious: "faults \<Longrightarrow> rt_handlers s None = None \<Longrightarrow> rt_main s = M_Wait \<Longrightarrow>
     rt_step faults s (s\<lparr>rt_main := M_Lock\<rparr>)"
| main_reset: "rt_handlers s None = None \<Longrightarrow> rt_main s = M_Reset \<Longrightarrow>
     rt_step faults s (s\<lparr>rt_main := M_Store\<rparr>)"
| main_store: "rt_handlers s None = None \<Longrightarrow> rt_main s = M_Store \<Longrightarrow>
     rt_step faults s (s\<lparr>rt_main := M_Join 0, rt_shutdown := True\<rparr>)"
| main_join: "rt_handlers s None = None \<Longrightarrow> rt_main s = M_Join k \<Longrightarrow> k < length (rt_workers s) \<Longrightarrow>
     rt_workers s ! k = T_Done \<Longrightarrow> rt_step faults s (s\<lparr>rt_main := M_Join (Suc k)\<rparr>)"
| main_panic: "rt_handlers s None = None \<Longrightarrow> rt_main s = M_Join k \<Longrightarrow> k < length (rt_workers s) \<Longrightarrow>
     rt_workers s ! k = T_Panicked \<Longrightarrow> rt_step faults s (s\<lparr>rt_main := M_Panic, rt_lock := None\<rparr>)"
| main_return: "rt_handlers s None = None \<Longrightarrow> rt_main s = M_Join (length (rt_workers s)) \<Longrightarrow>
     rt_step faults s (s\<lparr>rt_main := M_Return, rt_lock := None\<rparr>)"
| worker_closure: "rt_handlers s (Some i) = None \<Longrightarrow> i < length (rt_workers s) \<Longrightarrow>
     rt_workers s ! i = T_Closure \<Longrightarrow> rt_closures s = Suc n \<Longrightarrow>
     rt_step faults s (s\<lparr>rt_workers := (rt_workers s)[i := T_Loop], rt_closures := n\<rparr>)"
| worker_poll: "rt_handlers s (Some i) = None \<Longrightarrow> i < length (rt_workers s) \<Longrightarrow>
     rt_workers s ! i = T_Loop \<Longrightarrow> \<not> rt_shutdown s \<Longrightarrow> rt_step faults s s"
| worker_panic: "faults \<Longrightarrow> rt_handlers s (Some i) = None \<Longrightarrow> i < length (rt_workers s) \<Longrightarrow>
     rt_workers s ! i = T_Loop \<Longrightarrow> rt_step faults s (s\<lparr>rt_workers := (rt_workers s)[i := T_Panicked]\<rparr>)"
| worker_exit: "rt_handlers s (Some i) = None \<Longrightarrow> i < length (rt_workers s) \<Longrightarrow>
     rt_workers s ! i = T_Loop \<Longrightarrow> rt_shutdown s \<Longrightarrow>
     rt_step faults s (s\<lparr>rt_workers := (rt_workers s)[i := T_Done]\<rparr>)"
| interrupt: "rt_main s \<in> {M_Lock, M_Check, M_Wait, M_Reset} \<Longrightarrow> rt_handlers s h = None \<Longrightarrow>
     (case h of None \<Rightarrow> True | Some i \<Rightarrow> i < length (rt_workers s)) \<Longrightarrow>
     rt_step faults s (s\<lparr>rt_handlers := (rt_handlers s)(h \<mapsto> H_Lock),
        rt_interrupts := Suc (rt_interrupts s)\<rparr>)"
| handler_lock: "rt_handlers s h = Some H_Lock \<Longrightarrow> rt_lock s = None \<Longrightarrow> rt_main s \<noteq> M_Panic \<Longrightarrow>
     rt_step faults s (s\<lparr>rt_handlers := (rt_handlers s)(h \<mapsto> H_Set), rt_lock := Some (By_Handler h)\<rparr>)"
| handler_set: "rt_handlers s h = Some H_Set \<Longrightarrow>
     rt_step faults s (s\<lparr>rt_handlers := (rt_handlers s)(h \<mapsto> H_Notify), rt_flag := True, rt_lock := None\<rparr>)"
| handler_notify: "rt_handlers s h = Some H_Notify \<Longrightarrow>
     rt_step faults s (s\<lparr>rt_handlers := (rt_handlers s)(h := None),
        rt_main := (if rt_main s = M_Wait then M_Lock else rt_main s)\<rparr>)"

text \<open>The states of a program that \<open>run_until_interrupt\<close> has started.\<close>

definition rt_reach :: "('s, 'x) rprogram \<Rightarrow> rthreads \<Rightarrow> bool" where
  "rt_reach p s \<longleftrightarrow> (\<exists>p1. rprogram_start p = Inr p1 \<and> (rt_step True)\<^sup>*\<^sup>* (rt_init p1) s)"

section \<open>Invariant\<close>

definition waiting :: "thread_pc list \<Rightarrow> nat" where
  "waiting ws = length (filter (\<lambda>w. w = T_Closure) ws)"

fun holds_lock :: "main_pc \<Rightarrow> bool" where
  "holds_lock M_Check \<longleftrightarrow> True"
| "holds_lock M_Reset \<longleftrightarrow> True"
| "holds_lock M_Store \<longleftrightarrow> True"
| "holds_lock (M_Join k) \<longleftrightarrow> True"
| "holds_lock _ \<longleftrightarrow> False"

fun has_returned :: "main_pc \<Rightarrow> bool" where
  "has_returned M_Lock \<longleftrightarrow> False"
| "has_returned M_Check \<longleftrightarrow> False"
| "has_returned M_Wait \<longleftrightarrow> False"
| "has_returned _ \<longleftrightarrow> True"

fun is_shut :: "main_pc \<Rightarrow> bool" where
  "is_shut (M_Join k) \<longleftrightarrow> True"
| "is_shut M_Return \<longleftrightarrow> True"
| "is_shut M_Panic \<longleftrightarrow> True"
| "is_shut _ \<longleftrightarrow> False"

text \<open>Who holds the mutex.\<close>

definition lock_inv :: "rthreads \<Rightarrow> bool" where
  "lock_inv s \<longleftrightarrow> (rt_lock s = Some By_Main) = holds_lock (rt_main s) \<and>
     (\<forall>h. (rt_lock s = Some (By_Handler h)) = (rt_handlers s h = Some H_Set))"

text \<open>What the flag means, and that no notification is lost.\<close>

definition flag_inv :: "rthreads \<Rightarrow> bool" where
  "flag_inv s \<longleftrightarrow> (has_returned (rt_main s) \<longrightarrow> rt_flag s) \<and> rt_shutdown s = is_shut (rt_main s) \<and>
     (rt_flag s \<and> rt_main s = M_Wait \<longrightarrow> (\<exists>h. rt_handlers s h = Some H_Notify)) \<and>
     (rt_flag s \<or> (\<exists>h. rt_handlers s h \<noteq> None) \<longrightarrow> 0 < rt_interrupts s)"

text \<open>
  There is a closure for every thread that waits for one, joined threads are done, and the join only
  panics when a thread has panicked.
\<close>

definition worker_inv :: "rthreads \<Rightarrow> bool" where
  "worker_inv s \<longleftrightarrow> waiting (rt_workers s) \<le> rt_closures s \<and>
     (case rt_main s of
        M_Join k \<Rightarrow> k \<le> length (rt_workers s) \<and> (\<forall>i < k. rt_workers s ! i = T_Done)
      | M_Return \<Rightarrow> (\<forall>i < length (rt_workers s). rt_workers s ! i = T_Done)
      | M_Panic \<Rightarrow> T_Panicked \<in> set (rt_workers s)
      | _ \<Rightarrow> True)"

definition rt_inv :: "rthreads \<Rightarrow> bool" where
  "rt_inv s \<longleftrightarrow> lock_inv s \<and> flag_inv s \<and> worker_inv s"

lemma waiting_update:
  "i < length ws \<Longrightarrow> ws ! i = T_Closure \<Longrightarrow> w \<noteq> T_Closure \<Longrightarrow> Suc (waiting (ws[i := w])) = waiting ws"
  "i < length ws \<Longrightarrow> ws ! i \<noteq> T_Closure \<Longrightarrow> w \<noteq> T_Closure \<Longrightarrow> waiting (ws[i := w]) = waiting ws"
  unfolding waiting_def by (induction ws arbitrary: i; auto simp: nth_Cons split: nat.splits)+

lemma panicked_update:
  "i < length ws \<Longrightarrow> ws ! i \<noteq> T_Panicked \<Longrightarrow> w \<noteq> T_Panicked \<Longrightarrow>
     T_Panicked \<in> set (ws[i := w]) \<longleftrightarrow> T_Panicked \<in> set ws"
  by (auto simp: in_set_conv_nth nth_list_update)

lemma rt_inv_init:
  assumes "rprogram_start p = Inr p1"
  shows "rt_inv (rt_init p1)"
proof -
  let ?p = "p\<lparr>rg_to_thread := rg_to_thread p @ replicate (length (rg_threads p)) (rg_shared_states p)\<rparr>"
  have p1: "p1 = fill_threads ?p" "\<not> rg_shutdown p"
    using assms by (auto simp: rprogram_start_def split: if_splits)
  have "waiting (map (\<lambda>t. case t of Dedicated state \<Rightarrow> T_Closure | Pool shared_states \<Rightarrow> T_Loop) (rg_threads p1)) =
      n_dedicated p1"
    unfolding waiting_def n_dedicated_def filter_map length_map comp_def
    by (rule arg_cong [where f = length], rule filter_cong) (auto split: worker.splits)
  moreover have "n_dedicated p1 \<le> length (rg_to_thread p1)"
    unfolding p1 by (simp add: n_dedicated_fill) (simp add: fill_threads_eq n_dedicated_def le_trans [OF length_filter_le])
  moreover have "\<not> rg_shutdown p1" using p1 by (simp add: fill_threads_eq)
  ultimately show ?thesis
    by (simp add: rt_inv_def lock_inv_def flag_inv_def worker_inv_def rt_init_def)
qed

lemma lock_inv_step: "rt_step faults s s' \<Longrightarrow> lock_inv s \<Longrightarrow> lock_inv s'"
proof (induction rule: rt_step.induct)
  case (handler_set s h)
  then have "rt_lock s = Some (By_Handler h)" by (simp add: lock_inv_def)
  with handler_set show ?case by (auto simp: lock_inv_def)
next
  case (handler_lock s h)
  then show ?case by (auto simp: lock_inv_def)
next
  case (handler_notify s h)
  then show ?case by (cases "rt_main s") (auto simp: lock_inv_def)
qed (auto simp: lock_inv_def)

lemma flag_inv_step: "rt_step faults s s' \<Longrightarrow> flag_inv s \<Longrightarrow> flag_inv s'"
proof (induction rule: rt_step.induct)
  case (interrupt s h)
  have "\<exists>h'. ((rt_handlers s)(h \<mapsto> H_Lock)) h' = Some H_Notify" if "rt_flag s" "rt_main s = M_Wait"
  proof -
    from that interrupt obtain h' where "rt_handlers s h' = Some H_Notify" by (auto simp: flag_inv_def)
    with interrupt(2) show ?thesis by (intro exI [of _ h']) auto
  qed
  with interrupt show ?case by (auto simp: flag_inv_def)
next
  case (handler_lock s h)
  have "\<exists>h'. ((rt_handlers s)(h \<mapsto> H_Set)) h' = Some H_Notify" if "rt_flag s" "rt_main s = M_Wait"
  proof -
    from that handler_lock obtain h' where "rt_handlers s h' = Some H_Notify" by (auto simp: flag_inv_def)
    with handler_lock(1) show ?thesis by (intro exI [of _ h']) auto
  qed
  with handler_lock show ?case by (auto simp: flag_inv_def)
next
  case (handler_set s h)
  have "\<exists>h'. ((rt_handlers s)(h \<mapsto> H_Notify)) h' = Some H_Notify" by (intro exI [of _ h]) simp
  with handler_set show ?case by (auto simp: flag_inv_def)
next
  case (handler_notify s h)
  then show ?case by (cases "rt_main s") (auto simp: flag_inv_def)
qed (auto simp: flag_inv_def)

lemma worker_inv_step:
  assumes "rt_step faults s s'" and "worker_inv s"
  shows "worker_inv s'"
  using assms
proof (induction rule: rt_step.induct)
  case (worker_closure s i n)
  then show ?case
    using waiting_update(1) [of i "rt_workers s" T_Loop] panicked_update [of i "rt_workers s" T_Loop]
    by (auto simp: worker_inv_def nth_list_update split: main_pc.splits)
next
  case (worker_exit s i)
  then show ?case
    using waiting_update(2) [of i "rt_workers s" T_Done] panicked_update [of i "rt_workers s" T_Done]
    by (auto simp: worker_inv_def nth_list_update split: main_pc.splits)
next
  case (worker_panic s i)
  then show ?case
    using waiting_update(2) [of i "rt_workers s" T_Panicked]
    by (auto simp: worker_inv_def nth_list_update set_update_memI split: main_pc.splits)
next
  case (main_panic s k)
  from nth_mem [OF main_panic(3)] main_panic show ?case by (simp add: worker_inv_def)
qed (auto simp: worker_inv_def less_Suc_eq split: main_pc.splits)

lemma rt_steps_inv: "(rt_step faults)\<^sup>*\<^sup>* s s' \<Longrightarrow> rt_inv s \<Longrightarrow> rt_inv s'"
  by (induction rule: rtranclp_induct) (auto simp: rt_inv_def intro: lock_inv_step flag_inv_step worker_inv_step)


section \<open>Shutting down\<close>





lemma rt_step_rt_inv: "rt_step faults s s' \<Longrightarrow> rt_inv s \<Longrightarrow> rt_inv s'"
  using rt_steps_inv [of faults s s'] by blast







section \<open>One interrupt\<close>






text \<open>The thread that holds the mutex is interrupted, so its handler waits for a mutex of its own thread.\<close>

definition self_locked :: "rthreads \<Rightarrow> bool" where
  "self_locked s \<longleftrightarrow> rt_handlers s None = Some H_Lock \<and> rt_lock s = Some By_Main"





section \<open>Properties\<close>




text \<open>A handler that waits for the mutex of its own thread waits for ever.\<close>

definition stuck :: "rthreads \<Rightarrow> bool" where
  "stuck s \<longleftrightarrow> lock_inv s \<and> flag_inv s \<and> rt_main s = M_Check \<and> \<not> rt_flag s \<and> self_locked s"

lemma stuck_step: "rt_step faults s s' \<Longrightarrow> stuck s \<Longrightarrow> stuck s'"
proof (induction rule: rt_step.induct)
  case (handler_set s h)
  then show ?case by (auto simp: stuck_def lock_inv_def self_locked_def)
next
  case (handler_notify s h)
  moreover from this lock_inv_step [OF rt_step.handler_notify] flag_inv_step [OF rt_step.handler_notify]
  have "lock_inv (s\<lparr>rt_handlers := (rt_handlers s)(h := None), rt_main := rt_main s\<rparr>)"
    "flag_inv (s\<lparr>rt_handlers := (rt_handlers s)(h := None), rt_main := rt_main s\<rparr>)"
    by (fastforce simp: stuck_def)+
  ultimately show ?case by (auto simp: stuck_def self_locked_def)
next
  case (interrupt s h)
  with lock_inv_step [OF rt_step.interrupt] flag_inv_step [OF rt_step.interrupt]
  show ?case by (auto simp: stuck_def self_locked_def)
next
  case (worker_closure s i n)
  then show ?case by (auto simp: stuck_def self_locked_def lock_inv_def flag_inv_def)
next
  case (worker_exit s i)
  then show ?case by (auto simp: stuck_def self_locked_def lock_inv_def flag_inv_def)
next
  case (worker_panic s i)
  then show ?case by (auto simp: stuck_def self_locked_def lock_inv_def flag_inv_def)
qed (auto simp: stuck_def self_locked_def)

lemma stuck_steps: "(rt_step faults)\<^sup>*\<^sup>* s s' \<Longrightarrow> stuck s \<Longrightarrow> stuck s'"
  by (induction rule: rtranclp_induct) (auto intro: stuck_step)

text \<open>
  C37. An interrupt can be lost for good: when it is delivered to the thread in
  \<open>run_until_interrupt\<close> while this holds the mutex and looks at the flag, the handler waits
  for the mutex of the thread that it has interrupted, and the program is never shut down
  nor does it return, whatever its threads do and whatever further interrupts and wakeups come.
\<close>

theorem interrupt_can_block:
  assumes "\<not> rg_shutdown p"
  shows "\<exists>s. rt_reach p s \<and> rt_interrupts s = 1 \<and> rt_handlers s None = Some H_Lock \<and>
    \<not> (\<exists>s'. (rt_step True)\<^sup>*\<^sup>* s s' \<and> (rt_shutdown s' \<or> rt_main s' = M_Return \<or> rt_handlers s' None = None))"
proof -
  from assms obtain p1 where p1: "rprogram_start p = Inr p1" by (simp add: rprogram_start_def)
  note init = rt_inv_init [OF this]
  let ?s1 = "(rt_init p1)\<lparr>rt_main := M_Check, rt_lock := Some By_Main\<rparr>"
  let ?s = "?s1\<lparr>rt_handlers := [None \<mapsto> H_Lock], rt_interrupts := 1\<rparr>"
  have s1: "rt_step True (rt_init p1) ?s1" by (rule main_lock) (simp_all add: rt_init_def)
  have s: "rt_step True ?s1 ?s" using interrupt [of ?s1 None True] by (simp add: rt_init_def)
  have "rt_inv ?s" by (rule rt_step_rt_inv [OF s rt_step_rt_inv [OF s1 init]])
  then have "stuck ?s" by (simp add: stuck_def self_locked_def rt_inv_def rt_init_def)
  then have "stuck s'" if "(rt_step True)\<^sup>*\<^sup>* ?s s'" for s' using that stuck_steps by blast
  then have never: "\<not> (\<exists>s'. (rt_step True)\<^sup>*\<^sup>* ?s s' \<and>
      (rt_shutdown s' \<or> rt_main s' = M_Return \<or> rt_handlers s' None = None))"
    by (fastforce simp: stuck_def self_locked_def flag_inv_def)
  have "rt_reach p ?s" unfolding rt_reach_def
    using p1 s1 s by (meson r_into_rtranclp rtranclp.rtrancl_into_rtrancl)
  with never show ?thesis by (intro exI [of _ ?s]) simp
qed

lemma interrupt_can_block_witness:
  "\<exists>s. rt_reach (rprogram_new 3 :: (part, shared_part) rprogram) s \<and> rt_interrupts s = 1 \<and>
    \<not> (\<exists>s'. (rt_step True)\<^sup>*\<^sup>* s s' \<and> (rt_shutdown s' \<or> rt_main s' = M_Return \<or> rt_handlers s' None = None))"
proof -
  have "\<not> rg_shutdown (rprogram_new 3 :: (part, shared_part) rprogram)" by (simp add: rprogram_new_def)
  from interrupt_can_block [OF this] show ?thesis by blast
qed

end
