(* ===== verification/Spec2Isabelle.thy ===== *)
theory Spec2Isabelle
  imports Unreplicated_Properties Pbft_Client_Properties Pbft_Main_Limits Pbft_Replica_Properties
    Pbft_System_Properties Pbft_Service Bench_Process_Properties Bench_Livelock Unreplicated_Tests
    Deployment_Properties Replica_Threads Misc
begin

text \<open>
  \<^bold>\<open>Tidyup: two replicated services, their clients and the programs that run them\<close>

  The repository implements two services that execute operations of an application at most once
  for each request of a client: an unreplicated one, \<open>src/unreplicated.rs\<close>, and one replicated with
  the normal case of PBFT, \<open>src/pbft.rs\<close>.  Clients and replicas are polled actors that exchange
  bincode datagrams over UDP or, in tests, over a simulated network (\<open>src/simulated.rs\<close>).  A
  replica consists of a main thread, which owns the log, a listening thread, which decodes
  datagrams, and a pool of threads that sign, verify and send; they talk over unbounded channels.
  \<open>src/program/replica.rs\<close> gives the parts of a replica their threads,
  \<open>src/program/bench_client.rs\<close> drives many clients from one thread, \<open>src/main.rs\<close> starts either of
  them as it is commanded over TCP, and \<open>src/run/examples/localhost.rs\<close> sends the commands.

  \<^bold>\<open>Conventions.\<close>  A Rust function that can panic returns a value of \<open>'a res\<close>, whose left values
  name the panic (theory \<open>Prelude\<close>).  \<open>&mut self\<close> is a record that is returned updated, and what
  a call sends is a list it returns.  \<open>u8\<close>, \<open>u16\<close>, \<open>u32\<close> are words and wrap around, as they do in
  the release build that the repository runs; \<open>usize\<close> values are lengths and configured numbers
  and are natural numbers; instants and durations are natural numbers of nanoseconds.  Code that
  is not in the repository is the record \<open>externals\<close>: the encoders and decoders of bincode, the
  hash, signatures and verification of secp256k1, the answer of the operating system to a send,
  and the order in which a hash map is iterated.  What is assumed of it is stated as named
  predicates (\<open>codec_ok\<close>, \<open>sign_ok\<close>, \<open>hm_first_ok\<close>, \<open>hash_binds\<close>), and \<open>Samples\<close> and the
  demonstration theories have instances that satisfy them.

  \<^bold>\<open>Shared theories.\<close>

  \<^item> \<open>Prelude\<close>: machine integers, panics, the result monad, channels (\<open>chan_recv\<close>, and \<open>chan_send\<close>,
    which fails when the receiver is gone), the length of a hash map, and
    the loops \<open>while self.poll() {}\<close> (\<open>poll_loop\<close>, \<open>poll_all\<close>) and \<open>for\<close> (\<open>for_each\<close>) with their rules.
  \<^item> \<open>Messages\<close>: the types of \<open>src/message\<close>.  \<open>App\<close>: \<open>src/app.rs\<close>.  \<open>Externals\<close>: the parameters.
  \<^item> \<open>Core\<close>: \<open>src/core.rs\<close>, that is the clock, both kinds of sending and receiving ends, the common
    fields of clients and replicas, and the derived order of \<open>OptionInstant\<close> as an instance of
    the library's linear orders.  A UDP socket is the infinite stream of what its calls return, so
    nothing ends because a socket runs dry: where a loop over polls ends this rests on the
    assumption \<open>rx_quiet\<close>, that no burst of datagrams is infinite.
  \<^item> \<open>Client_Interface\<close>: the trait \<open>ClientState\<close> as the locale \<open>client_state\<close>, whose laws both
    clients are proved to keep (interpretations \<open>uc\<close>, \<open>pc\<close>) and the driver uses.
  \<^item> \<open>Service\<close>: the abstract service, a history of executed requests, and the locale
    \<open>at_most_once\<close> of the implementations that keep a table of last replies instead.  The main
    threads of both replicas are interpretations (\<open>um\<close>, \<open>pm\<close>).
  \<^item> \<open>Samples\<close>: concrete parameters and the four-replica configuration.

  \<^bold>\<open>The unreplicated service\<close>, \<open>src/unreplicated.rs\<close>.  \<open>Unreplicated\<close> holds the client (records
  and operations \<open>uclient\<close>), the three threads (\<open>umain\<close>, \<open>ulisten\<close>, \<open>ueffect\<close>) and the replica polled
  as one actor (\<open>ureplica_poll\<close>, which polls the listening, main and effect threads in this order).
  \<open>Unreplicated_Correct\<close> has the client invariant and the refinement; \<open>Unreplicated_Properties\<close>
  has the round trip of a request, the replies, resending, and the datagram that stops a replica.

  \<^bold>\<open>The client of PBFT\<close>.  \<open>Pbft_Client\<close> has its operations and its invariant,
  \<open>Pbft_Client_Properties\<close> its properties.  \<open>pclient_since\<close> are the states between an invoke and
  the result, with the answers that have been read.

  \<^bold>\<open>The replica of PBFT.\<close>

  \<^item> \<open>Pbft_Main\<close>: the main thread, \<open>MainThread\<close>: one definition for each handler, the reorder
    buffer (\<open>receive_pre_prepare\<close>, \<open>drain_reorder\<close>), the execution loop and \<open>main_poll\<close>.
  \<^item> \<open>Pbft_Main_Correct\<close>, \<open>Pbft_Main_Steps\<close>, \<open>Pbft_Main_Runs\<close>, \<open>Pbft_Main_Sends\<close>: what one step
    keeps, what each handler does, and what sequences of messages (\<open>main_run\<close>) do and send.
  \<^item> \<open>Pbft_Main_Properties\<close>, \<open>Pbft_Main_Limits\<close>: the properties of the main thread, and the
    behaviours in which it differs from its comments.
  \<^item> \<open>Pbft_Replica\<close>: the listening and the crypto thread with every branch, the constructor, and the
    replica polled as one actor (\<open>preplica_poll\<close>).
  \<^item> \<open>Pbft_Crypto_Correct\<close>: which messages the crypto thread lets through.  \<open>Pbft_Replica_Correct\<close>:
    the states a replica reaches while it is polled and any datagrams arrive (\<open>replica_reach\<close>)
    and the invariant that all it holds is authentic.  \<open>Pbft_Replica_Demo\<close>: a run to the first
    execution.  \<open>Pbft_Replica_Properties\<close>: the properties.

  \<^bold>\<open>Several replicas.\<close>  \<open>Pbft_System\<close> runs the threads of several correct replicas concurrently, at
  the granularity of one message, among faulty replicas and a network that may deliver anything
  but the signature of a correct replica on what it has not signed (\<open>sys_reach\<close>).  The channels
  are multisets, since the crypto threads of a replica overtake each other.  \<open>Pbft_Agreement\<close>
  proves that correct replicas agree, \<open>Pbft_System_Runs\<close> builds schedules out of runs of the main
  threads, \<open>Pbft_System_Demo\<close> uses them for two concrete systems: one in which replicas
  execute, and one in which a faulty primary splits them.  \<open>Pbft_System_Properties\<close> has the results.

  \<^bold>\<open>Rounds of correct replicas.\<close>  \<open>Pbft_Round\<close> has what the handlers of the main thread do in the
  normal case, for one request: a proposal, the prepares, the commits, the execution.
  \<open>Pbft_System_Round\<close> composes them to a schedule of all replicas for one request (\<open>round\<close>) and for a
  list of them (\<open>rounds\<close>), phase by phase.  \<open>Pbft_Service\<close> adds the client: a request leaves it,
  is executed, and its replies come back.

  \<^bold>\<open>The programs.\<close>

  \<^item> \<open>Bench_Client\<close>: \<open>src/program/bench_client.rs\<close> over a record of the operations of the client.
    The driver keeps a set of timers ordered by time and a map from clients to their timers
    (\<open>program\<close>); \<open>run_turn\<close> is one iteration of its main loop, \<open>bench_run\<close> the program, which
    ends when the clock passes the duration.  The clients that \<open>epoll_wait\<close> names and the clock
    readings are sequences, both parameters.  \<open>Bench_Correct\<close> proves it correct for every client
    that keeps the contract (locale \<open>bench\<close>), \<open>Bench_Properties\<close> for the two that exist
    (interpretations \<open>ub\<close>, \<open>pb\<close>).
  \<^item> \<open>Bench_Process\<close>: the process of \<open>src/main.rs\<close> that runs several drivers, each in a thread, and
    prints once a second what the shared counter has, as interleaved steps of all threads
    (\<open>thread_step\<close>, \<open>report_step\<close>, \<open>bp_step\<close>).  A step of a driver is \<open>run\<close> up to its main loop or one
    turn of this loop; the seconds between reports are any number of steps.
    A thread whose loop over the polls of a client does not end is \<open>B_Hung\<close>.
    \<open>Bench_Process_Properties\<close>: it ends, and the reports add up.  \<open>Bench_Livelock\<close>: a driver whose first
    client is flooded with replies to other requests never gets to its main loop
    (\<open>driver_can_livelock\<close>), so \<open>rx_quiet\<close> is needed.
  \<^item> \<open>Simulated\<close>: \<open>src/simulated.rs\<close> (routes, filter, simulated time) and the set-up of the tests of
    \<open>src/unreplicated.rs\<close> that use it; \<open>Simulated_Properties\<close> generalises what these tests check to
    any number of lost requests and replies, \<open>Unreplicated_Tests\<close> has the three tests as they are
    and that they pass.
  \<^item> \<open>Replica_Program\<close>: \<open>src/program/replica.rs\<close>, as an assignment of parts to threads, and one turn
    of a dedicated thread; a program that runs is shut down, one that is dropped before it runs
    blocks (\<open>rprogram_drop_blocks\<close>).  \<open>Replica_Threads\<close>: the same program while it runs, as the step
    relation \<open>rt_step\<close> of its threads, of the thread in \<open>run_until_interrupt\<close> and of the signal
    handler \<open>on_interrupt\<close>, over the mutex, the condition variable and the shutdown flag; the
    parameter \<open>faults\<close> allows wakeups without a notification and polls that panic.  \<open>Deployment\<close>: on which host \<open>src/main.rs\<close>
    listens, what it makes of a command and which
    commands \<open>src/run/examples/localhost.rs\<close> sends.  \<open>Deployment_Properties\<close>: sender and receiver fit.
  \<^item> \<open>Misc\<close>: the counters of \<open>src/misc.rs\<close>.

  \<^bold>\<open>What the properties show\<close>, by the number in front of each.

  \<^item> Safety of PBFT: a replica executes only with a certificate (C1), correct replicas execute the same
    (C2), execution refines the abstract service (C4), only committed entries run (C14), replies are
    from the history (C15).  The condition of C2 is what the code gives: \<open>is_prepared\<close> does not
    compare digests with the log, and C5 has the run in which a faulty primary exploits it.
  \<^item> Progress of PBFT: correct replicas can execute any list of requests and reply to them (C3), and a
    client gets its result back (C6).
  \<^item> The log and what is sent: C13, C16, C17, C18, C19, C21.
  \<^item> Termination and failures: the replica program ends after an interrupt (C7), a driver ends (C9), the
    benchmark process with all its drivers ends (C8), the last two when no socket delivers datagrams for
    ever without a pause; the complete lists of failures of the main
    thread (C20), of a replica (C27), and none for a client (C29).
  \<^item> Threads of a replica: C25, C26.  The client of PBFT: C28.
  \<^item> The unreplicated service: C30, C31, C32, and over the simulated network C12.
  \<^item> Driver: its timer tables agree (C10) and are equivalent to a scan of the clients (C22); the reports of
    the process add up to what the clients have completed (C11).
  \<^item> Deployment: commands are well-formed for their receivers (C23); client numbers are different as
    long as there are at most 65536 (C24).
  \<^item> Behaviours worth repairing: for a proposal that comes late no commit is sent (C33), an entry whose last
    prepare comes after the commits waits (C34), a prepare can be passed off as a commit (C35), a
    datagram with an unknown replica number makes a replica panic (C36), an interrupt can block the
    program (C37), answers are not compared (C38), the reorder buffer forgets views (C39), a malformed
    datagram stops the unreplicated replica (C40), and the driver can live lock
    (\<open>driver_can_livelock\<close>).

  \<^bold>\<open>Bounds.\<close>  Operation numbers are 32 bits wide and wrap around; theorems about whole logs assume
  that less than \<open>2^32\<close> entries or messages have gone by (a premise on the length of the log or of
  the run, \<open>sys_small\<close> for systems), and the others hold without bound.  Receive buffers
  have 65000 bytes in the replica of PBFT and 1500 in the unreplicated one and in clients, as in
  the code.  UDP cuts a datagram off at the size of the buffer; the simulated network panics
  when one is longer, and \<open>rx_ok\<close> states that this does not happen.  No definition uses fuel: the
  execution loop and the loops over \<open>poll\<close>, the main loop of the driver among them, are partial functions whose result
  \<open>None\<close> means that they do not return, which C9 and \<open>execute_total\<close> exclude; \<open>drain_reorder\<close> and
  \<open>fill_threads\<close> have a termination proof.

  \<^bold>\<open>Not modelled.\<close>

  \<^item> Printing itself: a number that is printed is a value of the model (\<open>bp_printed\<close>, \<open>drop_statistics\<close>),
    its text is not.  The elapsed time in front of a report is left out.
  \<^item> The operating system: opening of sockets, registration with epoll, processor affinity (\<open>bind_core\<close>
    takes the call as a parameter), the TCP connections that carry commands (the host is modelled),
    and the sleeps that make thread schedules fair on the machines of the CI.
  \<^item> What a poll does inside a running replica program: in \<open>Replica_Threads\<close> a poll only returns or
    panics (when it does is the subject of C20 and C27); that it might not return, as C27 has for a
    log of \<open>2^32\<close> entries, is left out.  What a driver counts in the turn in which it panics is left out.
  \<^item> A send of the main thread to the crypto or effect thread that fails: the receiver belongs to a shared part,
    which \<open>Program\<close> keeps until it has joined all threads.
  \<^item> The generator of key pairs in \<open>localhost.rs\<close> is a parameter.
  \<^item> \<open>Clone\<close> of \<open>TxChannel\<close>, which nothing calls, and the blanket implementation of \<open>State\<close> for shared
    parts, which is the call it forwards to.
  \<^item> Wall-clock scheduling of threads.  Within one replica \<open>preplica_poll\<close> is the deterministic
    order of the code; \<open>Pbft_System\<close> covers every interleaving of the threads.
  \<^item> \<open>src/lib.rs\<close>, which only declares modules, and \<open>src/run.py\<close>, which copies and starts binaries.
\<close>

end
